(* ===== verification/Redis_Prelude.thy ===== *)
theory Redis_Prelude
  imports
    Main
    "HOL-Library.Char_ord"
    "HOL-Library.List_Lexorder"
    "HOL-Library.Product_Lexorder"
    "HOL-Library.AList"
    "HOL-Library.Multiset"
    "HOL-Library.Sublist"
    "HOL-Library.Word"
begin

text \<open>
  Shared vocabulary of the development: the types every component uses, the machine
  integers of the Rust source, the collections of facts the component proofs draw on,
  and generic lemmas on lists and association lists.

  \<^item> A \<open>Bytes\<close> or \<open>&[u8]\<close> of the source is a list of 8-bit characters, and so is a Rust
    \<open>String\<close> (its UTF-8 bytes): both are \<open>bytes\<close>. The order on \<open>bytes\<close> is the
    lexicographic order of unsigned bytes, which is the \<open>Ord\<close> of \<open>Bytes\<close> and \<open>String\<close>.
  \<^item> An \<open>i64\<close> is an \<open>int\<close> and a \<open>usize\<close> a \<open>nat\<close>; the arithmetic that can leave the range is
    written with \<open>i64_wrap\<close>, \<open>usize_wrap\<close> or \<open>checked_add_i64\<close>. The wrap-around is the one of
    a release build (the crate sets no \<open>overflow-checks\<close>).
\<close>

section \<open>Collections of facts\<close>

named_theorems seq_simps \<open>operations of the list encodings in terms of the sequence they hold\<close>
named_theorems map_simps \<open>operations of the hash encodings in terms of the map they hold\<close>
named_theorems set_simps \<open>operations of the set encodings in terms of the set they hold\<close>
named_theorems enc_intros \<open>operations that keep the encoding invariant\<close>

section \<open>Types\<close>

type_synonym bytes = string
type_synonym i64 = int
type_synonym usize = nat

section \<open>Machine integers\<close>

definition is_i64 :: "int \<Rightarrow> bool" where
  "is_i64 n \<longleftrightarrow> - (2 ^ 63) \<le> n \<and> n < 2 ^ 63"

text \<open>The two's complement value of an \<open>i64\<close> operation whose exact result is \<open>n\<close>.\<close>

definition i64_wrap :: "int \<Rightarrow> i64" where
  "i64_wrap n = (n + 2 ^ 63) mod 2 ^ 64 - 2 ^ 63"

text \<open>\<open>n as usize\<close> for a signed \<open>n\<close>, and the value of a wrapping \<open>usize\<close> operation.\<close>

definition usize_wrap :: "int \<Rightarrow> usize" where
  "usize_wrap n = nat (n mod 2 ^ 64)"

definition checked_add_i64 :: "i64 \<Rightarrow> i64 \<Rightarrow> i64 option" where
  "checked_add_i64 a b = (if is_i64 (a + b) then Some (a + b) else None)"

lemma is_i64_wrap [simp]: "is_i64 (i64_wrap n)"
  by (simp add: is_i64_def i64_wrap_def)

lemma i64_wrap_id: "is_i64 n \<Longrightarrow> i64_wrap n = n"
  by (simp add: is_i64_def i64_wrap_def)

lemma usize_wrap_nonneg: "0 \<le> n \<Longrightarrow> n < 2 ^ 64 \<Longrightarrow> usize_wrap n = nat n"
  by (simp add: usize_wrap_def)

lemma usize_wrap_neg1: "usize_wrap (- 1) = 2 ^ 64 - 1"
  by (simp add: usize_wrap_def)

lemma checked_add_i64_Some:
  "checked_add_i64 a b = Some c \<longleftrightarrow> c = a + b \<and> is_i64 (a + b)"
  by (auto simp: checked_add_i64_def)

section \<open>Lists\<close>

text \<open>\<open>iter().position(p)\<close>: the index of the first element that satisfies \<open>p\<close>.\<close>

fun position :: "('a \<Rightarrow> bool) \<Rightarrow> 'a list \<Rightarrow> nat option" where
  "position p [] = None"
| "position p (x # xs) = (if p x then Some 0 else map_option Suc (position p xs))"

lemma position_None: "position p xs = None \<longleftrightarrow> (\<forall>x \<in> set xs. \<not> p x)"
  by (induction xs) auto

lemma position_Some:
  "position p xs = Some i \<Longrightarrow> i < length xs \<and> p (xs ! i) \<and> (\<forall>j < i. \<not> p (xs ! j))"
proof (induction xs arbitrary: i)
  case (Cons x xs)
  then show ?case
    by (auto simp: less_Suc_eq_0_disj split: if_splits)
qed simp

text \<open>\<open>Vec::insert(i, x)\<close> for \<open>i\<close> at most the length.\<close>

definition insert_at :: "nat \<Rightarrow> 'a \<Rightarrow> 'a list \<Rightarrow> 'a list" where
  "insert_at i x xs = take i xs @ x # drop i xs"

lemma insert_at_0 [simp]: "insert_at 0 x xs = x # xs"
  by (simp add: insert_at_def)

lemma insert_at_end: "length xs \<le> i \<Longrightarrow> insert_at i x xs = xs @ [x]"
  by (simp add: insert_at_def)

lemma length_insert_at [simp]: "length (insert_at i x xs) = Suc (length xs)"
  by (simp add: insert_at_def)

lemma set_insert_at [simp]: "set (insert_at i x xs) = insert x (set xs)"
  by (simp add: insert_at_def) (metis Un_insert_right append_take_drop_id list.simps(15) set_append)

text \<open>\<open>Vec::swap_remove(i)\<close>: the last element takes the place of the removed one.\<close>

definition swap_remove :: "nat \<Rightarrow> 'a list \<Rightarrow> 'a list" where
  "swap_remove i xs = butlast (xs[i := last xs])"

lemma mset_swap_remove:
  assumes "i < length xs"
  shows "mset (swap_remove i xs) = mset xs - {#xs ! i#}"
proof -
  let ?ys = "xs[i := last xs]"
  from assms have ne: "?ys \<noteq> []" by auto
  have last: "last ?ys = last xs"
    using assms by (subst last_list_update) auto
  have "mset ?ys = mset (butlast ?ys) + {#last ?ys#}"
    using ne by (metis append_butlast_last_id mset.simps(1,2) mset_append)
  moreover have "mset ?ys = add_mset (last xs) (mset xs - {#xs ! i#})"
    using assms by (rule mset_update)
  ultimately show ?thesis
    by (simp add: swap_remove_def last)
qed

lemma set_swap_remove:
  assumes "distinct xs" and "i < length xs"
  shows "set (swap_remove i xs) = set xs - {xs ! i}"
proof -
  have "set_mset (mset xs - {#xs ! i#}) = set xs - {xs ! i}"
    using assms by (auto simp: in_diff_count distinct_count_atmost_1 split: if_splits dest: in_diffD)
  then show ?thesis
    using assms by (metis mset_swap_remove set_mset_mset)
qed

lemma length_swap_remove: "i < length xs \<Longrightarrow> length (swap_remove i xs) = length xs - 1"
  by (simp add: swap_remove_def)

lemma distinct_swap_remove:
  "distinct xs \<Longrightarrow> i < length xs \<Longrightarrow> distinct (swap_remove i xs)"
  by (rule card_distinct) (simp add: set_swap_remove length_swap_remove distinct_card)

section \<open>Association lists\<close>

lemma update_new: "k \<notin> fst ` set al \<Longrightarrow> AList.update k v al = al @ [(k, v)]"
  by (induction al) auto

lemma length_update:
  "length (AList.update k v al) = length al + (if map_of al k = None then 1 else 0)"
  by (induction al) auto

lemma length_delete:
  "distinct (map fst m) \<Longrightarrow> length m = length (AList.delete f m) + (if map_of m f = None then 0 else 1)"
proof (induction m)
  case (Cons p m)
  show ?case
  proof (cases "fst p = f")
    case True
    with Cons.prems have "AList.delete f m = m" by (intro delete_id) auto
    with True show ?thesis by (cases p) simp
  next
    case False
    with Cons show ?thesis by (cases p) auto
  qed
qed simp

end
