(* ===== verification/Rust_Text.thy ===== *)
theory Rust_Text
  imports Redis_Prelude
begin

text \<open>
  The text functions of the Rust standard library the source uses, on the bytes of a
  string: UTF-8 validation and \<open>String::from_utf8_lossy\<close>, \<open>str::trim\<close>,
  \<open>str::split_whitespace\<close>, the upper-casing functions, and the conversion between integers
  and decimal text (\<open>parse::<i64>\<close>, \<open>parse::<u64>\<close>, \<open>to_string\<close>, \<open>itoa\<close>).
  The lemmas that matter to the components: printing and parsing integers are inverse,
  and a lossy conversion leaves valid UTF-8 as it is and always yields valid UTF-8.
\<close>

section \<open>Bytes\<close>

abbreviation code :: "char \<Rightarrow> nat" where
  "code c \<equiv> of_char c"

definition byte_at :: "nat \<Rightarrow> bytes \<Rightarrow> nat" where
  "byte_at i bs = (if i < length bs then code (bs ! i) else 0)"

section \<open>UTF-8\<close>

text \<open>
  One step of the decoder of \<open>core::str::lossy\<close>: \<open>(True, w)\<close> for a well-formed character of
  width \<open>w\<close> at the front, \<open>(False, k)\<close> for \<open>k\<close> bytes that cannot start one.
\<close>

definition utf8_cont :: "nat \<Rightarrow> bool" where
  "utf8_cont b \<longleftrightarrow> 128 \<le> b \<and> b \<le> 191"

definition utf8_second3 :: "nat \<Rightarrow> nat \<Rightarrow> bool" where
  "utf8_second3 b b1 \<longleftrightarrow>
     b = 224 \<and> 160 \<le> b1 \<and> b1 \<le> 191 \<or> 225 \<le> b \<and> b \<le> 236 \<and> utf8_cont b1
     \<or> b = 237 \<and> 128 \<le> b1 \<and> b1 \<le> 159 \<or> 238 \<le> b \<and> b \<le> 239 \<and> utf8_cont b1"

definition utf8_second4 :: "nat \<Rightarrow> nat \<Rightarrow> bool" where
  "utf8_second4 b b1 \<longleftrightarrow>
     b = 240 \<and> 144 \<le> b1 \<and> b1 \<le> 191 \<or> 241 \<le> b \<and> b \<le> 243 \<and> utf8_cont b1
     \<or> b = 244 \<and> 128 \<le> b1 \<and> b1 \<le> 143"

definition utf8_class :: "nat \<Rightarrow> nat \<Rightarrow> nat \<Rightarrow> nat \<Rightarrow> bool \<times> nat" where
  "utf8_class b b1 b2 b3 =
     (if b < 128 then (True, 1)
      else if 194 \<le> b \<and> b \<le> 223 then if utf8_cont b1 then (True, 2) else (False, 1)
      else if 224 \<le> b \<and> b \<le> 239 then
        if utf8_second3 b b1 then if utf8_cont b2 then (True, 3) else (False, 2) else (False, 1)
      else if 240 \<le> b \<and> b \<le> 244 then
        if utf8_second4 b b1
        then if utf8_cont b2 then if utf8_cont b3 then (True, 4) else (False, 3) else (False, 2)
        else (False, 1)
      else (False, 1))"

definition utf8_step :: "bytes \<Rightarrow> bool \<times> nat" where
  "utf8_step bs = utf8_class (byte_at 0 bs) (byte_at 1 bs) (byte_at 2 bs) (byte_at 3 bs)"

lemma utf8_step_pos [simp]: "0 < snd (utf8_step bs)"
  by (simp add: utf8_step_def utf8_class_def)

text \<open>\<open>std::str::from_utf8(bs).is_ok()\<close>.\<close>

function is_utf8 :: "bytes \<Rightarrow> bool" where
  "is_utf8 [] = True"
| "is_utf8 (c # cs) =
     (fst (utf8_step (c # cs)) \<and> is_utf8 (drop (snd (utf8_step (c # cs))) (c # cs)))"
  by pat_completeness auto
termination
  by (relation "measure length") auto

definition replacement_char :: bytes where
  "replacement_char = [char_of (239::nat), char_of (191::nat), char_of (189::nat)]"

text \<open>\<open>String::from_utf8_lossy\<close>: every malformed sequence becomes U+FFFD.\<close>

function from_utf8_lossy :: "bytes \<Rightarrow> bytes" where
  "from_utf8_lossy [] = []"
| "from_utf8_lossy (c # cs) =
     (if fst (utf8_step (c # cs)) then take (snd (utf8_step (c # cs))) (c # cs)
      else replacement_char) @ from_utf8_lossy (drop (snd (utf8_step (c # cs))) (c # cs))"
  by pat_completeness auto
termination
  by (relation "measure length") auto

declare is_utf8.simps(2) [simp del] from_utf8_lossy.simps(2) [simp del]

lemma is_utf8_ascii_Cons [simp]: "code c < 128 \<Longrightarrow> is_utf8 (c # bs) = is_utf8 bs"
  by (simp add: is_utf8.simps(2) utf8_step_def utf8_class_def byte_at_def)

lemma is_utf8_ascii: "\<forall>c \<in> set bs. code c < 128 \<Longrightarrow> is_utf8 bs"
  by (induction bs) auto

text \<open>What the decoder accepts depends only on the bytes of the character itself.\<close>

lemma utf8_class_width:
  assumes "utf8_class b b1 b2 b3 = (True, k)"
  shows "0 < k" and "k \<le> 4"
    and "1 < k \<Longrightarrow> 128 \<le> b1" and "2 < k \<Longrightarrow> 128 \<le> b2" and "3 < k \<Longrightarrow> 128 \<le> b3"
  using assms
  by (auto simp: utf8_class_def utf8_cont_def utf8_second3_def utf8_second4_def split: if_splits)

lemma utf8_class_local:
  assumes "utf8_class b b1 b2 b3 = (True, k)"
    and "1 < k \<Longrightarrow> c1 = b1" and "2 < k \<Longrightarrow> c2 = b2" and "3 < k \<Longrightarrow> c3 = b3"
  shows "utf8_class b c1 c2 c3 = (True, k)"
  using assms by (auto simp: utf8_class_def split: if_splits)

lemma byte_at_bound: "128 \<le> byte_at i bs \<Longrightarrow> i < length bs"
  by (simp add: byte_at_def split: if_splits)

lemma utf8_step_width:
  assumes "utf8_step bs = (True, k)" and "bs \<noteq> []"
  shows "0 < k" and "k \<le> length bs"
proof -
  note w = utf8_class_width [OF assms(1) [unfolded utf8_step_def]]
  show "0 < k" by (rule w(1))
  have "i < length bs" if "i < k" for i
  proof -
    from that w(2) consider "i = 0" | "i = 1" | "i = 2" | "i = 3" by linarith
    then show ?thesis
      by cases (use that w byte_at_bound assms(2) in auto)
  qed
  then show "k \<le> length bs" by (meson linorder_not_less order_less_irrefl)
qed

lemma utf8_step_append:
  assumes "utf8_step bs = (True, k)" and "bs \<noteq> []"
  shows "utf8_step (take k bs @ cs) = (True, k)"
proof -
  have eq: "byte_at i (take k bs @ cs) = byte_at i bs" if "i < k" for i
    using that utf8_step_width [OF assms] by (simp add: byte_at_def nth_append)
  have "utf8_class (byte_at 0 bs) (byte_at 1 (take k bs @ cs)) (byte_at 2 (take k bs @ cs))
      (byte_at 3 (take k bs @ cs)) = (True, k)"
    by (rule utf8_class_local [OF assms(1) [unfolded utf8_step_def]]) (simp_all only: eq)
  then show ?thesis
    by (simp only: utf8_step_def eq [OF utf8_step_width(1) [OF assms]])
qed

lemma is_utf8_char_append:
  assumes "utf8_step bs = (True, k)" and "bs \<noteq> []"
  shows "is_utf8 (take k bs @ cs) = is_utf8 cs"
proof -
  from utf8_step_width [OF assms] obtain d ds where d: "take k bs = d # ds" "length ds = k - 1"
    by (metis One_nat_def Suc_leI diff_Suc_1 length_Suc_conv length_take list.size(4) min.absorb2
        ordered_cancel_comm_monoid_diff_class.add_diff_inverse plus_1_eq_Suc)
  with utf8_step_append [OF assms, of cs] utf8_step_width(1) [OF assms] show ?thesis
    by (simp add: is_utf8.simps(2) drop_Cons')
qed

lemma is_utf8_replacement [simp]: "is_utf8 (replacement_char @ cs) = is_utf8 cs"
proof -
  have "utf8_step replacement_char = (True, 3)" by code_simp
  from is_utf8_char_append [OF this] show ?thesis by (simp add: replacement_char_def)
qed

lemma from_utf8_lossy_id: "is_utf8 bs \<Longrightarrow> from_utf8_lossy bs = bs"
  by (induction bs rule: from_utf8_lossy.induct) (auto simp: is_utf8.simps(2) from_utf8_lossy.simps(2))

lemma is_utf8_from_utf8_lossy [simp]: "is_utf8 (from_utf8_lossy bs)"
proof (induction bs rule: from_utf8_lossy.induct)
  case (2 c cs)
  let ?step = "utf8_step (c # cs)"
  show ?case
  proof (cases "fst ?step")
    case True
    then have "?step = (True, snd ?step)" by (metis prod.collapse)
    from is_utf8_char_append [OF this] "2.IH" True show ?thesis
      by (simp add: from_utf8_lossy.simps(2))
  next
    case False
    with "2.IH" show ?thesis by (simp add: from_utf8_lossy.simps(2))
  qed
qed simp

lemma from_utf8_lossy_idem [simp]: "from_utf8_lossy (from_utf8_lossy bs) = from_utf8_lossy bs"
  by (simp add: from_utf8_lossy_id)

section \<open>White space and case\<close>

text \<open>
  The width of the Unicode white space character at the front of the bytes, 0 for none:
  U+0009 to U+000D, U+0020, U+0085, U+00A0, U+1680, U+2000 to U+200A, U+2028, U+2029,
  U+202F, U+205F and U+3000.
\<close>

definition ws_width :: "bytes \<Rightarrow> nat" where
  "ws_width bs =
     (let b = byte_at 0 bs; b1 = byte_at 1 bs; b2 = byte_at 2 bs in
      if 9 \<le> b \<and> b \<le> 13 \<or> b = 32 then 1
      else if b = 194 \<and> (b1 = 133 \<or> b1 = 160) then 2
      else if b = 225 \<and> b1 = 154 \<and> b2 = 128
        \<or> b = 226 \<and> b1 = 128 \<and> (128 \<le> b2 \<and> b2 \<le> 138 \<or> b2 = 168 \<or> b2 = 169 \<or> b2 = 175)
        \<or> b = 226 \<and> b1 = 129 \<and> b2 = 159
        \<or> b = 227 \<and> b1 = 128 \<and> b2 = 128 then 3
      else 0)"

text \<open>The same for the character that ends the bytes.\<close>

definition ws_width_end :: "bytes \<Rightarrow> nat" where
  "ws_width_end bs =
     (let n = length bs in
      if ws_width (drop (n - 1) bs) = 1 then 1
      else if ws_width (drop (n - 2) bs) = 2 then 2
      else if ws_width (drop (n - 3) bs) = 3 then 3
      else 0)"

function trim_start :: "bytes \<Rightarrow> bytes" where
  "trim_start bs =
     (if bs \<noteq> [] \<and> 0 < ws_width bs then trim_start (drop (ws_width bs) bs) else bs)"
  by pat_completeness auto
termination
  by (relation "measure length") auto

function trim_end :: "bytes \<Rightarrow> bytes" where
  "trim_end bs =
     (if bs \<noteq> [] \<and> 0 < ws_width_end bs then trim_end (take (length bs - ws_width_end bs) bs)
      else bs)"
  by pat_completeness auto
termination
  by (relation "measure length") auto

declare trim_start.simps [simp del] trim_end.simps [simp del]

definition trim :: "bytes \<Rightarrow> bytes" where
  "trim bs = trim_end (trim_start bs)"

function split_ws :: "bytes \<Rightarrow> bytes \<Rightarrow> bytes list" where
  "split_ws cur [] = (if cur = [] then [] else [cur])"
| "split_ws cur (c # cs) =
     (if 0 < ws_width (c # cs)
      then (if cur = [] then [] else [cur]) @ split_ws [] (drop (ws_width (c # cs)) (c # cs))
      else split_ws (cur @ [c]) cs)"
  by pat_completeness auto
termination
  by (relation "measure (\<lambda>(cur, bs). length bs)") auto

definition split_whitespace :: "bytes \<Rightarrow> bytes list" where
  "split_whitespace bs = split_ws [] bs"

text \<open>\<open>str::split(sep)\<close> for an ASCII separator.\<close>

fun split_on :: "char \<Rightarrow> bytes \<Rightarrow> bytes list" where
  "split_on sep [] = [[]]"
| "split_on sep (c # cs) =
     (if c = sep then [] # split_on sep cs
      else case split_on sep cs of [] \<Rightarrow> [[c]] | w # ws \<Rightarrow> (c # w) # ws)"

fun join :: "bytes \<Rightarrow> bytes list \<Rightarrow> bytes" where
  "join sep [] = []"
| "join sep [x] = x"
| "join sep (x # y # ys) = x @ sep @ join sep (y # ys)"

definition to_ascii_upper :: "char \<Rightarrow> char" where
  "to_ascii_upper c = (if 97 \<le> code c \<and> code c \<le> 122 then char_of (code c - 32) else c)"

definition to_ascii_uppercase :: "bytes \<Rightarrow> bytes" where
  "to_ascii_uppercase bs = map to_ascii_upper bs"

text \<open>
  \<open>str::to_uppercase\<close>. Beside the ASCII letters, exactly ten characters have an upper case made
  of ASCII letters: dotless i, long s, sharp s and the Latin ligatures ff, fi, fl, ffi, ffl,
  long s t, st. Every other character has a non-ASCII upper case; it is kept as it is, which
  compares to an ASCII keyword as its upper case does (unequal).
\<close>

definition special_upper :: "bytes \<Rightarrow> (nat \<times> bytes) option" where
  "special_upper bs =
     (let b = byte_at 0 bs; b1 = byte_at 1 bs; b2 = byte_at 2 bs in
      if b = 196 \<and> b1 = 177 then Some (2, ''I'')
      else if b = 197 \<and> b1 = 191 then Some (2, ''S'')
      else if b = 195 \<and> b1 = 159 then Some (2, ''SS'')
      else if b = 239 \<and> b1 = 172 then
        (if b2 = 128 then Some (3, ''FF'') else if b2 = 129 then Some (3, ''FI'')
         else if b2 = 130 then Some (3, ''FL'') else if b2 = 131 then Some (3, ''FFI'')
         else if b2 = 132 then Some (3, ''FFL'') else if b2 = 133 \<or> b2 = 134 then Some (3, ''ST'')
         else None)
      else None)"

function to_uppercase :: "bytes \<Rightarrow> bytes" where
  "to_uppercase [] = []"
| "to_uppercase (c # cs) =
     (case special_upper (c # cs) of
        Some r \<Rightarrow> snd r @ to_uppercase (drop (fst r - 1) cs)
      | None \<Rightarrow> to_ascii_upper c # to_uppercase cs)"
  by pat_completeness auto
termination
  by (relation "measure length") auto

lemma trim_start_id: "ws_width bs = 0 \<Longrightarrow> trim_start bs = bs"
  by (simp add: trim_start.simps)

lemma trim_end_id: "ws_width_end bs = 0 \<Longrightarrow> trim_end bs = bs"
  by (simp add: trim_end.simps)

lemma ws_width_0: "code c < 128 \<Longrightarrow> code c \<notin> {9..13} \<Longrightarrow> code c \<noteq> 32 \<Longrightarrow> ws_width (c # cs) = 0"
  by (auto simp: ws_width_def byte_at_def)

text \<open>Text that is made of visible ASCII characters is not trimmed.\<close>

lemma trim_visible:
  assumes "\<forall>c \<in> set bs. 33 \<le> code c \<and> code c < 128"
  shows "trim bs = bs"
proof -
  have ws: "ws_width cs = 0" if "set cs \<subseteq> set bs" for cs
  proof (cases cs)
    case Nil
    then show ?thesis by (simp add: ws_width_def byte_at_def)
  next
    case (Cons d ds)
    with that assms show ?thesis by (auto intro!: ws_width_0)
  qed
  have "ws_width_end bs = 0"
    by (simp add: ws_width_end_def Let_def ws set_drop_subset)
  then show ?thesis
    by (simp add: trim_def trim_start_id trim_end_id ws)
qed

section \<open>Integers as decimal text\<close>

definition digit :: "nat \<Rightarrow> char" where
  "digit d = char_of (48 + d)"

fun show_nat :: "nat \<Rightarrow> bytes" where
  "show_nat n = (if n < 10 then [digit n] else show_nat (n div 10) @ [digit (n mod 10)])"

declare show_nat.simps [simp del]

definition show_int :: "int \<Rightarrow> bytes" where
  "show_int n = (if n < 0 then CHR ''-'' # show_nat (nat (- n)) else show_nat (nat n))"

definition digit_val :: "char \<Rightarrow> nat option" where
  "digit_val c = (if 48 \<le> code c \<and> code c \<le> 57 then Some (code c - 48) else None)"

fun digits_val :: "nat \<Rightarrow> bytes \<Rightarrow> nat option" where
  "digits_val acc [] = Some acc"
| "digits_val acc (c # cs) =
     (case digit_val c of None \<Rightarrow> None | Some d \<Rightarrow> digits_val (acc * 10 + d) cs)"

definition parse_nat :: "bytes \<Rightarrow> nat option" where
  "parse_nat bs = (if bs = [] then None else digits_val 0 bs)"

text \<open>\<open>str::parse::<i64>\<close>: an optional sign, then digits, with the value in range.\<close>

definition parse_i64 :: "bytes \<Rightarrow> i64 option" where
  "parse_i64 bs =
     (let v = (case bs of
          [] \<Rightarrow> None
        | c # cs \<Rightarrow>
            if c = CHR ''-'' then map_option (\<lambda>n. - int n) (parse_nat cs)
            else if c = CHR ''+'' then map_option int (parse_nat cs)
            else map_option int (parse_nat bs))
      in case v of None \<Rightarrow> None | Some n \<Rightarrow> if is_i64 n then Some n else None)"

text \<open>\<open>str::parse\<close> at an unsigned type of width \<open>w\<close>.\<close>

definition parse_unsigned :: "nat \<Rightarrow> bytes \<Rightarrow> nat option" where
  "parse_unsigned w bs =
     (let v = (case bs of
          [] \<Rightarrow> None
        | c # cs \<Rightarrow> if c = CHR ''+'' then parse_nat cs else parse_nat bs)
      in case v of None \<Rightarrow> None | Some n \<Rightarrow> if n < 2 ^ w then Some n else None)"

lemma code_digit: "d < 10 \<Longrightarrow> code (digit d) = 48 + d"
  by (simp add: digit_def)

lemma digit_val_digit [simp]: "d < 10 \<Longrightarrow> digit_val (digit d) = Some d"
  by (simp add: digit_val_def code_digit)

lemma digits_val_append:
  "digits_val a (xs @ ys) = (case digits_val a xs of None \<Rightarrow> None | Some b \<Rightarrow> digits_val b ys)"
  by (induction xs arbitrary: a) (auto split: option.split)

lemma show_nat_nonempty [simp]: "show_nat n \<noteq> []"
  by (subst show_nat.simps) simp

lemma show_nat_digits: "c \<in> set (show_nat n) \<Longrightarrow> 48 \<le> code c \<and> code c \<le> 57"
proof (induction n rule: show_nat.induct)
  case (1 n)
  then show ?case
    by (subst (asm) (2) show_nat.simps) (auto simp: code_digit split: if_splits)
qed

lemma digits_val_show_nat: "digits_val 0 (show_nat n) = Some n"
proof (induction n rule: show_nat.induct)
  case (1 n)
  then show ?case
    by (subst show_nat.simps) (auto simp: digits_val_append)
qed

lemma parse_nat_show_nat [simp]: "parse_nat (show_nat n) = Some n"
  by (simp add: parse_nat_def digits_val_show_nat)

lemma hd_show_nat: "show_nat n = c # cs \<Longrightarrow> c \<noteq> CHR ''-'' \<and> c \<noteq> CHR ''+''"
  using show_nat_digits [of c n] by auto

lemma parse_i64_show_int [simp]: "is_i64 n \<Longrightarrow> parse_i64 (show_int n) = Some n"
proof (cases "n < 0")
  case False
  moreover obtain c cs where "show_nat (nat n) = c # cs" by (cases "show_nat (nat n)") simp_all
  ultimately show "is_i64 n \<Longrightarrow> ?thesis"
    using parse_nat_show_nat [of "nat n"] by (simp add: parse_i64_def show_int_def hd_show_nat)
qed (simp add: parse_i64_def show_int_def)

lemma parse_unsigned_show_nat [simp]: "n < 2 ^ w \<Longrightarrow> parse_unsigned w (show_nat n) = Some n"
proof -
  obtain c cs where "show_nat n = c # cs" by (cases "show_nat n") simp_all
  then show "n < 2 ^ w \<Longrightarrow> ?thesis"
    using parse_nat_show_nat [of n] by (simp add: parse_unsigned_def hd_show_nat)
qed

lemma parse_i64_range: "parse_i64 bs = Some n \<Longrightarrow> is_i64 n"
  by (auto simp: parse_i64_def Let_def split: option.splits if_splits)

lemma show_int_visible: "c \<in> set (show_int n) \<Longrightarrow> 33 \<le> code c \<and> code c < 128"
  by (auto simp: show_int_def dest: show_nat_digits split: if_splits)

lemma show_nat_visible: "c \<in> set (show_nat n) \<Longrightarrow> 33 \<le> code c \<and> code c < 128"
  by (auto dest: show_nat_digits)

lemma trim_show_int [simp]: "trim (show_int n) = show_int n"
  by (rule trim_visible) (blast dest: show_int_visible)

lemma trim_show_nat [simp]: "trim (show_nat n) = show_nat n"
  by (rule trim_visible) (blast dest: show_nat_visible)

lemma is_utf8_show_int [simp]: "is_utf8 (show_int n)"
  by (rule is_utf8_ascii) (blast dest: show_int_visible)

lemma is_utf8_show_nat [simp]: "is_utf8 (show_nat n)"
  by (rule is_utf8_ascii) (blast dest: show_nat_visible)

lemma show_int_int: "show_int (int n) = show_nat n"
  by (simp add: show_int_def)

end
