(* ===== verification/Resp_Protocol.thy ===== *)
theory Resp_Protocol
  imports Rust_Text
begin

text \<open>
  The wire protocol of \<open>src/protocol/mod.rs\<close>: frames, the parser and the serialiser. The cursor of
  the parser is the list of bytes not yet read.

  The parser recurses into arrays. Its first argument bounds the nesting: each level has read
  at least one byte of the buffer, so the length of the buffer is enough
  (\<open>parse_value_fuel\<close>), and \<open>parse_frame\<close> passes that length.
\<close>

section \<open>Frames\<close>

datatype frame =
    SimpleString bytes
  | Error bytes
  | Integer i64
  | Bulk "bytes option"
  | Array "frame list option"

definition frame_ok :: frame where
  "frame_ok = SimpleString ''OK''"

definition pong :: frame where
  "pong = SimpleString ''PONG''"

definition null_bulk :: frame where
  "null_bulk = Bulk None"

definition bulk_bytes :: "bytes \<Rightarrow> frame" where
  "bulk_bytes b = Bulk (Some b)"

definition bulk_str :: "bytes \<Rightarrow> frame" where
  "bulk_str s = Bulk (Some s)"

definition array :: "frame list \<Rightarrow> frame" where
  "array items = Array (Some items)"

definition empty_array :: frame where
  "empty_array = Array (Some [])"

section \<open>The parser\<close>

datatype parse_error = Incomplete | Invalid bytes

abbreviation CR :: char where "CR \<equiv> CHR 0x0D"
abbreviation LF :: char where "LF \<equiv> CHR 0x0A"
abbreviation CRLF :: bytes where "CRLF \<equiv> [CR, LF]"

fun read_line :: "bytes \<Rightarrow> (bytes \<times> bytes) option" where
  "read_line (c # d # rest) =
     (if c = CR \<and> d = LF then Some ([], rest)
      else map_option (\<lambda>(line, r). (c # line, r)) (read_line (d # rest)))"
| "read_line _ = None"

definition parse_int :: "bytes \<Rightarrow> i64 option" where
  "parse_int b = (if is_utf8 b then parse_i64 (trim b) else None)"

text \<open>\<open>{:?}\<close> of a byte slice.\<close>

definition debug_bytes :: "bytes \<Rightarrow> bytes" where
  "debug_bytes b = ''['' @ join '', '' (map (\<lambda>c. show_nat (code c)) b) @ '']''"

text \<open>The loop that reads the items of an array with the parser for one value.\<close>

fun parse_items ::
  "(bytes \<Rightarrow> parse_error + frame \<times> bytes) \<Rightarrow> nat \<Rightarrow> bytes \<Rightarrow> parse_error + frame list \<times> bytes" where
  "parse_items p 0 bs = Inr ([], bs)"
| "parse_items p (Suc n) bs =
     (case p bs of
        Inl e \<Rightarrow> Inl e
      | Inr (f, r) \<Rightarrow>
          (case parse_items p n r of Inl e \<Rightarrow> Inl e | Inr (fs, r') \<Rightarrow> Inr (f # fs, r')))"

text \<open>The branches of the parser, by the first byte, which is already read.\<close>

definition parse_text :: "(bytes \<Rightarrow> frame) \<Rightarrow> bytes \<Rightarrow> parse_error + frame \<times> bytes" where
  "parse_text con bs =
     (case read_line bs of
        None \<Rightarrow> Inl Incomplete
      | Some (line, rest) \<Rightarrow> Inr (con (from_utf8_lossy line), rest))"

definition parse_integer :: "bytes \<Rightarrow> parse_error + frame \<times> bytes" where
  "parse_integer bs =
     (case read_line bs of
        None \<Rightarrow> Inl Incomplete
      | Some (line, rest) \<Rightarrow>
          (case parse_int line of
             None \<Rightarrow> Inl (Invalid (''invalid integer: '' @ debug_bytes line))
           | Some n \<Rightarrow> Inr (Integer n, rest)))"

definition parse_bulk :: "bytes \<Rightarrow> parse_error + frame \<times> bytes" where
  "parse_bulk bs =
     (case read_line bs of
        None \<Rightarrow> Inl Incomplete
      | Some (line, rest) \<Rightarrow>
          (case parse_int line of
             None \<Rightarrow> Inl (Invalid (''invalid bulk length: '' @ debug_bytes line))
           | Some len \<Rightarrow>
               if len = - 1 then Inr (Bulk None, rest)
               else if len < 0 then Inl (Invalid (''invalid bulk length: '' @ show_int len))
               else let n = usize_wrap len in
                 if length rest < n + 2 then Inl Incomplete
                 else Inr (Bulk (Some (take n rest)), drop (n + 2) rest)))"

definition parse_array ::
  "(bytes \<Rightarrow> parse_error + frame \<times> bytes) \<Rightarrow> bytes \<Rightarrow> parse_error + frame \<times> bytes" where
  "parse_array p bs =
     (case read_line bs of
        None \<Rightarrow> Inl Incomplete
      | Some (line, rest) \<Rightarrow>
          (case parse_int line of
             None \<Rightarrow> Inl (Invalid (''invalid array count: '' @ debug_bytes line))
           | Some cnt \<Rightarrow>
               if cnt = - 1 then Inr (Array None, rest)
               else if cnt < 0 then Inl (Invalid (''invalid array count: '' @ show_int cnt))
               else
                 (case parse_items p (nat cnt) rest of
                    Inl e \<Rightarrow> Inl e
                  | Inr (items, rest') \<Rightarrow> Inr (Array (Some items), rest'))))"

definition parse_inline :: "bytes \<Rightarrow> parse_error + frame \<times> bytes" where
  "parse_inline bs =
     (case read_line bs of
        None \<Rightarrow> Inl Incomplete
      | Some (line, rest) \<Rightarrow>
          (let s = (if is_utf8 line then line else [])
           in Inr (Array (Some (map (\<lambda>p. Bulk (Some p)) (split_whitespace s))), rest)))"

fun parse_value :: "nat \<Rightarrow> bytes \<Rightarrow> parse_error + frame \<times> bytes" where
  "parse_value 0 bs = Inl Incomplete"
| "parse_value (Suc fuel) [] = Inl Incomplete"
| "parse_value (Suc fuel) (c # bs) =
     (if c = CHR ''+'' then parse_text SimpleString bs
      else if c = CHR ''-'' then parse_text Error bs
      else if c = CHR '':'' then parse_integer bs
      else if c = CHR ''$'' then parse_bulk bs
      else if c = CHR ''*'' then parse_array (parse_value fuel) bs
      else parse_inline (c # bs))"

definition parse_frame :: "bytes \<Rightarrow> bytes + (frame \<times> usize) option" where
  "parse_frame buf =
     (case parse_value (length buf) buf of
        Inr (f, rest) \<Rightarrow> Inr (Some (f, length buf - length rest))
      | Inl Incomplete \<Rightarrow> Inr None
      | Inl (Invalid msg) \<Rightarrow> Inl msg)"

section \<open>The serialiser\<close>

fun write_frame :: "frame \<Rightarrow> bytes" where
  "write_frame (SimpleString s) = ''+'' @ s @ CRLF"
| "write_frame (Error s) = ''-'' @ s @ CRLF"
| "write_frame (Integer n) = '':'' @ show_int n @ CRLF"
| "write_frame (Bulk None) = ''$-1'' @ CRLF"
| "write_frame (Bulk (Some b)) = ''$'' @ show_nat (length b) @ CRLF @ b @ CRLF"
| "write_frame (Array None) = ''*-1'' @ CRLF"
| "write_frame (Array (Some items)) =
     ''*'' @ show_nat (length items) @ CRLF @ concat (map write_frame items)"

definition serialize_frame :: "frame \<Rightarrow> bytes" where
  "serialize_frame f = write_frame f"

text \<open>The capacity a buffer is created with.\<close>

fun capacity_hint :: "frame \<Rightarrow> usize" where
  "capacity_hint (SimpleString s) = length s + 3"
| "capacity_hint (Error s) = length s + 3"
| "capacity_hint (Integer _) = 24"
| "capacity_hint (Bulk None) = 5"
| "capacity_hint (Bulk (Some b)) = length b + 16"
| "capacity_hint (Array None) = 5"
| "capacity_hint (Array (Some v)) = 8 + sum_list (map capacity_hint v)"

definition write_frame_into :: "bytes \<Rightarrow> frame \<Rightarrow> bytes" where
  "write_frame_into buf f = buf @ write_frame f"

text \<open>
  The frames the protocol can carry: no line break inside a one-line text, lengths within the
  range of the length field.
\<close>

definition is_line :: "bytes \<Rightarrow> bool" where
  "is_line s \<longleftrightarrow> is_utf8 s \<and> (\<forall>i < length s - 1. \<not> (s ! i = CR \<and> s ! Suc i = LF))"

fun wf_frame :: "frame \<Rightarrow> bool" where
  "wf_frame (SimpleString s) \<longleftrightarrow> is_line s"
| "wf_frame (Error s) \<longleftrightarrow> is_line s"
| "wf_frame (Integer n) \<longleftrightarrow> is_i64 n"
| "wf_frame (Bulk None) \<longleftrightarrow> True"
| "wf_frame (Bulk (Some b)) \<longleftrightarrow> length b < 2 ^ 63"
| "wf_frame (Array None) \<longleftrightarrow> True"
| "wf_frame (Array (Some items)) \<longleftrightarrow> length items < 2 ^ 63 \<and> list_all wf_frame items"

text \<open>The hint is enough, so that the buffer does not grow, up to these sizes.\<close>

fun modest :: "frame \<Rightarrow> bool" where
  "modest (Integer n) \<longleftrightarrow> is_i64 n"
| "modest (Bulk (Some b)) \<longleftrightarrow> length b < 10 ^ 11"
| "modest (Array (Some items)) \<longleftrightarrow> length items < 10 ^ 5 \<and> list_all modest items"
| "modest _ \<longleftrightarrow> True"

lemma length_show_nat: "n < 10 ^ k \<Longrightarrow> 0 < k \<Longrightarrow> length (show_nat n) \<le> k"
proof (induction n arbitrary: k rule: show_nat.induct)
  case (1 n)
  show ?case
  proof (cases "n < 10")
    case False
    then obtain j where j: "k = Suc j" "0 < j" using "1.prems" by (cases k; cases "k - 1") auto
    then have "n div 10 < 10 ^ j" using "1.prems"(1) by (simp add: div_less_iff_less_mult mult.commute)
    with "1.IH" [OF False] j show ?thesis by (subst show_nat.simps) (use False in simp)
  qed (use "1.prems"(2) in \<open>subst show_nat.simps, simp\<close>)
qed

lemma length_show_int: "is_i64 n \<Longrightarrow> length (show_int n) \<le> 20"
  using length_show_nat [of "nat (- n)" 19] length_show_nat [of "nat n" 20]
  by (cases "n < 0") (simp_all add: show_int_def is_i64_def nat_less_iff)

lemma capacity_hint_enough: "modest f \<Longrightarrow> length (write_frame f) \<le> capacity_hint f"
proof (induction f rule: write_frame.induct)
  case (3 n)
  then show ?case using length_show_int [of n] by simp
next
  case (5 b)
  then show ?case using length_show_nat [of "length b" 11] by simp
next
  case (7 items)
  have "sum_list (map (length \<circ> write_frame) items) \<le> sum_list (map capacity_hint items)"
    using 7 by (intro sum_list_mono) (simp add: list_all_iff)
  then show ?case using 7 length_show_nat [of "length items" 5] by (simp add: length_concat)
qed simp_all

section \<open>Lines\<close>

lemma read_line_append:
  "read_line bs = Some (line, r) \<Longrightarrow> read_line (bs @ more) = Some (line, r @ more)"
  by (induction bs arbitrary: line r rule: read_line.induct) (auto split: if_splits)

lemma read_line_eq: "read_line bs = Some (line, r) \<Longrightarrow> bs = line @ CRLF @ r"
  by (induction bs arbitrary: line r rule: read_line.induct) (auto split: if_splits)

lemma read_line_length: "read_line bs = Some (line, r) \<Longrightarrow> length r + 2 \<le> length bs"
  by (drule read_line_eq) simp

definition no_crlf :: "bytes \<Rightarrow> bool" where
  "no_crlf s \<longleftrightarrow> (\<forall>i < length s - 1. \<not> (s ! i = CR \<and> s ! Suc i = LF))"

lemma no_crlf_Cons:
  "no_crlf (c # d # s) \<longleftrightarrow> \<not> (c = CR \<and> d = LF) \<and> no_crlf (d # s)"
  by (auto simp: no_crlf_def less_Suc_eq_0_disj)

lemma read_line_write: "no_crlf s \<Longrightarrow> read_line (s @ CR # LF # rest) = Some (s, rest)"
proof (induction s)
  case (Cons c s)
  show ?case
  proof (cases s)
    case Nil
    then show ?thesis by simp
  next
    case (Cons d s')
    with \<open>no_crlf (c # s)\<close> Cons.IH show ?thesis by (simp add: no_crlf_Cons)
  qed
qed simp

lemma no_crlf_visible: "(\<And>c. c \<in> set s \<Longrightarrow> 33 \<le> code c \<and> code c < 128) \<Longrightarrow> no_crlf s"
proof -
  assume vis: "\<And>c. c \<in> set s \<Longrightarrow> 33 \<le> code c \<and> code c < 128"
  have "s ! i \<noteq> CR" if "i < length s" for i
    using vis [OF nth_mem [OF that]] by auto
  then show ?thesis by (simp add: no_crlf_def)
qed

lemma no_crlf_show [simp]: "no_crlf (show_int n)" "no_crlf (show_nat k)"
  by (rule no_crlf_visible, erule show_int_visible show_nat_visible)+

lemma is_line_iff: "is_line s \<longleftrightarrow> is_utf8 s \<and> no_crlf s"
  by (simp add: is_line_def no_crlf_def)

lemma parse_int_show [simp]:
  "is_i64 n \<Longrightarrow> parse_int (show_int n) = Some n" "k < 2 ^ 63 \<Longrightarrow> parse_int (show_nat k) = Some (int k)"
proof -
  show "is_i64 n \<Longrightarrow> parse_int (show_int n) = Some n" by (simp add: parse_int_def)
  then show "k < 2 ^ 63 \<Longrightarrow> parse_int (show_nat k) = Some (int k)"
    using parse_i64_show_int [of "int k"] by (simp add: show_int_int is_i64_def parse_int_def)
qed

section \<open>What the parser has read\<close>

text \<open>A parser is \<open>stable\<close> when more bytes behind the buffer change neither a value nor an error.\<close>

definition stable :: "(bytes \<Rightarrow> parse_error + 'a \<times> bytes) \<Rightarrow> bool" where
  "stable p \<longleftrightarrow> (\<forall>bs more.
     (\<forall>x r. p bs = Inr (x, r) \<longrightarrow> p (bs @ more) = Inr (x, r @ more)) \<and>
     (\<forall>e. p bs = Inl (Invalid e) \<longrightarrow> p (bs @ more) = Inl (Invalid e)))"

lemma stable_items:
  assumes p: "stable p"
  shows "stable (parse_items p n)"
proof (induction n)
  case (Suc n)
  show ?case
    unfolding stable_def
  proof (intro allI)
    fix bs more
    show "(\<forall>x r. parse_items p (Suc n) bs = Inr (x, r) \<longrightarrow> parse_items p (Suc n) (bs @ more) = Inr (x, r @ more)) \<and>
     (\<forall>e. parse_items p (Suc n) bs = Inl (Invalid e) \<longrightarrow> parse_items p (Suc n) (bs @ more) = Inl (Invalid e))"
    proof (cases "p bs")
      case (Inl e)
      then show ?thesis using p by (auto simp: stable_def)
    next
      case (Inr a)
      obtain f r where fr: "a = (f, r)" by force
      have "p (bs @ more) = Inr (f, r @ more)" using p Inr fr by (auto simp: stable_def)
      then show ?thesis
        using Inr fr Suc by (auto simp: stable_def split: sum.splits)
    qed
  qed
qed (simp add: stable_def)

lemma stable_text: "stable (parse_text con)"
  by (auto simp: stable_def parse_text_def read_line_append split: option.splits)

lemma stable_integer: "stable parse_integer"
  by (auto simp: stable_def parse_integer_def read_line_append split: option.splits)

lemma stable_bulk: "stable parse_bulk"
  by (auto simp: stable_def parse_bulk_def read_line_append Let_def split: option.splits if_splits)

lemma stable_inline: "stable parse_inline"
  by (auto simp: stable_def parse_inline_def read_line_append Let_def split: option.splits)

lemma stable_array:
  assumes "stable p"
  shows "stable (parse_array p)"
  using stable_items [OF assms]
  by (auto simp: stable_def parse_array_def read_line_append split: option.splits sum.splits if_splits)

lemma stable_value: "stable (parse_value fuel)"
proof (induction fuel)
  case (Suc fuel)
  note branches = stable_text stable_integer stable_bulk stable_array [OF Suc]
  show ?case
    unfolding stable_def
  proof (intro allI)
    fix bs more
    show "(\<forall>x r. parse_value (Suc fuel) bs = Inr (x, r) \<longrightarrow> parse_value (Suc fuel) (bs @ more) = Inr (x, r @ more)) \<and>
     (\<forall>e. parse_value (Suc fuel) bs = Inl (Invalid e) \<longrightarrow> parse_value (Suc fuel) (bs @ more) = Inl (Invalid e))"
    proof (cases bs)
      case (Cons c cs)
      have "(\<forall>x r. parse_inline (c # cs) = Inr (x, r) \<longrightarrow> parse_inline (c # cs @ more) = Inr (x, r @ more)) \<and>
        (\<forall>e. parse_inline (c # cs) = Inl (Invalid e) \<longrightarrow> parse_inline (c # cs @ more) = Inl (Invalid e))"
        using stable_inline [unfolded stable_def, THEN spec, THEN spec, of "c # cs" more] by simp
      then show ?thesis
        using branches unfolding stable_def Cons by simp
    qed simp
  qed
qed (simp add: stable_def)

text \<open>A value takes at least one byte.\<close>

definition consumes :: "(bytes \<Rightarrow> parse_error + 'a \<times> bytes) \<Rightarrow> bool" where
  "consumes p \<longleftrightarrow> (\<forall>bs x r. p bs = Inr (x, r) \<longrightarrow> length r < length bs)"

lemma items_length:
  assumes "consumes p" and "parse_items p n bs = Inr (fs, r)"
  shows "length r + n \<le> length bs"
  using assms(2)
proof (induction n arbitrary: bs fs)
  case (Suc n)
  then obtain f r1 fs' where "p bs = Inr (f, r1)" "parse_items p n r1 = Inr (fs', r)"
    by (auto split: sum.splits)
  with Suc.IH assms(1) show ?case by (fastforce simp: consumes_def)
qed simp

lemma consumes_value: "consumes (parse_value fuel)"
proof (induction fuel)
  case (Suc fuel)
  show ?case
    unfolding consumes_def
  proof (intro allI impI)
    fix bs x r
    assume ok: "parse_value (Suc fuel) bs = Inr (x, r)"
    show "length r < length bs"
    proof (cases bs)
      case (Cons c cs)
      have arr: "parse_array (parse_value fuel) cs = Inr (x, r) \<Longrightarrow> length r < length cs"
        using items_length [OF Suc] read_line_length [of cs]
        by (fastforce simp: parse_array_def split: option.splits sum.splits if_splits)
      show ?thesis
        using ok Cons read_line_length [of cs] read_line_length [of "c # cs"] arr
        by (fastforce simp: parse_text_def parse_integer_def parse_bulk_def parse_inline_def Let_def
            split: option.splits if_splits)
    qed (use ok in simp)
  qed
qed (simp add: consumes_def)

text \<open>The bound on the nesting is never reached when it is at least the number of bytes.\<close>

lemma items_cong:
  assumes "\<And>bs. length bs \<le> N \<Longrightarrow> p bs = q bs" and "consumes p" and "length bs \<le> N"
  shows "parse_items p n bs = parse_items q n bs"
  using assms(3)
proof (induction n arbitrary: bs)
  case (Suc n)
  have eq: "q bs = p bs" using assms(1) [OF Suc.prems] by simp
  show ?case
  proof (cases "p bs")
    case (Inr a)
    obtain f r where fr: "a = (f, r)" by force
    with Inr assms(2) Suc.prems have "length r \<le> N" by (fastforce simp: consumes_def)
    from Suc.IH [OF this] Inr fr eq show ?thesis by simp
  qed (simp add: eq)
qed simp

lemma parse_value_fuel:
  "length bs \<le> m \<Longrightarrow> length bs \<le> n \<Longrightarrow> parse_value m bs = parse_value n bs"
proof (induction m arbitrary: n bs)
  case (Suc m)
  show ?case
  proof (cases bs)
    case Nil
    then show ?thesis by (cases n) auto
  next
    case (Cons c cs)
    with Suc.prems obtain k where k: "n = Suc k" by (cases n) auto
    have agree: "parse_value m b = parse_value k b" if "length b \<le> length cs" for b
      using that Suc.prems k Cons by (intro Suc.IH) auto
    have "parse_items (parse_value m) cnt rest = parse_items (parse_value k) cnt rest"
      if "length rest \<le> length cs" for cnt rest
      using agree consumes_value that by (rule items_cong)
    then have "parse_array (parse_value m) cs = parse_array (parse_value k) cs"
      using read_line_length [of cs]
      by (auto simp: parse_array_def split: option.splits)
    with Cons k show ?thesis by simp
  qed
next
  case 0
  then show ?case by (cases n) auto
qed

section \<open>Round trip\<close>

lemma write_frame_pos: "write_frame f \<noteq> []"
  by (cases f rule: write_frame.cases) auto

lemma parse_items_write:
  assumes "\<And>f rest. f \<in> set items \<Longrightarrow> p (write_frame f @ rest) = Inr (f, rest)"
  shows "parse_items p (length items) (concat (map write_frame items) @ rest) = Inr (items, rest)"
  using assms by (induction items) auto

lemma length_item:
  assumes "f \<in> set items"
  shows "length (write_frame f) \<le> length (concat (map write_frame items))"
  using assms by (induction items) auto

lemma read_line_neg1: "read_line (CHR ''-'' # CHR ''1'' # CR # LF # rest) = Some (''-1'', rest)"
  by simp

lemma parse_int_neg1: "parse_int ''-1'' = Some (- 1)"
  by code_simp

lemma parse_write:
  "wf_frame f \<Longrightarrow> length (write_frame f) \<le> fuel \<Longrightarrow> parse_value fuel (write_frame f @ rest) = Inr (f, rest)"
proof (induction f arbitrary: fuel rest rule: write_frame.induct)
  case (1 s)
  then show ?case
    by (cases fuel) (auto simp: parse_text_def read_line_write is_line_iff from_utf8_lossy_id)
next
  case (2 s)
  then show ?case
    by (cases fuel) (auto simp: parse_text_def read_line_write is_line_iff from_utf8_lossy_id)
next
  case (3 n)
  then show ?case
    by (cases fuel) (auto simp: parse_integer_def read_line_write)
next
  case 4
  then show ?case
    by (cases fuel) (auto simp: parse_bulk_def parse_int_neg1 simp del: read_line.simps
        simp: read_line_neg1)
next
  case (5 b)
  then show ?case
    by (cases fuel) (auto simp: parse_bulk_def read_line_write usize_wrap_nonneg)
next
  case 6
  then show ?case
    by (cases fuel) (auto simp: parse_array_def parse_int_neg1 simp del: read_line.simps
        simp: read_line_neg1)
next
  case (7 items)
  then obtain k where k: "fuel = Suc k" by (cases fuel) auto
  have "parse_items (parse_value k) (length items) (concat (map write_frame items) @ rest) = Inr (items, rest)"
  proof (rule parse_items_write)
    fix f rest
    assume f: "f \<in> set items"
    then have "length (write_frame f) \<le> k"
      using length_item [OF f] 7 k by simp
    then show "parse_value k (write_frame f @ rest) = Inr (f, rest)"
      using 7 f by (auto simp: list_all_iff)
  qed
  with 7 k show ?case
    by (simp add: parse_array_def read_line_write)
qed

lemma parse_frame_write:
  assumes "wf_frame f"
  shows "parse_frame (write_frame f @ rest) = Inr (Some (f, length (write_frame f)))"
proof -
  have "parse_value (length (write_frame f @ rest)) (write_frame f @ rest) = Inr (f, rest)"
    using assms by (intro parse_write) auto
  then show ?thesis by (simp add: parse_frame_def)
qed

lemma parse_frame_value:
  assumes "length buf \<le> n"
  shows "parse_frame buf = (case parse_value n buf of
        Inr (f, rest) \<Rightarrow> Inr (Some (f, length buf - length rest))
      | Inl Incomplete \<Rightarrow> Inr None
      | Inl (Invalid msg) \<Rightarrow> Inl msg)"
  using parse_value_fuel [of buf n "length buf"] assms by (simp add: parse_frame_def)

text \<open>A part of a frame is never mistaken for a frame or for an error.\<close>

lemma parse_frame_prefix:
  assumes wf: "wf_frame f" and split: "write_frame f = p @ q" and q: "q \<noteq> []"
  shows "parse_frame p = Inr None"
proof -
  let ?n = "length (write_frame f)"
  have whole: "parse_value ?n (p @ q) = Inr (f, [])"
    using parse_write [OF wf, of ?n "[]"] split by simp
  have "parse_value ?n p = Inl Incomplete"
  proof (cases "parse_value ?n p")
    case (Inl e)
    then show ?thesis
      using whole stable_value [of ?n] by (cases e) (auto simp: stable_def)
  next
    case (Inr a)
    obtain g r where "a = (g, r)" by force
    with Inr have "parse_value ?n (p @ q) = Inr (g, r @ q)"
      using stable_value [of ?n] by (auto simp: stable_def)
    with whole q show ?thesis by simp
  qed
  then show ?thesis using split by (simp add: parse_frame_value [of p ?n])
qed

lemma parse_frame_bounds:
  assumes "parse_frame buf = Inr (Some (f, n))"
  shows "0 < n" "n \<le> length buf"
  using assms consumes_value [of "length buf"]
  by (fastforce simp: parse_frame_def consumes_def split: sum.splits parse_error.splits)+

lemma parse_frame_more:
  assumes "parse_frame buf = Inr (Some (f, n))"
  shows "parse_frame (buf @ more) = Inr (Some (f, n))"
proof -
  let ?m = "length (buf @ more)"
  obtain r where r: "parse_value (length buf) buf = Inr (f, r)" "n = length buf - length r"
    using assms by (auto simp: parse_frame_def split: sum.splits parse_error.splits)
  have "parse_value ?m buf = Inr (f, r)"
    using r(1) parse_value_fuel [of buf ?m "length buf"] by simp
  then have "parse_value ?m (buf @ more) = Inr (f, r @ more)"
    using stable_value [of ?m] by (simp only: stable_def)
  then show ?thesis using r(2) by (simp add: parse_frame_def)
qed

section \<open>Streams of frames\<close>

text \<open>
  What the readers of frames rely on (the append-only file, replication, the connections):
  an encoding whose frames can be read one after another from a buffer.
\<close>

inductive stream :: "(bytes \<Rightarrow> 'e + ('f \<times> nat) option) \<Rightarrow> bytes \<Rightarrow> 'f list \<Rightarrow> bytes \<Rightarrow> bool"
  for dec where
  stop: "dec b = Inr None \<Longrightarrow> stream dec b [] b"
| step: "dec b = Inr (Some (f, n)) \<Longrightarrow> stream dec (drop n b) fs r \<Longrightarrow> stream dec b (f # fs) r"

inductive_cases stream_NilE: "stream dec b [] r"
inductive_cases stream_ConsE: "stream dec b (f # fs) r"

locale codec =
  fixes enc :: "'f \<Rightarrow> bytes"
    and dec :: "bytes \<Rightarrow> 'e + ('f \<times> nat) option"
    and ok :: "'f \<Rightarrow> bool"
  assumes dec_enc: "ok f \<Longrightarrow> dec (enc f @ rest) = Inr (Some (f, length (enc f)))"
    and dec_prefix: "ok f \<Longrightarrow> enc f = p @ q \<Longrightarrow> q \<noteq> [] \<Longrightarrow> dec p = Inr None"
    and dec_empty: "dec [] = Inr None"
begin

text \<open>Whole frames come back in order; whatever cannot start a frame yet is left over.\<close>

lemma stream_enc:
  assumes "\<forall>f \<in> set fs. ok f" and "dec tail = Inr None"
  shows "stream dec (concat (map enc fs) @ tail) fs tail"
  using assms(1)
proof (induction fs)
  case Nil
  then show ?case by (simp add: stop assms(2))
next
  case (Cons f fs)
  then have "dec (concat (map enc (f # fs)) @ tail) = Inr (Some (f, length (enc f)))"
    by (simp add: dec_enc)
  then show ?case by (rule step) (use Cons in simp)
qed

text \<open>A stream cut anywhere yields exactly the frames that are complete.\<close>

lemma stream_cut:
  assumes "\<forall>f \<in> set fs. ok f" and "concat (map enc fs) = p @ q"
  shows "\<exists>k r. k \<le> length fs \<and> stream dec p (take k fs) r \<and> p = concat (map enc (take k fs)) @ r \<and>
    (q \<noteq> [] \<longrightarrow> k < length fs)"
  using assms
proof (induction fs arbitrary: p)
  case Nil
  then show ?case by (auto intro!: exI [of _ "0 :: nat"] exI [of _ "[]"] stop dec_empty)
next
  case (Cons f fs)
  show ?case
  proof (cases "length (enc f) \<le> length p")
    case True
    have "take (length (enc f)) (p @ q) = enc f"
      using Cons.prems(2) [symmetric] by simp
    with True obtain p' where p': "p = enc f @ p'"
      by (metis append_take_drop_id take_append diff_is_0_eq take_0 append_Nil2)
    with Cons.prems have "concat (map enc fs) = p' @ q" by simp
    with Cons obtain k r where k: "k \<le> length fs" "stream dec p' (take k fs) r"
      "p' = concat (map enc (take k fs)) @ r" "q \<noteq> [] \<longrightarrow> k < length fs"
      by auto
    have "stream dec p (f # take k fs) r"
      using Cons.prems(1) k(2) p' by (intro step [where n = "length (enc f)"]) (auto simp: dec_enc)
    with k p' show ?thesis by (intro exI [of _ "Suc k"] exI [of _ r]) simp
  next
    case False
    have "take (length p) (enc f @ concat (map enc fs)) = p"
      using Cons.prems(2) by simp
    with False have "p = take (length p) (enc f)" by simp
    then have "enc f = p @ drop (length p) (enc f)"
      by (metis append_take_drop_id)
    then have "dec p = Inr None"
      using Cons.prems(1) False by (intro dec_prefix [of f p "drop (length p) (enc f)"]) auto
    then show ?thesis by (intro exI [of _ 0] exI [of _ p]) (auto intro: stop)
  qed
qed

end

interpretation resp: codec write_frame parse_frame wf_frame
  by unfold_locales (auto simp: parse_frame_write parse_frame_prefix, simp add: parse_frame_def)

text \<open>The loop over a buffer: frames until the rest is incomplete or invalid.\<close>

function frames_of :: "bytes \<Rightarrow> frame list" where
  "frames_of buf =
     (case parse_frame buf of
        Inr (Some (f, consumed)) \<Rightarrow> f # frames_of (drop consumed buf)
      | Inr None \<Rightarrow> []
      | Inl e \<Rightarrow> [])"
  by pat_completeness auto
termination
proof (relation "measure length")
  fix buf x f n xx
  show "parse_frame buf = Inr x \<Longrightarrow> x = Some xx \<Longrightarrow> (f, n) = xx \<Longrightarrow> (drop n buf, buf) \<in> measure length"
    using parse_frame_bounds [of buf f n] by (auto simp: diff_less)
qed simp

declare frames_of.simps [simp del]

lemma frames_of_stream: "stream parse_frame buf fs r \<Longrightarrow> frames_of buf = fs"
  by (induction rule: stream.induct) (simp_all add: frames_of.simps)

end
