(* ===== verification/Adt_Interfaces.thy ===== *)
theory Adt_Interfaces
  imports Redis_Prelude
begin

text \<open>
  The interfaces of the value types, as the store and the commands use them: a sequence
  with two ends (lists), a map (hashes) and a set (sets). Each is a locale whose laws relate
  the operations to the abstract value; the lemmas on repeated operations are proved here
  once, and the theories of the encodings interpret the locales on the code's two-encoding
  definitions.
\<close>

section \<open>Index ranges\<close>

lemma nths_interval: "nths xs {i. a \<le> i \<and> i < b} = drop a (take b xs)"
proof (induction xs arbitrary: a b)
  case (Cons x xs)
  show ?case
  proof (cases b)
    case 0
    then show ?thesis by simp
  next
    case (Suc b')
    have "{j. a \<le> Suc j \<and> Suc j < Suc b'} = {j. a - 1 \<le> j \<and> j < b'}" by auto
    with Suc Cons.IH [of "a - 1" b'] show ?thesis
      by (cases a) (auto simp: nths_Cons)
  qed
qed simp

text \<open>
  What Redis means by the elements from \<open>start\<close> to \<open>stop\<close>, both inclusive, where a negative
  index counts from the end: the elements whose position lies between the two.
\<close>

definition abs_index :: "nat \<Rightarrow> int \<Rightarrow> int" where
  "abs_index n i = (if i < 0 then int n + i else i)"

definition redis_range :: "int \<Rightarrow> int \<Rightarrow> 'a list \<Rightarrow> 'a list" where
  "redis_range start stop xs =
     nths xs {i. abs_index (length xs) start \<le> int i \<and> int i \<le> abs_index (length xs) stop}"

lemma redis_range_slice:
  "redis_range start stop xs =
     drop (nat (abs_index (length xs) start)) (take (nat (abs_index (length xs) stop + 1)) xs)"
proof -
  let ?a = "abs_index (length xs) start" and ?b = "abs_index (length xs) stop"
  have "{i. ?a \<le> int i \<and> int i \<le> ?b} = {i. nat ?a \<le> i \<and> i < nat (?b + 1)}"
    by auto
  then show ?thesis by (simp add: redis_range_def nths_interval)
qed

lemma redis_range_all [simp]: "redis_range 0 (- 1) xs = xs"
  by (simp add: redis_range_slice abs_index_def)

section \<open>Sequences with two ends\<close>

text \<open>The bounded pop loop: pop until \<open>n\<close> elements are out or the sequence is empty.\<close>

fun pop_n :: "('q \<Rightarrow> 'a option \<times> 'q) \<Rightarrow> nat \<Rightarrow> 'q \<Rightarrow> 'a list \<times> 'q" where
  "pop_n pop 0 q = ([], q)"
| "pop_n pop (Suc n) q =
     (case pop q of
        (Some x, q') \<Rightarrow> (case pop_n pop n q' of (out, q'') \<Rightarrow> (x # out, q''))
      | (None, q') \<Rightarrow> ([], q'))"

text \<open>
  A sequence that can be taken from at both ends, under an invariant of its representation.
\<close>

locale pop_ends =
  fixes seq :: "'q \<Rightarrow> 'a list"
    and inv :: "'q \<Rightarrow> bool"
    and popf :: "'q \<Rightarrow> 'a option \<times> 'q"
    and popb :: "'q \<Rightarrow> 'a option \<times> 'q"
  assumes popf_empty: "inv q \<Longrightarrow> seq q = [] \<Longrightarrow> popf q = (None, q)"
    and popf_some: "inv q \<Longrightarrow> seq q = x # xs \<Longrightarrow>
      fst (popf q) = Some x \<and> seq (snd (popf q)) = xs \<and> inv (snd (popf q))"
    and popb_empty: "inv q \<Longrightarrow> seq q = [] \<Longrightarrow> popb q = (None, q)"
    and popb_some: "inv q \<Longrightarrow> seq q = xs @ [x] \<Longrightarrow>
      fst (popb q) = Some x \<and> seq (snd (popb q)) = xs \<and> inv (snd (popb q))"
begin

lemma popf_n:
  "inv q \<Longrightarrow> fst (pop_n popf n q) = take n (seq q) \<and>
     seq (snd (pop_n popf n q)) = drop n (seq q) \<and> inv (snd (pop_n popf n q))"
proof (induction n arbitrary: q)
  case (Suc n)
  show ?case
  proof (cases "seq q")
    case Nil
    with Suc.prems show ?thesis by (simp add: popf_empty)
  next
    case (Cons x xs)
    with popf_some [OF Suc.prems Cons] Suc.IH [of "snd (popf q)"] show ?thesis
      by (cases "popf q") (auto split: prod.splits)
  qed
qed simp

lemma popb_n:
  "inv q \<Longrightarrow> fst (pop_n popb n q) = take n (rev (seq q)) \<and>
     seq (snd (pop_n popb n q)) = take (length (seq q) - n) (seq q) \<and> inv (snd (pop_n popb n q))"
proof (induction n arbitrary: q)
  case (Suc n)
  show ?case
  proof (cases "seq q" rule: rev_cases)
    case Nil
    with Suc.prems show ?thesis by (simp add: popb_empty)
  next
    case (snoc xs x)
    with popb_some [OF Suc.prems snoc] Suc.IH [of "snd (popb q)"] show ?thesis
      by (cases "popb q") (auto split: prod.splits)
  qed
qed simp

end

text \<open>A sequence that also grows at both ends.\<close>

locale deque = pop_ends seq inv popf popb
  for seq :: "'q \<Rightarrow> 'a list" and inv popf popb +
  fixes emp :: 'q
    and pushf :: "'a \<Rightarrow> 'q \<Rightarrow> 'q"
    and pushb :: "'a \<Rightarrow> 'q \<Rightarrow> 'q"
  assumes seq_emp: "seq emp = []"
    and inv_emp: "inv emp"
    and seq_pushf: "inv q \<Longrightarrow> seq (pushf x q) = x # seq q"
    and inv_pushf: "inv q \<Longrightarrow> inv (pushf x q)"
    and seq_pushb: "inv q \<Longrightarrow> seq (pushb x q) = seq q @ [x]"
    and inv_pushb: "inv q \<Longrightarrow> inv (pushb x q)"
begin

lemma seq_pushf_all: "inv q \<Longrightarrow> seq (fold pushf xs q) = rev xs @ seq q \<and> inv (fold pushf xs q)"
  by (induction xs arbitrary: q) (auto simp: seq_pushf inv_pushf)

lemma seq_pushb_all: "inv q \<Longrightarrow> seq (fold pushb xs q) = seq q @ xs \<and> inv (fold pushb xs q)"
  by (induction xs arbitrary: q) (auto simp: seq_pushb inv_pushb)

text \<open>First in, first out across the two ends; last in, first out at one end.\<close>

lemma fifo: "fst (pop_n popf (length xs) (fold pushb xs emp)) = xs"
  using popf_n [of "fold pushb xs emp" "length xs"] by (simp add: seq_pushb_all seq_emp inv_emp)

lemma lifo: "fst (pop_n popf (length xs) (fold pushf xs emp)) = rev xs"
  using popf_n [of "fold pushf xs emp" "length xs"] by (simp add: seq_pushf_all seq_emp inv_emp)

end

section \<open>Maps\<close>

locale map_adt =
  fixes lookup :: "'m \<Rightarrow> 'k \<Rightarrow> 'v option"
    and emp :: 'm
    and upd :: "'k \<Rightarrow> 'v \<Rightarrow> 'm \<Rightarrow> 'm"
    and inv :: "'m \<Rightarrow> bool"
  assumes lookup_emp: "lookup emp = Map.empty"
    and lookup_upd: "inv m \<Longrightarrow> lookup (upd k v m) = (lookup m)(k \<mapsto> v)"
    and inv_emp: "inv emp"
    and inv_upd: "inv m \<Longrightarrow> inv (upd k v m)"
begin

lemma inv_upd_all: "inv m \<Longrightarrow> inv (fold (\<lambda>(k, v). upd k v) kvs m)"
  by (induction kvs arbitrary: m) (auto simp: inv_upd)

lemma lookup_upd_all: "inv m \<Longrightarrow> lookup (fold (\<lambda>(k, v). upd k v) kvs m) = lookup m ++ map_of (rev kvs)"
proof (induction kvs arbitrary: m)
  case (Cons kv kvs)
  then show ?case
    by (cases kv) (auto simp: inv_upd lookup_upd map_add_def fun_eq_iff split: option.splits)
qed simp

text \<open>Rebuilding a map from its own pairs, written one by one to an empty map.\<close>

lemma rebuild:
  assumes "distinct (map fst kvs)"
  shows "lookup (fold (\<lambda>(k, v). upd k v) kvs emp) = map_of kvs"
proof -
  have "map_of (rev kvs) = map_of kvs"
    using assms by (intro map_of_inject_set [THEN iffD2]) (auto simp: rev_map [symmetric])
  then show ?thesis by (simp add: lookup_upd_all inv_emp lookup_emp)
qed

end

section \<open>Sets\<close>

locale set_adt =
  fixes elems :: "'s \<Rightarrow> 'a set"
    and emp :: 's
    and ins :: "'a \<Rightarrow> 's \<Rightarrow> 's"
    and inv :: "'s \<Rightarrow> bool"
  assumes elems_emp: "elems emp = {}"
    and elems_ins: "inv s \<Longrightarrow> elems (ins x s) = insert x (elems s)"
    and inv_emp: "inv emp"
    and inv_ins: "inv s \<Longrightarrow> inv (ins x s)"
begin

lemma inv_ins_all: "inv s \<Longrightarrow> inv (fold ins xs s)"
  by (induction xs arbitrary: s) (auto simp: inv_ins)

lemma elems_ins_all: "inv s \<Longrightarrow> elems (fold ins xs s) = elems s \<union> set xs"
  by (induction xs arbitrary: s) (auto simp: inv_ins elems_ins)

lemma rebuild: "elems (fold ins xs emp) = set xs"
  by (simp add: elems_ins_all inv_emp elems_emp)

end

end
