(* ===== verification/Redis_List.thy ===== *)
theory Redis_List
  imports Adt_Interfaces
begin

text \<open>
  The list value of \<open>src/storage/list.rs\<close>: a \<open>Vec\<close> for small lists and a \<open>VecDeque\<close> after a
  threshold is exceeded. Both hold a sequence; \<open>to_vec\<close> is that sequence and the abstract
  value. Every operation is shown to act on it as the Redis command says, whatever the
  encoding. The encoding invariant (\<open>Small\<close> only within the thresholds) is kept by the
  operations that insert or remove elements; \<open>set_index\<close>, \<open>lrem\<close> and \<open>ltrim\<close> do not keep it.
\<close>

section \<open>Definitions\<close>

definition MAX_LISTPACK_ENTRIES :: usize where
  "MAX_LISTPACK_ENTRIES = 128"

definition MAX_ELEMENT_BYTES :: usize where
  "MAX_ELEMENT_BYTES = 64"

datatype rlist = LSmall "bytes list" | LLarge "bytes list"

definition list_new :: rlist where
  "list_new = LSmall []"

fun list_len :: "rlist \<Rightarrow> usize" where
  "list_len (LSmall v) = length v"
| "list_len (LLarge d) = length d"

definition list_is_empty :: "rlist \<Rightarrow> bool" where
  "list_is_empty l \<longleftrightarrow> list_len l = 0"

fun list_needs_promote :: "rlist \<Rightarrow> bytes \<Rightarrow> bool" where
  "list_needs_promote (LSmall v) x \<longleftrightarrow> length v \<ge> MAX_LISTPACK_ENTRIES \<or> length x > MAX_ELEMENT_BYTES"
| "list_needs_promote (LLarge d) x \<longleftrightarrow> False"

fun list_promote :: "rlist \<Rightarrow> rlist" where
  "list_promote (LSmall v) = LLarge v"
| "list_promote (LLarge d) = LLarge d"

definition list_prepare :: "bytes \<Rightarrow> rlist \<Rightarrow> rlist" where
  "list_prepare x l = (if list_needs_promote l x then list_promote l else l)"

definition push_front :: "bytes \<Rightarrow> rlist \<Rightarrow> rlist" where
  "push_front x l = (case list_prepare x l of LSmall v \<Rightarrow> LSmall (insert_at 0 x v) | LLarge d \<Rightarrow> LLarge (x # d))"

definition push_back :: "bytes \<Rightarrow> rlist \<Rightarrow> rlist" where
  "push_back x l = (case list_prepare x l of LSmall v \<Rightarrow> LSmall (v @ [x]) | LLarge d \<Rightarrow> LLarge (d @ [x]))"

fun pop_front :: "rlist \<Rightarrow> bytes option \<times> rlist" where
  "pop_front (LSmall v) = (if v \<noteq> [] then (Some (hd v), LSmall (tl v)) else (None, LSmall v))"
| "pop_front (LLarge d) = (case d of [] \<Rightarrow> (None, LLarge []) | x # xs \<Rightarrow> (Some x, LLarge xs))"

fun pop_back :: "rlist \<Rightarrow> bytes option \<times> rlist" where
  "pop_back (LSmall v) = (if v = [] then (None, LSmall v) else (Some (last v), LSmall (butlast v)))"
| "pop_back (LLarge d) = (if d = [] then (None, LLarge d) else (Some (last d), LLarge (butlast d)))"

definition pop_front_n :: "usize \<Rightarrow> rlist \<Rightarrow> bytes list \<times> rlist" where
  "pop_front_n n l = pop_n pop_front n l"

definition pop_back_n :: "usize \<Rightarrow> rlist \<Rightarrow> bytes list \<times> rlist" where
  "pop_back_n n l = pop_n pop_back n l"

fun list_get :: "rlist \<Rightarrow> usize \<Rightarrow> bytes option" where
  "list_get (LSmall v) i = (if i < length v then Some (v ! i) else None)"
| "list_get (LLarge d) i = (if i < length d then Some (d ! i) else None)"

fun set_index :: "usize \<Rightarrow> bytes \<Rightarrow> rlist \<Rightarrow> bool \<times> rlist" where
  "set_index i x (LSmall v) = (if i < length v then (True, LSmall (v[i := x])) else (False, LSmall v))"
| "set_index i x (LLarge d) = (if i < length d then (True, LLarge (d[i := x])) else (False, LLarge d))"

fun list_range :: "rlist \<Rightarrow> usize \<Rightarrow> usize \<Rightarrow> bytes list" where
  "list_range l start end' =
     (let e = min end' (list_len l) in
      if start \<ge> e then []
      else case l of LSmall v \<Rightarrow> take (e - start) (drop start v) | LLarge d \<Rightarrow> take (e - start) (drop start d))"

fun list_position :: "rlist \<Rightarrow> bytes \<Rightarrow> usize option" where
  "list_position (LSmall v) x = position (\<lambda>b. b = x) v"
| "list_position (LLarge d) x = position (\<lambda>b. b = x) d"

definition insert_before :: "bytes \<Rightarrow> bytes \<Rightarrow> rlist \<Rightarrow> i64 \<times> rlist" where
  "insert_before pivot x l =
     (case list_position l pivot of
        None \<Rightarrow> (- 1, l)
      | Some pos \<Rightarrow>
          (let l' = (case list_prepare x l of
               LSmall v \<Rightarrow> LSmall (insert_at pos x v)
             | LLarge d \<Rightarrow> LLarge (insert_at pos x d))
           in (int (list_len l'), l')))"

definition insert_after :: "bytes \<Rightarrow> bytes \<Rightarrow> rlist \<Rightarrow> i64 \<times> rlist" where
  "insert_after pivot x l =
     (case list_position l pivot of
        None \<Rightarrow> (- 1, l)
      | Some pos \<Rightarrow>
          (let at = pos + 1;
               l' = (case list_prepare x l of
                 LSmall v \<Rightarrow> (if at \<ge> length v then LSmall (v @ [x]) else LSmall (insert_at at x v))
               | LLarge d \<Rightarrow> LLarge (insert_at at x d))
           in (int (list_len l'), l')))"

fun to_vec :: "rlist \<Rightarrow> bytes list" where
  "to_vec (LSmall v) = v"
| "to_vec (LLarge d) = d"

text \<open>The filter closure of \<open>lrem\<close>, with the counter it captures.\<close>

fun lrem_filter :: "usize \<Rightarrow> bytes \<Rightarrow> usize \<Rightarrow> bytes list \<Rightarrow> bytes list \<times> usize" where
  "lrem_filter limit x removed [] = ([], removed)"
| "lrem_filter limit x removed (b # bs) =
     (if removed < limit \<and> b = x then lrem_filter limit x (removed + 1) bs
      else case lrem_filter limit x removed bs of (kept, r) \<Rightarrow> (b # kept, r))"

definition lrem :: "i64 \<Rightarrow> bytes \<Rightarrow> rlist \<Rightarrow> usize \<times> rlist" where
  "lrem cnt x l =
     (let items = to_vec l in
      if cnt > 0 then
        (case lrem_filter (usize_wrap cnt) x 0 items of (kept, r) \<Rightarrow> (r, LSmall kept))
      else if cnt < 0 then
        (case lrem_filter (usize_wrap (i64_wrap (- cnt))) x 0 (rev items) of
           (kept, r) \<Rightarrow> (r, LSmall (rev kept)))
      else (length (filter (\<lambda>b. b = x) items), LSmall (filter (\<lambda>b. b \<noteq> x) items)))"

definition ltrim :: "i64 \<Rightarrow> i64 \<Rightarrow> rlist \<Rightarrow> rlist" where
  "ltrim start stop l =
     (let len = int (list_len l);
          s = usize_wrap (max (if start < 0 then i64_wrap (len + start) else start) 0);
          e = usize_wrap (max (min (if stop < 0 then i64_wrap (len + stop) else stop) (len - 1)) (- 1))
      in if s > e \<or> len = 0 then LSmall []
         else LSmall (list_range l s (usize_wrap (int e + 1))))"

text \<open>What the comment of the enum promises of the encoding.\<close>

fun rlist_ok :: "rlist \<Rightarrow> bool" where
  "rlist_ok (LSmall v) \<longleftrightarrow> length v \<le> MAX_LISTPACK_ENTRIES \<and> (\<forall>b \<in> set v. length b \<le> MAX_ELEMENT_BYTES)"
| "rlist_ok (LLarge d) \<longleftrightarrow> True"

section \<open>The sequence held\<close>

lemma to_vec_new [seq_simps, simp]: "to_vec list_new = []"
  by (simp add: list_new_def)

lemma list_len_to_vec [seq_simps, simp]: "list_len l = length (to_vec l)"
  by (cases l) auto

lemma list_is_empty_iff [seq_simps]: "list_is_empty l \<longleftrightarrow> to_vec l = []"
  by (simp add: list_is_empty_def)

lemma to_vec_promote [simp]: "to_vec (list_promote l) = to_vec l"
  by (cases l) auto

lemma to_vec_prepare [simp]: "to_vec (list_prepare x l) = to_vec l"
  by (simp add: list_prepare_def)

lemma list_prepareD:
  "list_prepare x l = LSmall v \<Longrightarrow> to_vec l = v" "list_prepare x l = LLarge v \<Longrightarrow> to_vec l = v"
  by (metis to_vec_prepare to_vec.simps)+

lemma to_vec_push_front [seq_simps]: "to_vec (push_front x l) = x # to_vec l"
  by (auto simp: push_front_def dest: list_prepareD split: rlist.split)

lemma to_vec_push_back [seq_simps]: "to_vec (push_back x l) = to_vec l @ [x]"
  by (auto simp: push_back_def dest: list_prepareD split: rlist.split)

lemma pop_front_seq [seq_simps]:
  "fst (pop_front l) = (case to_vec l of [] \<Rightarrow> None | x # _ \<Rightarrow> Some x)"
  "to_vec (snd (pop_front l)) = tl (to_vec l)"
  by (cases l; auto split: list.split)+

lemma pop_back_seq [seq_simps]:
  "fst (pop_back l) = (if to_vec l = [] then None else Some (last (to_vec l)))"
  "to_vec (snd (pop_back l)) = butlast (to_vec l)"
  by (cases l; auto)+

interpretation rl: deque to_vec "\<lambda>_. True" pop_front pop_back list_new push_front push_back
proof
  show "to_vec q = [] \<Longrightarrow> pop_front q = (None, q)" for q
    by (cases q) auto
  show "to_vec q = [] \<Longrightarrow> pop_back q = (None, q)" for q
    by (cases q) auto
qed (simp_all add: seq_simps)

lemma pop_front_n_seq [seq_simps]:
  "fst (pop_front_n n l) = take n (to_vec l)" "to_vec (snd (pop_front_n n l)) = drop n (to_vec l)"
  by (simp_all add: pop_front_n_def rl.popf_n)

lemma pop_back_n_seq [seq_simps]:
  "fst (pop_back_n n l) = take n (rev (to_vec l))"
  "to_vec (snd (pop_back_n n l)) = take (length (to_vec l) - n) (to_vec l)"
  by (simp_all add: pop_back_n_def rl.popb_n)

lemma list_get_seq [seq_simps]:
  "list_get l i = (if i < length (to_vec l) then Some (to_vec l ! i) else None)"
  by (cases l) auto

lemma set_index_seq [seq_simps]:
  "fst (set_index i x l) \<longleftrightarrow> i < length (to_vec l)"
  "to_vec (snd (set_index i x l)) = (to_vec l)[i := x]"
  by (cases l; simp add: list_update_beyond)+

lemma list_range_seq [seq_simps]: "list_range l s e = drop s (take e (to_vec l))"
  by (cases l) (auto simp: drop_take min_def Let_def)

declare list_range.simps [simp del]

lemma list_position_seq [seq_simps]: "list_position l x = position (\<lambda>b. b = x) (to_vec l)"
  by (cases l) auto

lemma insert_before_seq [seq_simps]:
  "to_vec (snd (insert_before p x l)) =
     (case position (\<lambda>b. b = p) (to_vec l) of None \<Rightarrow> to_vec l | Some i \<Rightarrow> insert_at i x (to_vec l))"
  "fst (insert_before p x l) =
     (case position (\<lambda>b. b = p) (to_vec l) of None \<Rightarrow> - 1 | Some i \<Rightarrow> int (length (to_vec l)) + 1)"
  by (auto simp: insert_before_def list_position_seq Let_def dest: list_prepareD split: option.split rlist.split)

lemma insert_after_seq [seq_simps]:
  "to_vec (snd (insert_after p x l)) =
     (case position (\<lambda>b. b = p) (to_vec l) of None \<Rightarrow> to_vec l
      | Some i \<Rightarrow> insert_at (Suc i) x (to_vec l))"
  "fst (insert_after p x l) =
     (case position (\<lambda>b. b = p) (to_vec l) of None \<Rightarrow> - 1 | Some i \<Rightarrow> int (length (to_vec l)) + 1)"
  by (auto simp: insert_after_def list_position_seq Let_def insert_at_end dest: list_prepareD
      split: option.split rlist.split)

section \<open>Removal by value\<close>

lemma lrem_filter_spec:
  "lrem_filter limit x r xs =
     ((remove1 x ^^ (limit - r)) xs, min (max limit r) (r + count_list xs x))"
proof (induction xs arbitrary: r)
  case Nil
  have "(remove1 x ^^ n) [] = []" for n by (induction n) auto
  then show ?case by simp
next
  case (Cons b bs)
  have pass: "(remove1 x ^^ n) (b # bs) = b # (remove1 x ^^ n) bs" if "b \<noteq> x" for n
    using that by (induction n) auto
  show ?case
  proof (cases "r < limit \<and> b = x")
    case True
    then have "limit - r = Suc (limit - Suc r)" by (simp add: Suc_diff_Suc)
    with True Cons.IH [of "r + 1"] show ?thesis
      by (simp del: funpow.simps add: funpow_Suc_right)
  next
    case False
    then show ?thesis
      using Cons.IH [of r] pass by auto
  qed
qed

lemma remove1_pow_all: "count_list xs x \<le> n \<Longrightarrow> (remove1 x ^^ n) xs = filter (\<lambda>b. b \<noteq> x) xs"
proof (induction n arbitrary: xs)
  case 0
  then have "x \<notin> set xs" by (simp add: count_list_0_iff)
  then have "filter (\<lambda>b. b \<noteq> x) xs = xs" by (auto simp: filter_id_conv)
  then show ?case by simp
next
  case (Suc n)
  have "count_list (remove1 x xs) x = count_list xs x - 1" by (induction xs) auto
  then have "count_list (remove1 x xs) x \<le> n" using Suc.prems by simp
  moreover have "filter (\<lambda>b. b \<noteq> x) (remove1 x xs) = filter (\<lambda>b. b \<noteq> x) xs"
    by (induction xs) auto
  ultimately show ?case
    using Suc.IH by (simp del: funpow.simps add: funpow_Suc_right)
qed

lemma lrem_pos:
  assumes "0 < cnt" and "is_i64 cnt"
  shows "to_vec (snd (lrem cnt x l)) = (remove1 x ^^ nat cnt) (to_vec l)"
    and "fst (lrem cnt x l) = min (nat cnt) (count_list (to_vec l) x)"
  using assms by (simp_all add: lrem_def Let_def lrem_filter_spec usize_wrap_nonneg is_i64_def)

lemma usize_wrap_minus: "cnt < 0 \<Longrightarrow> is_i64 cnt \<Longrightarrow> usize_wrap (i64_wrap (- cnt)) = nat (- cnt)"
  by (cases "cnt = - (2 ^ 63)") (auto simp: is_i64_def i64_wrap_def usize_wrap_def)

lemma lrem_neg:
  assumes "cnt < 0" and "is_i64 cnt"
  shows "to_vec (snd (lrem cnt x l)) = rev ((remove1 x ^^ nat (- cnt)) (rev (to_vec l)))"
    and "fst (lrem cnt x l) = min (nat (- cnt)) (count_list (to_vec l) x)"
  using assms by (simp_all add: lrem_def Let_def lrem_filter_spec usize_wrap_minus)

lemma lrem_zero:
  shows "to_vec (snd (lrem 0 x l)) = filter (\<lambda>b. b \<noteq> x) (to_vec l)"
    and "fst (lrem 0 x l) = count_list (to_vec l) x"
  by (auto simp: lrem_def Let_def count_list_eq_length_filter intro!: arg_cong [where f = length] filter_cong)

section \<open>Trimming\<close>

lemma to_vec_ltrim [seq_simps]:
  assumes "is_i64 start" and "is_i64 stop" and "length (to_vec l) < 2 ^ 63"
  shows "to_vec (ltrim start stop l) = redis_range start stop (to_vec l)"
proof -
  let ?n = "length (to_vec l)"
  let ?a = "abs_index ?n start" and ?b = "abs_index ?n stop"
  have a: "(if start < 0 then i64_wrap (int ?n + start) else start) = ?a"
    and b: "(if stop < 0 then i64_wrap (int ?n + stop) else stop) = ?b"
    using assms by (auto simp: abs_index_def i64_wrap_id is_i64_def)
  have ra: "?a < 2 ^ 63" and rb: "?b < 2 ^ 63"
    using assms by (auto simp: abs_index_def is_i64_def)
  have s: "usize_wrap (max ?a 0) = nat ?a"
    using ra by (simp add: usize_wrap_def max_def)
  show ?thesis
  proof (cases "?n = 0 \<or> ?b < 0")
    case True
    have "to_vec (ltrim start stop l) = []"
    proof (cases "?n = 0")
      case False
      with True have e: "max (min ?b (int ?n - 1)) (- 1) = - 1" by simp
      have "usize_wrap (int (2 ^ 64 - 1) + 1) = 0" by (simp add: usize_wrap_def)
      then show ?thesis
        by (simp add: ltrim_def Let_def a b e usize_wrap_neg1 list_range_seq)
    qed (simp add: ltrim_def)
    moreover have "redis_range start stop (to_vec l) = []"
      using True by (auto simp: redis_range_slice)
    ultimately show ?thesis by simp
  next
    case False
    then have e: "usize_wrap (max (min ?b (int ?n - 1)) (- 1)) = nat (min ?b (int ?n - 1))"
      using rb by (simp add: usize_wrap_def min_def)
    have e1: "usize_wrap (int (nat (min ?b (int ?n - 1))) + 1) = nat (min ?b (int ?n - 1) + 1)"
      using False rb assms(3) by (auto simp: usize_wrap_def min_def)
    have tk: "take (nat (min ?b (int ?n - 1) + 1)) (to_vec l) = take (nat (?b + 1)) (to_vec l)"
      using False by (auto simp: min_def intro!: take_equalityI)
    have "ltrim start stop l = (if nat (min ?b (int ?n - 1)) < nat ?a \<or> int ?n = 0 then LSmall []
        else LSmall (drop (nat ?a) (take (nat (?b + 1)) (to_vec l))))"
      by (simp only: ltrim_def Let_def list_len_to_vec a b s e e1 list_range_seq tk)
    with False show ?thesis
      by (auto simp: redis_range_slice min_def split: if_splits)
  qed
qed

section \<open>The encoding invariant\<close>

lemma rlist_ok_new [enc_intros]: "rlist_ok list_new"
  by (simp add: list_new_def)

lemma rlist_ok_push_front [enc_intros]: "rlist_ok l \<Longrightarrow> rlist_ok (push_front x l)"
  by (cases l) (auto simp: push_front_def list_prepare_def)

lemma rlist_ok_push_back [enc_intros]: "rlist_ok l \<Longrightarrow> rlist_ok (push_back x l)"
  by (cases l) (auto simp: push_back_def list_prepare_def)

lemma rlist_ok_pop_front [enc_intros]: "rlist_ok l \<Longrightarrow> rlist_ok (snd (pop_front l))"
  by (cases l) (auto dest: list.set_sel(2) split: list.split)

lemma rlist_ok_pop_back [enc_intros]: "rlist_ok l \<Longrightarrow> rlist_ok (snd (pop_back l))"
  by (cases l) (auto dest: in_set_butlastD)

lemma rlist_ok_pop_n:
  assumes "\<And>l. rlist_ok l \<Longrightarrow> rlist_ok (snd (pop l))"
  shows "rlist_ok l \<Longrightarrow> rlist_ok (snd (pop_n pop n l))"
proof (induction n arbitrary: l)
  case (Suc n)
  show ?case
    using assms [OF Suc.prems] Suc.IH [OF assms [OF Suc.prems]]
    by (auto split: prod.splits option.splits)
qed simp

lemma rlist_ok_pop_front_n [enc_intros]: "rlist_ok l \<Longrightarrow> rlist_ok (snd (pop_front_n n l))"
  by (simp add: pop_front_n_def rlist_ok_pop_n rlist_ok_pop_front)

lemma rlist_ok_pop_back_n [enc_intros]: "rlist_ok l \<Longrightarrow> rlist_ok (snd (pop_back_n n l))"
  by (simp add: pop_back_n_def rlist_ok_pop_n rlist_ok_pop_back)

lemma rlist_ok_insert_before [enc_intros]: "rlist_ok l \<Longrightarrow> rlist_ok (snd (insert_before p x l))"
  by (cases l) (auto simp: insert_before_def list_prepare_def Let_def split: option.split)

lemma rlist_ok_insert_after [enc_intros]: "rlist_ok l \<Longrightarrow> rlist_ok (snd (insert_after p x l))"
  by (cases l) (auto simp: insert_after_def list_prepare_def Let_def split: option.split)

end
