(* ===== verification/Redis_Hash.thy ===== *)
theory Redis_Hash
  imports Adt_Interfaces
begin

text \<open>
  The hash value of \<open>src/storage/hash.rs\<close>: a \<open>Vec\<close> of pairs for small hashes, a \<open>HashMap\<close> after a
  threshold is exceeded. The \<open>HashMap\<close> is an association list with distinct keys whose order
  stands for the unspecified iteration order. The abstract value is the finite map
  \<open>hash_lookup\<close>; every operation is shown to act on it alike in both encodings, under the
  invariant that no field occurs twice.
\<close>

section \<open>Definitions\<close>

definition HASH_MAX_ENTRIES :: usize where
  "HASH_MAX_ENTRIES = 128"

definition HASH_MAX_BYTES :: usize where
  "HASH_MAX_BYTES = 64"

datatype rhash = HSmall "(bytes \<times> bytes) list" | HLarge "(bytes \<times> bytes) list"

definition hash_new :: rhash where
  "hash_new = HSmall []"

fun hash_len :: "rhash \<Rightarrow> usize" where
  "hash_len (HSmall v) = length v"
| "hash_len (HLarge m) = length m"

definition hash_is_empty :: "rhash \<Rightarrow> bool" where
  "hash_is_empty h \<longleftrightarrow> hash_len h = 0"

fun hash_needs_promote :: "rhash \<Rightarrow> bytes \<Rightarrow> bytes \<Rightarrow> bool" where
  "hash_needs_promote (HSmall v) field value \<longleftrightarrow>
     length v \<ge> HASH_MAX_ENTRIES \<or> length field > HASH_MAX_BYTES \<or> length value > HASH_MAX_BYTES"
| "hash_needs_promote (HLarge m) field value \<longleftrightarrow> False"

text \<open>\<open>collect()\<close> into a \<open>HashMap\<close>: the pairs are inserted one by one.\<close>

definition hashmap_collect :: "('k \<times> 'v) list \<Rightarrow> ('k \<times> 'v) list" where
  "hashmap_collect kvs = fold (\<lambda>(k, v). AList.update k v) kvs []"

fun hash_promote :: "rhash \<Rightarrow> rhash" where
  "hash_promote (HSmall v) = HLarge (hashmap_collect v)"
| "hash_promote (HLarge m) = HLarge m"

definition hset :: "bytes \<Rightarrow> bytes \<Rightarrow> rhash \<Rightarrow> usize \<times> rhash" where
  "hset field value h =
     (case (if hash_needs_promote h field value then hash_promote h else h) of
        HSmall v \<Rightarrow>
          (case position (\<lambda>p. fst p = field) v of
             Some i \<Rightarrow> (0, HSmall (v[i := (fst (v ! i), value)]))
           | None \<Rightarrow> (1, HSmall (v @ [(field, value)])))
      | HLarge m \<Rightarrow>
          (let is_new = (map_of m field = None)
           in (if is_new then 1 else 0, HLarge (AList.update field value m))))"

fun hash_contains :: "rhash \<Rightarrow> bytes \<Rightarrow> bool" where
  "hash_contains (HSmall v) field \<longleftrightarrow> (\<exists>p \<in> set v. fst p = field)"
| "hash_contains (HLarge m) field \<longleftrightarrow> map_of m field \<noteq> None"

definition hsetnx :: "bytes \<Rightarrow> bytes \<Rightarrow> rhash \<Rightarrow> bool \<times> rhash" where
  "hsetnx field value h =
     (if hash_contains h field then (False, h) else (True, snd (hset field value h)))"

fun hash_get :: "rhash \<Rightarrow> bytes \<Rightarrow> bytes option" where
  "hash_get (HSmall v) field = map_option snd (find (\<lambda>p. fst p = field) v)"
| "hash_get (HLarge m) field = map_of m field"

text \<open>The counting filter of the large encoding: each field is removed in turn.\<close>

fun remove_each :: "bytes list \<Rightarrow> (bytes \<times> bytes) list \<Rightarrow> usize \<times> (bytes \<times> bytes) list" where
  "remove_each [] m = (0, m)"
| "remove_each (f # fs) m =
     (let found = (map_of m f \<noteq> None) in
      case remove_each fs (AList.delete f m) of (n, m') \<Rightarrow> (if found then Suc n else n, m'))"

fun hdel :: "bytes list \<Rightarrow> rhash \<Rightarrow> usize \<times> rhash" where
  "hdel fields (HSmall v) =
     (let v' = filter (\<lambda>p. fst p \<notin> set fields) v in (length v - length v', HSmall v'))"
| "hdel fields (HLarge m) = (case remove_each fields m of (n, m') \<Rightarrow> (n, HLarge m'))"

fun all_pairs :: "rhash \<Rightarrow> (bytes \<times> bytes) list" where
  "all_pairs (HSmall v) = v"
| "all_pairs (HLarge m) = m"

fun hash_keys :: "rhash \<Rightarrow> bytes list" where
  "hash_keys (HSmall v) = map fst v"
| "hash_keys (HLarge m) = map fst m"

fun hash_values :: "rhash \<Rightarrow> bytes list" where
  "hash_values (HSmall v) = map snd v"
| "hash_values (HLarge m) = map snd m"

definition hash_lookup :: "rhash \<Rightarrow> bytes \<Rightarrow> bytes option" where
  "hash_lookup h = map_of (all_pairs h)"

definition hash_inv :: "rhash \<Rightarrow> bool" where
  "hash_inv h \<longleftrightarrow> distinct (map fst (all_pairs h))"

fun rhash_ok :: "rhash \<Rightarrow> bool" where
  "rhash_ok (HSmall v) \<longleftrightarrow> length v \<le> HASH_MAX_ENTRIES
     \<and> (\<forall>(f, x) \<in> set v. length f \<le> HASH_MAX_BYTES \<and> length x \<le> HASH_MAX_BYTES)"
| "rhash_ok (HLarge m) \<longleftrightarrow> True"

section \<open>Association lists\<close>

lemma position_update:
  "(case position (\<lambda>p. fst p = k) v of Some i \<Rightarrow> v[i := (fst (v ! i), x)] | None \<Rightarrow> v @ [(k, x)])
     = AList.update k x v"
  by (induction v) (auto split: option.splits)

lemma hashmap_collect_id:
  assumes "distinct (map fst kvs)"
  shows "hashmap_collect kvs = kvs"
proof -
  have "distinct (map fst (acc @ kvs)) \<Longrightarrow> fold (\<lambda>(k, v). AList.update k v) kvs acc = acc @ kvs" for acc
  proof (induction kvs arbitrary: acc)
    case (Cons kv kvs)
    obtain k v where kv: "kv = (k, v)" by force
    have "k \<notin> fst ` set acc" using Cons.prems kv by auto
    with Cons kv show ?case by (simp add: update_new)
  qed simp
  from this [of "[]"] assms show ?thesis by (simp add: hashmap_collect_def)
qed

lemma remove_each_filter: "snd (remove_each fs m) = filter (\<lambda>p. fst p \<notin> set fs) m"
proof (induction fs arbitrary: m)
  case (Cons f fs)
  have "filter (\<lambda>p. fst p \<notin> set fs) (AList.delete f m) = filter (\<lambda>p. fst p \<notin> set (f # fs)) m"
    by (induction m) auto
  with Cons.IH [of "AList.delete f m"] show ?case
    by (simp add: Let_def split_def)
qed simp

lemma remove_each_count:
  "distinct (map fst m) \<Longrightarrow> length m = fst (remove_each fs m) + length (snd (remove_each fs m))"
proof (induction fs arbitrary: m)
  case (Cons f fs)
  with Cons.IH [of "AList.delete f m"] length_delete [of m f] show ?case
    by (auto simp: distinct_delete Let_def split: prod.splits)
qed simp

section \<open>The map held\<close>

lemma hash_len_pairs [simp]: "hash_len h = length (all_pairs h)"
  by (cases h) auto

lemma hash_inv_new [enc_intros]: "hash_inv hash_new"
  by (simp add: hash_inv_def hash_new_def)

lemma hash_lookup_new [map_simps]: "hash_lookup hash_new = Map.empty"
  by (simp add: hash_lookup_def hash_new_def)

lemma all_pairs_promote: "hash_inv h \<Longrightarrow> all_pairs (hash_promote h) = all_pairs h"
  by (cases h) (auto simp: hash_inv_def hashmap_collect_id)

text \<open>Both encodings store a field in the same way.\<close>

lemma all_pairs_hset: "hash_inv h \<Longrightarrow> all_pairs (snd (hset f x h)) = AList.update f x (all_pairs h)"
proof -
  assume inv: "hash_inv h"
  let ?h = "if hash_needs_promote h f x then hash_promote h else h"
  have eq: "all_pairs ?h = all_pairs h" using inv by (simp add: all_pairs_promote)
  show ?thesis
  proof (cases ?h)
    case (HSmall v)
    with eq position_update [where k = f and v = v and x = x] show ?thesis
      by (auto simp: hset_def split: option.split)
  next
    case (HLarge m)
    with eq show ?thesis by (auto simp: hset_def Let_def)
  qed
qed

lemma hset_count: "hash_inv h \<Longrightarrow> fst (hset f x h) = (if hash_lookup h f = None then 1 else 0)"
proof -
  assume inv: "hash_inv h"
  let ?h = "if hash_needs_promote h f x then hash_promote h else h"
  have eq: "all_pairs ?h = all_pairs h" using inv by (simp add: all_pairs_promote)
  show ?thesis
  proof (cases ?h)
    case (HSmall v)
    have "position (\<lambda>p. fst p = f) v = None \<longleftrightarrow> map_of v f = None"
      by (force simp: position_None map_of_eq_None_iff)
    with HSmall eq show ?thesis
      by (auto simp: hset_def hash_lookup_def split: option.split)
  next
    case (HLarge m)
    with eq show ?thesis by (auto simp: hset_def hash_lookup_def Let_def)
  qed
qed

lemma hash_lookup_hset [map_simps]:
  "hash_inv h \<Longrightarrow> hash_lookup (snd (hset f x h)) = (hash_lookup h)(f \<mapsto> x)"
  by (simp add: hash_lookup_def all_pairs_hset update_conv')

lemma hash_inv_hset [enc_intros]: "hash_inv h \<Longrightarrow> hash_inv (snd (hset f x h))"
  by (simp add: hash_inv_def [of "snd (hset f x h)"] all_pairs_hset)
    (simp add: hash_inv_def distinct_update)

lemma hash_get_lookup [map_simps]: "hash_get h f = hash_lookup h f"
proof (cases h)
  case (HSmall v)
  have "map_option snd (find (\<lambda>p. fst p = f) v) = map_of v f" by (induction v) auto
  with HSmall show ?thesis by (simp add: hash_lookup_def)
qed (simp add: hash_lookup_def)

lemma hash_contains_lookup [map_simps]: "hash_contains h f \<longleftrightarrow> hash_lookup h f \<noteq> None"
  by (cases h) (auto simp: hash_lookup_def map_of_eq_None_iff)

lemma hsetnx_simps [map_simps]:
  assumes "hash_inv h"
  shows "fst (hsetnx f x h) \<longleftrightarrow> hash_lookup h f = None"
    and "hash_lookup (snd (hsetnx f x h)) =
      (if hash_lookup h f = None then (hash_lookup h)(f \<mapsto> x) else hash_lookup h)"
  using assms by (auto simp: hsetnx_def map_simps)

lemma hash_inv_hsetnx [enc_intros]: "hash_inv h \<Longrightarrow> hash_inv (snd (hsetnx f x h))"
  by (simp add: hsetnx_def enc_intros)

lemma all_pairs_hdel: "all_pairs (snd (hdel fs h)) = filter (\<lambda>p. fst p \<notin> set fs) (all_pairs h)"
  by (cases h) (auto simp: remove_each_filter Let_def split: prod.split dest: arg_cong [where f = snd])

lemma hash_inv_hdel [enc_intros]: "hash_inv h \<Longrightarrow> hash_inv (snd (hdel fs h))"
  by (simp add: hash_inv_def all_pairs_hdel distinct_map_filter)

lemma map_of_filter_keys: "map_of (filter (\<lambda>p. fst p \<in> A) al) = map_of al |` A"
  by (induction al) (auto simp: restrict_map_def)

lemma hash_lookup_hdel [map_simps]: "hash_lookup (snd (hdel fs h)) = hash_lookup h |` (- set fs)"
  using map_of_filter_keys [of "- set fs" "all_pairs h"] by (simp add: hash_lookup_def all_pairs_hdel)

lemma hdel_count: "hash_inv h \<Longrightarrow> length (all_pairs h) = fst (hdel fs h) + length (all_pairs (snd (hdel fs h)))"
  using remove_each_count [of "all_pairs h" fs]
  by (cases h) (auto simp: hash_inv_def Let_def split_def remove_each_filter)

lemma hash_keys_pairs: "hash_keys h = map fst (all_pairs h)"
  by (cases h) auto

lemma hash_values_pairs: "hash_values h = map snd (all_pairs h)"
  by (cases h) auto

lemma hash_len_card: "hash_inv h \<Longrightarrow> hash_len h = card (dom (hash_lookup h))"
  unfolding hash_inv_def hash_lookup_def hash_len_pairs
  by (metis distinct_card dom_map_of_conv_image_fst length_map list.set_map)

interpretation rh: map_adt hash_lookup hash_new "\<lambda>f x h. snd (hset f x h)" hash_inv
  by unfold_locales (simp_all add: map_simps enc_intros)

section \<open>The encoding invariant\<close>

lemma set_update_subset: "set (AList.update k v al) \<subseteq> insert (k, v) (set al)"
  by (induction al) auto

lemma rhash_ok_hset [enc_intros]: "rhash_ok h \<Longrightarrow> rhash_ok (snd (hset f x h))"
proof (cases "hash_needs_promote h f x")
  case True
  then show ?thesis by (cases h) (auto simp: hset_def Let_def)
next
  case False
  assume ok: "rhash_ok h"
  show ?thesis
  proof (cases h)
    case (HSmall v)
    then have "snd (hset f x h) = HSmall (AList.update f x v)"
      using False by (auto simp: hset_def simp flip: position_update split: option.split)
    with HSmall False ok length_update [of f x v] set_update_subset [of f x v] show ?thesis
      by auto
  qed (use False in \<open>auto simp: hset_def Let_def\<close>)
qed

lemma rhash_ok_hdel [enc_intros]: "rhash_ok h \<Longrightarrow> rhash_ok (snd (hdel fs h))"
  by (cases h) (auto simp: Let_def split: prod.split intro: le_trans [OF length_filter_le])

lemma rhash_ok_hsetnx [enc_intros]: "rhash_ok h \<Longrightarrow> rhash_ok (snd (hsetnx f x h))"
  by (simp add: hsetnx_def rhash_ok_hset)

end
