(* ===== verification/Redis_Set.thy ===== *)
theory Redis_Set
  imports Adt_Interfaces
begin

text \<open>
  The set value of \<open>src/storage/set.rs\<close>: a \<open>Vec\<close> for small sets, a \<open>HashSet\<close> after a threshold is
  exceeded. The \<open>HashSet\<close> is a list without duplicates whose order stands for the unspecified
  iteration order. The abstract value is \<open>set_elems\<close>. The random choices of the \<open>rand\<close> crate
  (\<open>choose_multiple\<close>, \<open>choose\<close>, \<open>shuffle\<close>) are arguments of the operations that use them.
\<close>

section \<open>Definitions\<close>

definition MAX_INTSET_ENTRIES :: usize where
  "MAX_INTSET_ENTRIES = 128"

definition SET_MAX_BYTES :: usize where
  "SET_MAX_BYTES = 64"

datatype rset = SSmall "bytes list" | SLarge "bytes list"

text \<open>\<open>HashSet::insert\<close> and \<open>HashSet::remove\<close>, with the flag each returns.\<close>

definition hs_insert :: "'a \<Rightarrow> 'a list \<Rightarrow> bool \<times> 'a list" where
  "hs_insert x s = (if x \<in> set s then (False, s) else (True, s @ [x]))"

definition hs_remove :: "'a \<Rightarrow> 'a list \<Rightarrow> bool \<times> 'a list" where
  "hs_remove x s = (x \<in> set s, filter (\<lambda>y. y \<noteq> x) s)"

definition hs_extend :: "'a list \<Rightarrow> 'a list \<Rightarrow> 'a list" where
  "hs_extend s xs = fold (\<lambda>x acc. snd (hs_insert x acc)) xs s"

definition hs_collect :: "'a list \<Rightarrow> 'a list" where
  "hs_collect xs = hs_extend [] xs"

definition set_new :: rset where
  "set_new = SSmall []"

fun set_len :: "rset \<Rightarrow> usize" where
  "set_len (SSmall v) = length v"
| "set_len (SLarge s) = length s"

definition set_is_empty :: "rset \<Rightarrow> bool" where
  "set_is_empty s \<longleftrightarrow> set_len s = 0"

fun set_needs_promote :: "rset \<Rightarrow> bytes \<Rightarrow> bool" where
  "set_needs_promote (SSmall v) m \<longleftrightarrow> length v \<ge> MAX_INTSET_ENTRIES \<or> length m > SET_MAX_BYTES"
| "set_needs_promote (SLarge s) m \<longleftrightarrow> False"

fun set_promote :: "rset \<Rightarrow> rset" where
  "set_promote (SSmall v) = SLarge (hs_collect v)"
| "set_promote (SLarge s) = SLarge s"

text \<open>The body of the loop of \<open>sadd\<close>, and the loop with its counter.\<close>

definition sadd_one :: "bytes \<Rightarrow> rset \<Rightarrow> bool \<times> rset" where
  "sadd_one m s =
     (case (if set_needs_promote s m then set_promote s else s) of
        SSmall v \<Rightarrow> (if m \<in> set v then (False, SSmall v) else (True, SSmall (v @ [m])))
      | SLarge t \<Rightarrow> (case hs_insert m t of (ins, t') \<Rightarrow> (ins, SLarge t')))"

fun sadd :: "bytes list \<Rightarrow> rset \<Rightarrow> usize \<times> rset" where
  "sadd [] s = (0, s)"
| "sadd (m # ms) s =
     (case sadd_one m s of (ins, s') \<Rightarrow>
        (case sadd ms s' of (added, s'') \<Rightarrow> ((if ins then 1 else 0) + added, s'')))"

fun set_contains :: "rset \<Rightarrow> bytes \<Rightarrow> bool" where
  "set_contains (SSmall v) m \<longleftrightarrow> m \<in> set v"
| "set_contains (SLarge s) m \<longleftrightarrow> m \<in> set s"

fun hs_remove_each :: "'a list \<Rightarrow> 'a list \<Rightarrow> usize \<times> 'a list" where
  "hs_remove_each [] s = (0, s)"
| "hs_remove_each (m # ms) s =
     (case hs_remove m s of (found, s') \<Rightarrow>
        (case hs_remove_each ms s' of (n, s'') \<Rightarrow> ((if found then 1 else 0) + n, s'')))"

fun srem :: "bytes list \<Rightarrow> rset \<Rightarrow> usize \<times> rset" where
  "srem ms (SSmall v) =
     (let v' = filter (\<lambda>m. m \<notin> set ms) v in (length v - length v', SSmall v'))"
| "srem ms (SLarge s) = (case hs_remove_each ms s of (n, s') \<Rightarrow> (n, SLarge s'))"

fun remove_one :: "bytes \<Rightarrow> rset \<Rightarrow> bool \<times> rset" where
  "remove_one m (SSmall v) =
     (case position (\<lambda>x. x = m) v of
        Some i \<Rightarrow> (True, SSmall (swap_remove i v))
      | None \<Rightarrow> (False, SSmall v))"
| "remove_one m (SLarge s) = (case hs_remove m s of (found, s') \<Rightarrow> (found, SLarge s'))"

fun members :: "rset \<Rightarrow> bytes list" where
  "members (SSmall v) = v"
| "members (SLarge s) = s"

fun to_hashset :: "rset \<Rightarrow> bytes list" where
  "to_hashset (SSmall v) = hs_collect v"
| "to_hashset (SLarge s) = s"

definition union_with :: "rset \<Rightarrow> rset list \<Rightarrow> bytes list" where
  "union_with s others = fold (\<lambda>other result. hs_extend result (members other)) others (to_hashset s)"

definition intersect_with :: "rset \<Rightarrow> rset list \<Rightarrow> bytes list" where
  "intersect_with s others =
     fold (\<lambda>other result. let rhs = to_hashset other in filter (\<lambda>m. m \<in> set rhs) result)
       others (to_hashset s)"

definition diff_with :: "rset \<Rightarrow> rset list \<Rightarrow> bytes list" where
  "diff_with s others =
     fold (\<lambda>other result. fold (\<lambda>m r. snd (hs_remove m r)) (members other) result)
       others (to_hashset s)"

text \<open>
  \<open>choose_multiple ms n\<close> stands for \<open>n\<close> distinct positions of \<open>ms\<close>, \<open>draw ms i\<close> for the \<open>i\<close>-th
  independent draw, \<open>shuffle ms\<close> for a permutation.
\<close>

definition random_members ::
  "(bytes list \<Rightarrow> nat \<Rightarrow> bytes list) \<Rightarrow> (bytes list \<Rightarrow> nat \<Rightarrow> bytes) \<Rightarrow> rset \<Rightarrow> i64 \<Rightarrow> bytes list" where
  "random_members choose_multiple draw s cnt =
     (let ms = members s in
      if ms = [] then []
      else if cnt \<ge> 0 then choose_multiple ms (min (usize_wrap cnt) (length ms))
      else map (draw ms) [0 ..< usize_wrap (i64_wrap (- cnt))])"

definition spop :: "(bytes list \<Rightarrow> bytes list) \<Rightarrow> usize \<Rightarrow> rset \<Rightarrow> bytes list \<times> rset" where
  "spop shuffle cnt s =
     (let ms = members s in
      if ms = [] then ([], s)
      else let ms' = shuffle ms;
               n = min cnt (length ms');
               popped = take n ms'
           in (popped, fold (\<lambda>m t. snd (remove_one m t)) popped s))"

definition set_elems :: "rset \<Rightarrow> bytes set" where
  "set_elems s = set (members s)"

definition set_inv :: "rset \<Rightarrow> bool" where
  "set_inv s \<longleftrightarrow> distinct (members s)"

fun rset_ok :: "rset \<Rightarrow> bool" where
  "rset_ok (SSmall v) \<longleftrightarrow> length v \<le> MAX_INTSET_ENTRIES \<and> (\<forall>m \<in> set v. length m \<le> SET_MAX_BYTES)"
| "rset_ok (SLarge s) \<longleftrightarrow> True"

section \<open>Lists without duplicates\<close>

lemma hs_insert_simps [simp]:
  "fst (hs_insert x s) \<longleftrightarrow> x \<notin> set s" "set (snd (hs_insert x s)) = insert x (set s)"
  "distinct s \<Longrightarrow> distinct (snd (hs_insert x s))"
  by (auto simp: hs_insert_def)

lemma hs_remove_simps [simp]:
  "fst (hs_remove x s) \<longleftrightarrow> x \<in> set s" "set (snd (hs_remove x s)) = set s - {x}"
  "distinct s \<Longrightarrow> distinct (snd (hs_remove x s))"
  by (auto simp: hs_remove_def)

lemma hs_extend_simps [simp]:
  "set (hs_extend s xs) = set s \<union> set xs" "distinct s \<Longrightarrow> distinct (hs_extend s xs)"
  by (induction xs arbitrary: s) (auto simp: hs_extend_def)

lemma hs_extend_distinct: "distinct (s @ xs) \<Longrightarrow> hs_extend s xs = s @ xs"
proof (induction xs arbitrary: s)
  case (Cons x xs)
  then have "hs_extend s (x # xs) = hs_extend (s @ [x]) xs"
    by (simp add: hs_extend_def hs_insert_def)
  with Cons show ?case by simp
qed (simp add: hs_extend_def)

lemma hs_collect_simps [simp]:
  "set (hs_collect xs) = set xs" "distinct (hs_collect xs)" "distinct xs \<Longrightarrow> hs_collect xs = xs"
  by (auto simp: hs_collect_def hs_extend_distinct)

lemma hs_remove_each_filter: "snd (hs_remove_each ms s) = filter (\<lambda>m. m \<notin> set ms) s"
  by (induction ms arbitrary: s) (auto simp: hs_remove_def split_def intro: filter_cong)

lemma length_filter_neq: "distinct s \<Longrightarrow> length s = (if x \<in> set s then 1 else 0) + length (filter (\<lambda>y. y \<noteq> x) s)"
proof (induction s)
  case (Cons y s)
  then show ?case by (cases "x = y") (auto simp: filter_id_conv)
qed simp

lemma hs_remove_each_count:
  "distinct s \<Longrightarrow> length s = fst (hs_remove_each ms s) + length (snd (hs_remove_each ms s))"
proof (induction ms arbitrary: s)
  case (Cons m ms)
  have "length s = (if m \<in> set s then 1 else 0) + length (snd (hs_remove m s))"
    using Cons.prems by (simp add: hs_remove_def length_filter_neq [of s m])
  moreover have "length (snd (hs_remove m s)) = fst (hs_remove_each ms (snd (hs_remove m s)))
      + length (snd (hs_remove_each ms (snd (hs_remove m s))))"
    using Cons.prems by (intro Cons.IH) simp
  ultimately show ?case by (simp add: split_def)
qed simp

section \<open>The set the encodings hold\<close>

lemma set_elems_simps [simp]:
  "set_elems (SSmall v) = set v" "set_elems (SLarge v) = set v" "set_elems set_new = {}"
  by (simp_all add: set_elems_def set_new_def)

lemma set_inv_simps [simp]:
  "set_inv (SSmall v) = distinct v" "set_inv (SLarge v) = distinct v" "set_inv set_new"
  by (simp_all add: set_inv_def set_new_def)

lemma finite_set_elems [simp]: "finite (set_elems s)"
  by (simp add: set_elems_def)

lemma set_contains_iff [set_simps]: "set_contains s m \<longleftrightarrow> m \<in> set_elems s"
  by (cases s) auto

lemma set_len_card: "set_inv s \<Longrightarrow> set_len s = card (set_elems s)"
  by (cases s) (auto simp: distinct_card)

lemma set_promote_simps [simp]:
  "set_elems (set_promote s) = set_elems s" "set_inv s \<Longrightarrow> set_inv (set_promote s)"
  by (cases s; simp)+

lemma sadd_one_elems:
  "set_elems (snd (sadd_one m s)) = insert m (set_elems s)"
  "fst (sadd_one m s) \<longleftrightarrow> m \<notin> set_elems s"
  "set_inv s \<Longrightarrow> set_inv (snd (sadd_one m s))"
  by (cases s; auto simp: sadd_one_def split_def)+

interpretation rs: set_adt set_elems set_new "\<lambda>m s. snd (sadd_one m s)" set_inv
  by unfold_locales (simp_all add: sadd_one_elems)

lemma snd_sadd: "snd (sadd ms s) = fold (\<lambda>m s. snd (sadd_one m s)) ms s"
  by (induction ms arbitrary: s) (auto simp: split_def)

lemma set_elems_sadd [set_simps]: "set_inv s \<Longrightarrow> set_elems (snd (sadd ms s)) = set_elems s \<union> set ms"
  by (simp add: snd_sadd rs.elems_ins_all)

lemma set_inv_sadd [enc_intros]: "set_inv s \<Longrightarrow> set_inv (snd (sadd ms s))"
  by (simp add: snd_sadd rs.inv_ins_all)

text \<open>\<open>SADD\<close> counts exactly the members that were not there before.\<close>

lemma sadd_count:
  "set_inv s \<Longrightarrow> card (set_elems (snd (sadd ms s))) = card (set_elems s) + fst (sadd ms s)"
proof (induction ms arbitrary: s)
  case (Cons m ms)
  let ?s = "snd (sadd_one m s)"
  have "card (set_elems (snd (sadd ms ?s))) = card (set_elems ?s) + fst (sadd ms ?s)"
    using Cons.prems by (intro Cons.IH) (simp add: sadd_one_elems)
  moreover have "card (set_elems ?s) = card (set_elems s) + (if fst (sadd_one m s) then 1 else 0)"
    by (simp add: sadd_one_elems insert_absorb)
  ultimately show ?case by (simp add: split_def)
qed simp

lemma set_elems_srem [set_simps]: "set_elems (snd (srem ms s)) = set_elems s - set ms"
  by (cases s) (auto simp: split_def hs_remove_each_filter Let_def)

lemma set_inv_srem [enc_intros]: "set_inv s \<Longrightarrow> set_inv (snd (srem ms s))"
  by (cases s) (auto simp: split_def hs_remove_each_filter Let_def)

lemma srem_count: "set_inv s \<Longrightarrow> set_len s = fst (srem ms s) + set_len (snd (srem ms s))"
  by (cases s) (auto simp: split_def Let_def hs_remove_each_count)

lemma remove_one_elems:
  assumes "set_inv s"
  shows "set_elems (snd (remove_one m s)) = set_elems s - {m}"
    and "fst (remove_one m s) \<longleftrightarrow> m \<in> set_elems s"
    and "set_inv (snd (remove_one m s))"
  using assms
  by (cases s; auto simp: split_def position_None set_swap_remove distinct_swap_remove
      split: option.splits dest!: position_Some)+

lemma remove_all_elems:
  "set_inv s \<Longrightarrow> set_elems (fold (\<lambda>m t. snd (remove_one m t)) ms s) = set_elems s - set ms \<and>
     set_inv (fold (\<lambda>m t. snd (remove_one m t)) ms s)"
proof (induction ms arbitrary: s)
  case (Cons m ms)
  have "set_elems (fold (\<lambda>m t. snd (remove_one m t)) ms (snd (remove_one m s)))
      = set_elems (snd (remove_one m s)) - set ms \<and>
     set_inv (fold (\<lambda>m t. snd (remove_one m t)) ms (snd (remove_one m s)))"
    by (intro Cons.IH remove_one_elems Cons.prems)
  then show ?case
    using Cons.prems by (auto simp: remove_one_elems)
qed simp

text \<open>\<open>SPOP\<close> splits the set: distinct members of it are returned and exactly those are gone.\<close>

lemma spop_split:
  assumes inv: "set_inv s" and perm: "mset (shuffle (members s)) = mset (members s)"
  shows "distinct (fst (spop shuffle cnt s))"
    and "set (fst (spop shuffle cnt s)) \<subseteq> set_elems s"
    and "set_elems (snd (spop shuffle cnt s)) = set_elems s - set (fst (spop shuffle cnt s))"
    and "length (fst (spop shuffle cnt s)) = min cnt (set_len s)"
    and "set_inv (snd (spop shuffle cnt s))"
proof -
  let ?ms = "shuffle (members s)"
  have d: "distinct ?ms" and se: "set ?ms = set_elems s" and ln: "length ?ms = set_len s"
    using inv perm by (cases s; auto dest: mset_eq_setD mset_eq_length mset_eq_imp_distinct_iff)+
  show "distinct (fst (spop shuffle cnt s))" "set (fst (spop shuffle cnt s)) \<subseteq> set_elems s"
    "set_elems (snd (spop shuffle cnt s)) = set_elems s - set (fst (spop shuffle cnt s))"
    "set_inv (snd (spop shuffle cnt s))"
    using d se inv remove_all_elems [OF inv, of "take (min cnt (length ?ms)) ?ms"]
    by (auto simp: spop_def Let_def dest: in_set_takeD)
  show "length (fst (spop shuffle cnt s)) = min cnt (set_len s)"
    using ln by (cases s) (auto simp: spop_def Let_def)
qed

section \<open>Set algebra\<close>

lemma to_hashset_simps [simp]:
  "set (to_hashset s) = set_elems s" "set_inv s \<Longrightarrow> distinct (to_hashset s)"
  by (cases s; simp)+

lemma set_union_with [set_simps]:
  "set (union_with s others) = set_elems s \<union> (\<Union>t \<in> set others. set_elems t)"
proof -
  have "set (fold (\<lambda>other result. hs_extend result (members other)) others r) =
      set r \<union> (\<Union>t \<in> set others. set_elems t)" for r
    by (induction others arbitrary: r) (auto simp: set_elems_def)
  then show ?thesis by (simp add: union_with_def)
qed

lemma set_intersect_with [set_simps]:
  "set (intersect_with s others) = set_elems s \<inter> (\<Inter>t \<in> set others. set_elems t)"
proof -
  have "set (fold (\<lambda>other result. let rhs = to_hashset other in filter (\<lambda>m. m \<in> set rhs) result)
      others r) = set r \<inter> (\<Inter>t \<in> set others. set_elems t)" for r
    by (induction others arbitrary: r) (auto simp: Let_def)
  then show ?thesis by (simp add: intersect_with_def)
qed

lemma set_remove_fold: "set (fold (\<lambda>m r. snd (hs_remove m r)) ms r) = set r - set ms"
  by (induction ms arbitrary: r) auto

lemma set_diff_with [set_simps]:
  "set (diff_with s others) = set_elems s - (\<Union>t \<in> set others. set_elems t)"
proof -
  have "set (fold (\<lambda>other result. fold (\<lambda>m r. snd (hs_remove m r)) (members other) result)
      others r) = set r - (\<Union>t \<in> set others. set_elems t)" for r
    by (induction others arbitrary: r) (auto simp: set_remove_fold set_elems_def)
  then show ?thesis by (simp add: diff_with_def)
qed

lemma distinct_remove_fold: "distinct r \<Longrightarrow> distinct (fold (\<lambda>m r. snd (hs_remove m r)) ms r)"
  by (induction ms arbitrary: r) auto

lemma distinct_algebra:
  assumes "set_inv s"
  shows "distinct (union_with s others)" "distinct (intersect_with s others)"
    "distinct (diff_with s others)"
proof -
  have "distinct r \<Longrightarrow> distinct (fold (\<lambda>other result. hs_extend result (members other)) others r)" for r
    by (induction others arbitrary: r) auto
  then show "distinct (union_with s others)" using assms by (simp add: union_with_def)
  have "distinct r \<Longrightarrow> distinct (fold (\<lambda>other result. let rhs = to_hashset other in
      filter (\<lambda>m. m \<in> set rhs) result) others r)" for r
    by (induction others arbitrary: r) (auto simp: Let_def)
  then show "distinct (intersect_with s others)" using assms by (simp add: intersect_with_def)
  have "distinct r \<Longrightarrow> distinct (fold (\<lambda>other result.
      fold (\<lambda>m r. snd (hs_remove m r)) (members other) result) others r)" for r
    by (induction others arbitrary: r) (auto simp: distinct_remove_fold)
  then show "distinct (diff_with s others)" using assms by (simp add: diff_with_def)
qed

section \<open>Random members\<close>

text \<open>
  With \<open>choose_multiple\<close> returning that many distinct members and each draw a member, the answer
  has the promised length and holds only members; a non-negative count gives no duplicates.
\<close>

lemma random_members_spec:
  assumes cm: "\<And>ms n. n \<le> length ms \<Longrightarrow> distinct ms \<Longrightarrow> distinct (choose_multiple ms n) \<and>
      length (choose_multiple ms n) = n \<and> set (choose_multiple ms n) \<subseteq> set ms"
    and dr: "\<And>ms i. ms \<noteq> [] \<Longrightarrow> draw ms i \<in> set ms"
    and inv: "set_inv s" and range: "is_i64 cnt" "cnt \<noteq> - (2 ^ 63)"
  shows "set (random_members choose_multiple draw s cnt) \<subseteq> set_elems s"
    and "0 \<le> cnt \<Longrightarrow> distinct (random_members choose_multiple draw s cnt) \<and>
      length (random_members choose_multiple draw s cnt) = min (nat cnt) (set_len s)"
    and "cnt < 0 \<Longrightarrow> set_elems s \<noteq> {} \<Longrightarrow>
      length (random_members choose_multiple draw s cnt) = nat (- cnt)"
proof -
  have w: "cnt < 0 \<Longrightarrow> usize_wrap (i64_wrap (- cnt)) = nat (- cnt)"
    "0 \<le> cnt \<Longrightarrow> usize_wrap cnt = nat cnt"
    using range by (simp_all add: i64_wrap_id usize_wrap_nonneg is_i64_def)
  have d: "distinct (members s)" and l: "set_len s = length (members s)"
    using inv by (cases s; simp)+
  note c = cm [of "min (nat cnt) (length (members s))" "members s", OF _ d]
  show "set (random_members choose_multiple draw s cnt) \<subseteq> set_elems s"
    using c dr w by (auto simp: random_members_def Let_def set_elems_def)
  show "0 \<le> cnt \<Longrightarrow> distinct (random_members choose_multiple draw s cnt) \<and>
      length (random_members choose_multiple draw s cnt) = min (nat cnt) (set_len s)"
    using c w l by (auto simp: random_members_def Let_def)
  show "cnt < 0 \<Longrightarrow> set_elems s \<noteq> {} \<Longrightarrow>
      length (random_members choose_multiple draw s cnt) = nat (- cnt)"
    using w by (auto simp: random_members_def Let_def set_elems_def)
qed

section \<open>The encoding invariant\<close>

lemma rset_ok_new [enc_intros]: "rset_ok set_new"
  by (simp add: set_new_def MAX_INTSET_ENTRIES_def)

lemma rset_ok_sadd_one: "rset_ok s \<Longrightarrow> rset_ok (snd (sadd_one m s))"
  by (cases s) (auto simp: sadd_one_def split_def)

lemma rset_ok_sadd [enc_intros]: "rset_ok s \<Longrightarrow> rset_ok (snd (sadd ms s))"
  by (induction ms arbitrary: s) (auto simp: split_def rset_ok_sadd_one)

lemma rset_ok_srem [enc_intros]: "rset_ok s \<Longrightarrow> rset_ok (snd (srem ms s))"
  by (cases s) (auto simp: split_def Let_def intro: order_trans [OF length_filter_le])

lemma rset_ok_remove_one [enc_intros]:
  assumes "set_inv s" "rset_ok s"
  shows "rset_ok (snd (remove_one m s))"
  using assms
  by (cases s) (auto simp: split_def set_swap_remove length_swap_remove split: option.splits
      dest!: position_Some)

end
