(* ===== verification/Rust_F64.thy ===== *)
theory Rust_F64
  imports Rust_Text
begin

text \<open>
  The \<open>f64\<close> of the source as its 64-bit IEEE 754 pattern (\<open>to_bits\<close>, \<open>from_bits\<close> are the
  identity): classification, comparison, negation, \<open>abs\<close>, \<open>max\<close>, addition, subtraction and
  multiplication with rounding to nearest, ties to even, and \<open>str::parse::<f64>\<close>.

  Every finite \<open>f64\<close> is an integer multiple of \<open>2 ^ -1074\<close>, so its exact value is the integer
  \<open>f64_val\<close>; an infinity has the value the same formula gives for its bits, which exceeds the
  value of every finite number. The printed text of an \<open>f64\<close> (\<open>format!("{x}")\<close>) is an
  argument of the definitions that print one.
\<close>

type_synonym f64 = "64 word"

section \<open>Classification and comparison\<close>

definition f64_mag :: "f64 \<Rightarrow> nat" where
  "f64_mag x = unat x mod 2 ^ 63"

definition f64_neg :: "f64 \<Rightarrow> bool" where
  "f64_neg x \<longleftrightarrow> 2 ^ 63 \<le> unat x"

definition f64_of :: "bool \<Rightarrow> nat \<Rightarrow> f64" where
  "f64_of neg mag = word_of_nat (mag + (if neg then 2 ^ 63 else 0))"

abbreviation inf_mag :: nat where
  "inf_mag \<equiv> 2047 * 2 ^ 52"

definition is_nan :: "f64 \<Rightarrow> bool" where
  "is_nan x \<longleftrightarrow> inf_mag < f64_mag x"

definition is_infinite :: "f64 \<Rightarrow> bool" where
  "is_infinite x \<longleftrightarrow> f64_mag x = inf_mag"

definition f64_nan :: f64 where
  "f64_nan = f64_of False (inf_mag + 2 ^ 51)"

definition f64_infinity :: f64 where
  "f64_infinity = f64_of False inf_mag"

definition f64_neg_infinity :: f64 where
  "f64_neg_infinity = f64_of True inf_mag"

text \<open>The magnitude's value in units of \<open>2 ^ -1074\<close>: subnormal numbers have exponent field 0.\<close>

definition mag_val :: "nat \<Rightarrow> nat" where
  "mag_val n = (let e = n div 2 ^ 52; m = n mod 2 ^ 52 in
     if e = 0 then m else (2 ^ 52 + m) * 2 ^ (e - 1))"

definition f64_val :: "f64 \<Rightarrow> int" where
  "f64_val x = (if f64_neg x then - int (mag_val (f64_mag x)) else int (mag_val (f64_mag x)))"

definition f64_lt :: "f64 \<Rightarrow> f64 \<Rightarrow> bool" where
  "f64_lt x y \<longleftrightarrow> \<not> is_nan x \<and> \<not> is_nan y \<and> f64_val x < f64_val y"

definition f64_le :: "f64 \<Rightarrow> f64 \<Rightarrow> bool" where
  "f64_le x y \<longleftrightarrow> \<not> is_nan x \<and> \<not> is_nan y \<and> f64_val x \<le> f64_val y"

definition f64_eq :: "f64 \<Rightarrow> f64 \<Rightarrow> bool" where
  "f64_eq x y \<longleftrightarrow> \<not> is_nan x \<and> \<not> is_nan y \<and> f64_val x = f64_val y"

section \<open>Rounding and arithmetic\<close>

fun bitlen :: "nat \<Rightarrow> nat" where
  "bitlen n = (if n = 0 then 0 else Suc (bitlen (n div 2)))"

declare bitlen.simps [simp del]

text \<open>
  The magnitude nearest to \<open>a / b\<close> units, ties to even. The quotient is scaled down by \<open>2 ^ k\<close> to
  53 bits; since a significand \<open>q\<close> of exponent field \<open>k + 1\<close> has the bits \<open>k * 2 ^ 52 + q\<close>, also for
  a subnormal \<open>q\<close> at \<open>k = 0\<close> and for the carry \<open>q = 2 ^ 53\<close>, no case needs a branch of its own.
\<close>

definition round_ratio :: "nat \<Rightarrow> nat \<Rightarrow> nat" where
  "round_ratio a b =
     (let k = bitlen (a div b) - 53;
          d = b * 2 ^ k;
          q = a div d;
          r = a mod d;
          q' = (if d < 2 * r \<or> 2 * r = d \<and> odd q then Suc q else q)
      in min inf_mag (k * 2 ^ 52 + q'))"

definition f64_minus :: "f64 \<Rightarrow> f64" where
  "f64_minus x = f64_of (\<not> f64_neg x) (f64_mag x)"

definition f64_abs :: "f64 \<Rightarrow> f64" where
  "f64_abs x = f64_of False (f64_mag x)"

definition f64_add :: "f64 \<Rightarrow> f64 \<Rightarrow> f64" where
  "f64_add x y =
     (if is_nan x \<or> is_nan y then f64_nan
      else if is_infinite x then
        (if is_infinite y \<and> f64_neg x \<noteq> f64_neg y then f64_nan else x)
      else if is_infinite y then y
      else let v = f64_val x + f64_val y in
        if v = 0 then f64_of (f64_neg x \<and> f64_neg y) 0
        else f64_of (v < 0) (round_ratio (nat \<bar>v\<bar>) 1))"

definition f64_sub :: "f64 \<Rightarrow> f64 \<Rightarrow> f64" where
  "f64_sub x y = f64_add x (f64_minus y)"

definition f64_mul :: "f64 \<Rightarrow> f64 \<Rightarrow> f64" where
  "f64_mul x y =
     (let neg = (f64_neg x \<noteq> f64_neg y) in
      if is_nan x \<or> is_nan y then f64_nan
      else if is_infinite x \<or> is_infinite y then
        (if f64_mag x = 0 \<or> f64_mag y = 0 then f64_nan else f64_of neg inf_mag)
      else f64_of neg (round_ratio (mag_val (f64_mag x) * mag_val (f64_mag y)) (2 ^ 1074)))"

definition f64_max :: "f64 \<Rightarrow> f64 \<Rightarrow> f64" where
  "f64_max x y = (if is_nan x then y else if is_nan y then x else if f64_lt x y then y else x)"

definition f64_zero :: f64 where
  "f64_zero = 0"

definition f64_one :: f64 where
  "f64_one = f64_of False (1023 * 2 ^ 52)"

text \<open>\<open>f64::EPSILON\<close>, which is \<open>2 ^ -52\<close>.\<close>

definition f64_epsilon :: f64 where
  "f64_epsilon = f64_of False (971 * 2 ^ 52)"

section \<open>Parsing\<close>

fun take_digits :: "bytes \<Rightarrow> bytes \<times> bytes" where
  "take_digits [] = ([], [])"
| "take_digits (c # cs) =
     (if digit_val c = None then ([], c # cs)
      else case take_digits cs of (ds, rest) \<Rightarrow> (c # ds, rest))"

definition dec_val :: "bytes \<Rightarrow> nat" where
  "dec_val ds = (case digits_val 0 ds of None \<Rightarrow> 0 | Some n \<Rightarrow> n)"

text \<open>\<open>[eE][+-]?Digit+\<close> up to the end of the text, or nothing.\<close>

definition parse_exponent :: "bytes \<Rightarrow> int option" where
  "parse_exponent bs =
     (case bs of
        [] \<Rightarrow> Some 0
      | c # cs \<Rightarrow>
          if c = CHR ''e'' \<or> c = CHR ''E'' then
            (let neg = (case cs of d # _ \<Rightarrow> d = CHR ''-'' | [] \<Rightarrow> False);
                 ds = (case cs of d # ds \<Rightarrow> if d = CHR ''-'' \<or> d = CHR ''+'' then ds else cs | [] \<Rightarrow> [])
             in case parse_nat ds of None \<Rightarrow> None | Some n \<Rightarrow> Some (if neg then - int n else int n))
          else None)"

definition parse_unsigned_f64 :: "bytes \<Rightarrow> nat option" where
  "parse_unsigned_f64 bs =
     (if map to_ascii_upper bs = ''INF'' \<or> map to_ascii_upper bs = ''INFINITY'' then Some inf_mag
      else if map to_ascii_upper bs = ''NAN'' then Some (inf_mag + 2 ^ 51)
      else case take_digits bs of (ip, r) \<Rightarrow>
        (case (case r of c # cs \<Rightarrow> if c = CHR ''.'' then take_digits cs else ([], r) | [] \<Rightarrow> ([], []))
         of (fp, r') \<Rightarrow>
           if ip = [] \<and> fp = [] then None
           else case parse_exponent r' of
             None \<Rightarrow> None
           | Some e \<Rightarrow>
               (let d = dec_val (ip @ fp); x = e - int (length fp) in
                Some (if 0 \<le> x then round_ratio (d * 10 ^ nat x * 2 ^ 1074) 1
                      else round_ratio (d * 2 ^ 1074) (10 ^ nat (- x))))))"

definition parse_f64 :: "bytes \<Rightarrow> f64 option" where
  "parse_f64 bs =
     (case bs of
        [] \<Rightarrow> None
      | c # cs \<Rightarrow>
          if c = CHR ''-'' then map_option (f64_of True) (parse_unsigned_f64 cs)
          else if c = CHR ''+'' then map_option (f64_of False) (parse_unsigned_f64 cs)
          else map_option (f64_of False) (parse_unsigned_f64 bs))"

section \<open>Facts\<close>

lemma f64_mag_less: "f64_mag x < 2 ^ 63"
  by (simp add: f64_mag_def)

lemma unat_f64: "unat x = f64_mag x + (if f64_neg x then 2 ^ 63 else 0)" for x :: f64
proof -
  have "unat x < 2 * 2 ^ 63" using unsigned_less [of x, where ?'a = nat] by simp
  then show ?thesis
    by (auto simp: f64_mag_def f64_neg_def mod_if le_mod_geq)
qed

lemma f64_eqI: "f64_mag x = f64_mag y \<Longrightarrow> f64_neg x = f64_neg y \<Longrightarrow> x = y"
  by (metis unat_f64 word_unat_eq_iff)

lemma unat_f64_of: "mag < 2 ^ 63 \<Longrightarrow> unat (f64_of neg mag) = mag + (if neg then 2 ^ 63 else 0)"
  unfolding f64_of_def by (subst unsigned_of_nat) (auto simp: take_bit_nat_eq_self_iff)

lemma f64_of_simps [simp]:
  assumes "mag < 2 ^ 63"
  shows "f64_mag (f64_of neg mag) = mag" and "f64_neg (f64_of neg mag) = neg"
  using assms by (simp_all add: f64_mag_def f64_neg_def unat_f64_of)

lemma mag_val_mono:
  assumes "a < b"
  shows "mag_val a < mag_val b"
proof -
  let ?e = "\<lambda>n. n div 2 ^ 52" and ?m = "\<lambda>n. n mod 2 ^ 52 :: nat"
  have split: "n = ?e n * 2 ^ 52 + ?m n" for n by simp
  have m: "?m n < 2 ^ 52" for n by simp
  show ?thesis
  proof (cases "?e a = ?e b")
    case True
    with assms split [of a] split [of b] have "?m a < ?m b"
      by (metis add_less_cancel_left)
    with True assms show ?thesis by (simp add: mag_val_def Let_def)
  next
    case False
    then have e: "Suc (?e a) \<le> ?e b"
      using div_le_mono [of a b "2 ^ 52"] assms by linarith
    have "mag_val a < 2 ^ 52 * 2 ^ ?e a"
    proof (cases "?e a")
      case (Suc k)
      have "(2 ^ 52 + ?m a) * 2 ^ k < (2 ^ 52 + 2 ^ 52) * 2 ^ k"
        using m [of a] by (intro mult_strict_right_mono) auto
      with Suc show ?thesis by (simp add: mag_val_def Let_def)
    qed (use m [of a] in \<open>simp add: mag_val_def\<close>)
    also have "\<dots> \<le> 2 ^ 52 * 2 ^ (?e b - 1)"
      using e by (intro mult_left_mono power_increasing) auto
    also have "\<dots> \<le> mag_val b"
      using e by (auto simp: mag_val_def Let_def)
    finally show ?thesis .
  qed
qed

lemma mag_val_less_iff [simp]: "mag_val a < mag_val b \<longleftrightarrow> a < b"
  by (metis mag_val_mono not_less_iff_gr_or_eq)

lemma mag_val_eq_iff [simp]: "mag_val a = mag_val b \<longleftrightarrow> a = b"
  by (metis mag_val_mono linorder_neqE_nat order_less_irrefl)

lemma mag_val_0 [simp]: "mag_val 0 = 0"
  by (simp add: mag_val_def)

lemma mag_val_eq_0 [simp]: "mag_val a = 0 \<longleftrightarrow> a = 0"
  by (metis mag_val_0 mag_val_eq_iff)

lemma mag_val_pos [simp]: "0 < mag_val a \<longleftrightarrow> 0 < a"
  by (metis mag_val_0 mag_val_less_iff)

lemma f64_lt_total: "\<not> is_nan x \<Longrightarrow> \<not> is_nan y \<Longrightarrow> f64_lt x y \<or> f64_eq x y \<or> f64_lt y x"
  by (auto simp: f64_lt_def f64_eq_def)

lemma f64_eq_cases:
  assumes "f64_eq x y"
  shows "x = y \<or> f64_mag x = 0 \<and> f64_mag y = 0"
proof -
  from assms have "f64_val x = f64_val y" by (simp add: f64_eq_def)
  then have "f64_neg x = f64_neg y \<and> mag_val (f64_mag x) = mag_val (f64_mag y)
      \<or> mag_val (f64_mag x) = 0 \<and> mag_val (f64_mag y) = 0"
    by (auto simp only: f64_val_def split: if_splits)
  then show ?thesis
    by (auto intro: f64_eqI)
qed

lemma round_ratio_le_inf: "round_ratio a b \<le> inf_mag"
  by (simp add: round_ratio_def Let_def)

lemma round_ratio_mag: "round_ratio a b < 2 ^ 63"
  using round_ratio_le_inf [of a b] by simp

lemma bitlen_bound: "0 < n \<Longrightarrow> 2 ^ (bitlen n - 1) \<le> n"
proof (induction n rule: bitlen.induct)
  case (1 n)
  show ?case
  proof (cases "n div 2 = 0")
    case True
    with "1.prems" have "n = 1" by linarith
    then show ?thesis by (simp add: bitlen.simps)
  next
    case False
    with "1.prems" "1.IH" have "2 ^ (bitlen (n div 2) - 1) \<le> n div 2" by simp
    moreover have "bitlen (n div 2) = Suc (bitlen (n div 2) - 1)"
      using False by (subst (1 2) bitlen.simps) simp
    ultimately have "2 ^ bitlen (n div 2) \<le> n"
      by (metis (no_types, opaque_lifting) dual_order.trans mult_le_mono2 power_Suc times_div_less_eq_dividend)
    then show ?thesis using "1.prems" by (simp add: bitlen.simps [of n])
  qed
qed

text \<open>A ratio of at least one unit does not round to zero.\<close>

lemma round_ratio_pos:
  assumes "0 < a div b"
  shows "0 < round_ratio a b"
proof -
  let ?k = "bitlen (a div b) - 53"
  have "2 ^ ?k \<le> a div b"
    using bitlen_bound [OF assms] by (rule order_trans [rotated]) (simp add: power_increasing)
  moreover from assms have "0 < b" by (cases b) auto
  ultimately have "0 < a div (b * 2 ^ ?k)"
    by (simp add: div_mult2_eq div_greater_zero_iff)
  then show ?thesis by (auto simp: round_ratio_def Let_def)
qed

end
