(* ===== verification/Redis_ZSet.thy ===== *)
theory Redis_ZSet
  imports Rust_F64 Adt_Interfaces
begin

unbundle bit_operations_syntax

text \<open>
  The sorted set of \<open>src/storage/zset.rs\<close>: a \<open>HashMap\<close> from members to scores beside a \<open>BTreeMap\<close>
  whose keys order the members by score. The \<open>BTreeMap<ScoreKey, ()>\<close> is the strictly ascending
  list of its keys. The abstract values are the finite map of \<open>scores\<close> and the ascending list
  \<open>all_with_scores\<close>; the invariant \<open>zset_inv\<close> says that the two indexes hold the same pairs.
\<close>

section \<open>Scores\<close>

definition encode_score :: "f64 \<Rightarrow> 64 word" where
  "encode_score score =
     (let bits = score in
      if drop_bit 63 bits = 0 then bits OR push_bit 63 1 else NOT bits)"

definition decode_score :: "64 word \<Rightarrow> f64" where
  "decode_score enc =
     (let bits = (if drop_bit 63 enc \<noteq> 0 then enc XOR push_bit 63 1 else NOT enc) in bits)"

datatype score_key = ScoreKey (encoded: "64 word") (member: bytes)

text \<open>The derived order compares the fields in the order of their declaration.\<close>

instantiation score_key :: linorder
begin

definition less_eq_score_key :: "score_key \<Rightarrow> score_key \<Rightarrow> bool" where
  "less_eq_score_key a b \<longleftrightarrow> encoded a < encoded b \<or> encoded a = encoded b \<and> member a \<le> member b"

definition less_score_key :: "score_key \<Rightarrow> score_key \<Rightarrow> bool" where
  "less_score_key a b \<longleftrightarrow> encoded a < encoded b \<or> encoded a = encoded b \<and> member a < member b"

instance
  by standard (auto simp: less_eq_score_key_def less_score_key_def intro: score_key.expand)

end

definition score_key_new :: "f64 \<Rightarrow> bytes \<Rightarrow> score_key" where
  "score_key_new score m = ScoreKey (encode_score score) m"

definition score_of :: "score_key \<Rightarrow> f64" where
  "score_of k = decode_score (encoded k)"

datatype score_bound = NegInf | PosInf | Inclusive f64 | Exclusive f64

definition score_bound_parse :: "bytes \<Rightarrow> score_bound option" where
  "score_bound_parse s =
     (if s = ''-inf'' then Some NegInf
      else if s = ''+inf'' \<or> s = ''inf'' then Some PosInf
      else if s \<noteq> [] \<and> hd s = CHR ''('' then map_option Exclusive (parse_f64 (tl s))
      else map_option Inclusive (parse_f64 s))"

fun satisfies_lower :: "score_bound \<Rightarrow> f64 \<Rightarrow> bool" where
  "satisfies_lower NegInf score \<longleftrightarrow> True"
| "satisfies_lower PosInf score \<longleftrightarrow> f64_eq score f64_infinity"
| "satisfies_lower (Inclusive mn) score \<longleftrightarrow> f64_le mn score"
| "satisfies_lower (Exclusive mn) score \<longleftrightarrow> f64_lt mn score"

fun satisfies_upper :: "score_bound \<Rightarrow> f64 \<Rightarrow> bool" where
  "satisfies_upper PosInf score \<longleftrightarrow> True"
| "satisfies_upper NegInf score \<longleftrightarrow> f64_eq score f64_neg_infinity"
| "satisfies_upper (Inclusive mx) score \<longleftrightarrow> f64_le score mx"
| "satisfies_upper (Exclusive mx) score \<longleftrightarrow> f64_lt score mx"

section \<open>The sorted set\<close>

text \<open>\<open>BTreeMap::insert\<close> and \<open>BTreeMap::remove\<close> on the ascending list of keys.\<close>

fun bt_insert :: "'a :: linorder \<Rightarrow> 'a list \<Rightarrow> 'a list" where
  "bt_insert k [] = [k]"
| "bt_insert k (x # xs) =
     (if k < x then k # x # xs else if k = x then x # xs else x # bt_insert k xs)"

definition bt_remove :: "'a \<Rightarrow> 'a list \<Rightarrow> 'a list" where
  "bt_remove k xs = filter (\<lambda>x. x \<noteq> k) xs"

record zset =
  scores :: "(bytes \<times> f64) list"
  by_score :: "score_key list"

definition zset_new :: zset where
  "zset_new = \<lparr>scores = [], by_score = []\<rparr>"

definition zset_len :: "zset \<Rightarrow> usize" where
  "zset_len z = length (scores z)"

definition zset_is_empty :: "zset \<Rightarrow> bool" where
  "zset_is_empty z \<longleftrightarrow> scores z = []"

definition zadd ::
  "f64 \<Rightarrow> bytes \<Rightarrow> bool \<Rightarrow> bool \<Rightarrow> bool \<Rightarrow> bool \<Rightarrow> zset \<Rightarrow> (usize \<times> usize) \<times> zset" where
  "zadd score m nx xx gt lt z =
     (if is_nan score then ((0, 0), z)
      else case map_of (scores z) m of
        Some old \<Rightarrow>
          if nx then ((0, 0), z)
          else let new_score =
                 (if gt then (if f64_lt old score then score else old)
                  else if lt then (if f64_lt score old then score else old)
                  else score)
               in if f64_lt (f64_abs (f64_sub new_score old))
                       (f64_mul f64_epsilon (f64_max (f64_abs old) f64_one))
                     \<and> f64_eq new_score old
                  then ((0, 0), z)
                  else ((0, 1),
                    z\<lparr>scores := AList.update m new_score (scores z),
                      by_score := bt_insert (score_key_new new_score m)
                        (bt_remove (score_key_new old m) (by_score z))\<rparr>)
      | None \<Rightarrow>
          if xx then ((0, 0), z)
          else ((1, 1),
            z\<lparr>scores := AList.update m score (scores z),
              by_score := bt_insert (score_key_new score m) (by_score z)\<rparr>))"

definition zscore :: "zset \<Rightarrow> bytes \<Rightarrow> f64 option" where
  "zscore z m = map_of (scores z) m"

text \<open>The subtraction cannot go below zero: the member's own key is counted (\<open>zrank_pos\<close>).\<close>

definition zrank :: "zset \<Rightarrow> bytes \<Rightarrow> usize option" where
  "zrank z m =
     (case map_of (scores z) m of
        None \<Rightarrow> None
      | Some score \<Rightarrow>
          (let key = score_key_new score m in
           Some (length (filter (\<lambda>k. k \<le> key) (by_score z)) - 1)))"

definition zrevrank :: "zset \<Rightarrow> bytes \<Rightarrow> usize option" where
  "zrevrank z m =
     (case zrank z m of None \<Rightarrow> None | Some rank \<Rightarrow> Some (zset_len z - 1 - rank))"

definition zincrby :: "f64 \<Rightarrow> bytes \<Rightarrow> zset \<Rightarrow> f64 \<times> zset" where
  "zincrby delta m z =
     (let old = (case map_of (scores z) m of Some s \<Rightarrow> s | None \<Rightarrow> f64_zero);
          new_score = f64_add old delta;
          tree = (if map_of (scores z) m \<noteq> None
                  then bt_remove (score_key_new old m) (by_score z) else by_score z)
      in (new_score,
          z\<lparr>scores := AList.update m new_score (scores z),
            by_score := bt_insert (score_key_new new_score m) tree\<rparr>))"

text \<open>The body both removal loops share: \<open>scores.remove\<close>, then the key of the old score.\<close>

definition zrem_one :: "bytes \<Rightarrow> zset \<Rightarrow> bool \<times> zset" where
  "zrem_one m z =
     (case map_of (scores z) m of
        Some score \<Rightarrow>
          (True, z\<lparr>scores := AList.delete m (scores z),
                   by_score := bt_remove (score_key_new score m) (by_score z)\<rparr>)
      | None \<Rightarrow> (False, z))"

fun zrem :: "bytes list \<Rightarrow> zset \<Rightarrow> usize \<times> zset" where
  "zrem [] z = (0, z)"
| "zrem (m # ms) z =
     (case zrem_one m z of (found, z') \<Rightarrow>
        (case zrem ms z' of (n, z'') \<Rightarrow> ((if found then 1 else 0) + n, z'')))"

definition zrange_by_rank :: "i64 \<Rightarrow> i64 \<Rightarrow> bool \<Rightarrow> zset \<Rightarrow> (bytes \<times> f64) list" where
  "zrange_by_rank start stop reverse z =
     (let len = int (zset_len z);
          s = nat (max (if start < 0 then i64_wrap (len + start) else start) 0);
          e = nat (max (min (if stop < 0 then i64_wrap (i64_wrap (len + stop) + 1)
                             else i64_wrap (stop + 1)) len) 0)
      in if e \<le> s then []
         else let items = map (\<lambda>k. (member k, score_of k)) (take (e - s) (drop s (by_score z)))
              in if reverse then rev items else items)"

definition in_bounds :: "score_bound \<Rightarrow> score_bound \<Rightarrow> score_key \<Rightarrow> bool" where
  "in_bounds mn mx k \<longleftrightarrow> (let s = score_of k in satisfies_lower mn s \<and> satisfies_upper mx s)"

definition zrangebyscore ::
  "score_bound \<Rightarrow> score_bound \<Rightarrow> usize \<Rightarrow> usize option \<Rightarrow> bool \<Rightarrow> zset \<Rightarrow> (bytes \<times> f64) list" where
  "zrangebyscore mn mx offset limit reverse z =
     (let items = map (\<lambda>k. (member k, score_of k)) (filter (in_bounds mn mx) (by_score z));
          items = (if reverse then rev items else items);
          items = drop offset items
      in case limit of Some n \<Rightarrow> take n items | None \<Rightarrow> items)"

definition zcount :: "score_bound \<Rightarrow> score_bound \<Rightarrow> zset \<Rightarrow> usize" where
  "zcount mn mx z = length (filter (in_bounds mn mx) (by_score z))"

text \<open>One round of the loops of \<open>zpopmin\<close> and \<open>zpopmax\<close> on the first and on the last key.\<close>

definition zpop_key :: "score_key \<Rightarrow> zset \<Rightarrow> (bytes \<times> f64) option \<times> zset" where
  "zpop_key key z =
     (Some (member key, score_of key),
      z\<lparr>by_score := bt_remove key (by_score z), scores := AList.delete (member key) (scores z)\<rparr>)"

definition zpopmin_one :: "zset \<Rightarrow> (bytes \<times> f64) option \<times> zset" where
  "zpopmin_one z = (if by_score z = [] then (None, z) else zpop_key (hd (by_score z)) z)"

definition zpopmax_one :: "zset \<Rightarrow> (bytes \<times> f64) option \<times> zset" where
  "zpopmax_one z = (if by_score z = [] then (None, z) else zpop_key (last (by_score z)) z)"

definition zpopmin :: "usize \<Rightarrow> zset \<Rightarrow> (bytes \<times> f64) list \<times> zset" where
  "zpopmin cnt z = pop_n zpopmin_one cnt z"

definition zpopmax :: "usize \<Rightarrow> zset \<Rightarrow> (bytes \<times> f64) list \<times> zset" where
  "zpopmax cnt z = pop_n zpopmax_one cnt z"

definition zremrangebyrank :: "i64 \<Rightarrow> i64 \<Rightarrow> zset \<Rightarrow> usize \<times> zset" where
  "zremrangebyrank start stop z = zrem (map fst (zrange_by_rank start stop False z)) z"

definition zremrangebyscore :: "score_bound \<Rightarrow> score_bound \<Rightarrow> zset \<Rightarrow> usize \<times> zset" where
  "zremrangebyscore mn mx z =
     (let to_remove = map member (filter (in_bounds mn mx) (by_score z));
          cnt = length to_remove
      in (cnt, fold (\<lambda>m z. snd (zrem_one m z)) to_remove z))"

definition all_with_scores :: "zset \<Rightarrow> (bytes \<times> f64) list" where
  "all_with_scores z = map (\<lambda>k. (member k, score_of k)) (by_score z)"

text \<open>The two indexes hold the same pairs, each member once.\<close>

definition zset_inv :: "zset \<Rightarrow> bool" where
  "zset_inv z \<longleftrightarrow> distinct (map fst (scores z)) \<and> sorted_wrt (<) (by_score z) \<and>
     set (by_score z) = (\<lambda>(m, s). score_key_new s m) ` set (scores z)"

definition zset_nan_free :: "zset \<Rightarrow> bool" where
  "zset_nan_free z \<longleftrightarrow> (\<forall>(m, s) \<in> set (scores z). \<not> is_nan s)"

section \<open>The encoding of scores\<close>

lemma drop_bit_63: "drop_bit 63 w = 0 \<longleftrightarrow> \<not> f64_neg w" for w :: f64
proof -
  have "unat (drop_bit 63 w) = unat w div 2 ^ 63"
    by (simp only: drop_bit_eq_div unat_div unsigned_drop_bit_eq) (simp add: drop_bit_eq_div unat_div)
  moreover have "drop_bit 63 w = 0 \<longleftrightarrow> unat (drop_bit 63 w) = 0"
    by (simp only: unsigned_eq_0_iff)
  ultimately have "drop_bit 63 w = 0 \<longleftrightarrow> unat w div 2 ^ 63 = 0" by metis
  also have "\<dots> \<longleftrightarrow> unat w < 2 ^ 63" by (simp add: div_eq_0_iff)
  finally show ?thesis by (auto simp: f64_neg_def)
qed

lemma unat_NOT: "unat (NOT w) = 2 ^ 64 - 1 - unat w" for w :: f64
proof -
  have "NOT w = - 1 - w" by (simp add: not_eq_complement)
  moreover have "unat (- 1 - w) = unat (- 1 :: f64) - unat w"
    by (rule unat_sub) simp
  moreover have "unat (- 1 :: f64) = 2 ^ 64 - 1"
    by (simp add: unsigned_minus_1_eq_mask mask_eq_exp_minus_1)
  ultimately show ?thesis by simp
qed

lemma bit_63: "bit w 63 \<longleftrightarrow> f64_neg w" for w :: f64
proof -
  have "bit w 63 \<longleftrightarrow> bit (unat w) 63" by (simp add: bit_unsigned_iff)
  also have "\<dots> \<longleftrightarrow> odd (unat w div 2 ^ 63)" by (simp only: bit_iff_odd)
  also have "unat w div 2 ^ 63 = (if f64_neg w then 1 else 0)"
    using f64_mag_less [of w] by (simp only: unat_f64 split: if_split) (simp add: div_add_self2)
  finally show ?thesis by simp
qed

text \<open>The constant \<open>1u64 << 63\<close> has one bit.\<close>

lemma bit_sign_mask: "bit (push_bit 63 1 :: f64) n \<longleftrightarrow> n = 63"
  by (simp only: bit_push_bit_iff bit_1_iff possible_bit_word) auto

lemma sign_bit_algebra:
  fixes w s :: f64
  assumes "\<And>n. bit s n \<longleftrightarrow> n = 63"
  shows "\<not> f64_neg w \<Longrightarrow> w AND s = 0"
    and "\<not> f64_neg w \<Longrightarrow> (w OR s) XOR s = w"
    and "f64_neg w \<Longrightarrow> (w XOR s) OR s = w"
    and "f64_neg w \<Longrightarrow> \<not> f64_neg (w XOR s)"
  using assms by (auto simp: bit_63 [symmetric] bit_simps intro!: bit_eqI)

lemmas sign_mask = sign_bit_algebra [OF bit_sign_mask]

lemma unat_OR_sign: "\<not> f64_neg w \<Longrightarrow> unat (w OR push_bit 63 1) = unat w + 2 ^ 63" for w :: f64
proof -
  assume nn: "\<not> f64_neg w"
  have "w OR push_bit 63 1 = w + push_bit 63 1"
    using disjunctive_add_eq_or [OF sign_mask(1) [OF nn]] by (rule sym)
  moreover have "unat (push_bit 63 1 :: f64) = 2 ^ 63"
    by (simp add: push_bit_eq_mult)
  moreover have "unat w < 2 ^ 63" using nn by (simp add: f64_neg_def)
  ultimately show ?thesis by (simp add: unat_plus_if')
qed

text \<open>The encoded score as a number: negative scores below \<open>2 ^ 63\<close> in reverse, the others above.\<close>

lemma unat_encode_score:
  "unat (encode_score x) = (if f64_neg x then 2 ^ 63 - 1 - f64_mag x else 2 ^ 63 + f64_mag x)"
proof (cases "f64_neg x")
  case True
  then have "unat (encode_score x) = 2 ^ 64 - 1 - unat x"
    by (simp only: encode_score_def drop_bit_63 Let_def if_False simp_thms unat_NOT)
  with True show ?thesis by (simp add: unat_f64 [of x])
next
  case False
  then have "unat (encode_score x) = unat x + 2 ^ 63"
    by (simp only: encode_score_def drop_bit_63 Let_def if_True simp_thms unat_OR_sign)
  with False show ?thesis by (simp add: unat_f64 [of x])
qed

lemma encode_score_sign: "f64_neg (encode_score x) \<longleftrightarrow> \<not> f64_neg x"
  using f64_mag_less [of x] by (auto simp: f64_neg_def [of "encode_score x"] unat_encode_score)

lemma f64_neg_NOT: "f64_neg (NOT w) \<longleftrightarrow> \<not> f64_neg w"
  by (simp add: bit_63 [symmetric] bit_simps)

lemma decode_encode [simp]: "decode_score (encode_score x) = x"
proof (cases "f64_neg x")
  case True
  then show ?thesis by (simp add: decode_score_def encode_score_def drop_bit_63 f64_neg_NOT)
next
  case False
  moreover from False have "encode_score x = x OR push_bit 63 1"
    by (simp only: encode_score_def drop_bit_63 Let_def if_True simp_thms)
  ultimately show ?thesis
    using encode_score_sign [of x]
    by (simp only: decode_score_def drop_bit_63 Let_def simp_thms if_True sign_mask)
qed

lemma encode_decode [simp]: "encode_score (decode_score e) = e"
proof (cases "f64_neg e")
  case True
  then have "decode_score e = e XOR push_bit 63 1"
    by (simp only: decode_score_def drop_bit_63 Let_def if_True simp_thms)
  with True show ?thesis
    by (simp only: encode_score_def drop_bit_63 Let_def simp_thms if_True sign_mask)
next
  case False
  then show ?thesis by (simp add: decode_score_def encode_score_def drop_bit_63 f64_neg_NOT)
qed

lemma encode_score_eq_iff [simp]: "encode_score x = encode_score y \<longleftrightarrow> x = y"
  by (metis decode_encode)

text \<open>The unsigned order of the encoded scores refines the order of the numbers.\<close>

lemma encode_score_less:
  assumes "f64_lt x y"
  shows "encode_score x < encode_score y"
proof -
  have "f64_val x < f64_val y" using assms by (simp add: f64_lt_def)
  then show ?thesis
    using f64_mag_less [of x] f64_mag_less [of y]
    by (auto simp: word_less_nat_alt unat_encode_score f64_val_def split: if_splits)
qed

lemma encode_score_le:
  assumes "encode_score x \<le> encode_score y" and "\<not> is_nan x" and "\<not> is_nan y"
  shows "f64_le x y"
  using encode_score_less [of y x] assms
  by (auto simp: f64_le_def f64_lt_def not_less [symmetric])

section \<open>The ordered index\<close>

lemma set_bt_insert [simp]: "set (bt_insert k xs) = insert k (set xs)"
  by (induction xs) auto

lemma sorted_bt_insert: "sorted_wrt (<) xs \<Longrightarrow> sorted_wrt (<) (bt_insert k xs)"
  by (induction xs) auto

lemma set_bt_remove [simp]: "set (bt_remove k xs) = set xs - {k}"
  by (auto simp: bt_remove_def)

lemma sorted_bt_remove: "sorted_wrt (<) xs \<Longrightarrow> sorted_wrt (<) (bt_remove k xs)"
  by (simp add: bt_remove_def sorted_wrt_filter)

lemma sorted_lt_distinct: "sorted_wrt (<) xs \<Longrightarrow> distinct (xs :: 'a :: linorder list)"
  by (simp add: strict_sorted_iff)

lemma score_key_new_simps [simp]:
  "member (score_key_new s m) = m" "score_of (score_key_new s m) = s"
  by (simp_all add: score_key_new_def score_of_def)

lemma score_key_eq_iff: "k = score_key_new s m \<longleftrightarrow> member k = m \<and> score_of k = s"
  by (cases k) (auto simp: score_key_new_def score_of_def)

text \<open>The invariant as a law of lookups.\<close>

lemma zset_inv_iff:
  "zset_inv z \<longleftrightarrow> distinct (map fst (scores z)) \<and> sorted_wrt (<) (by_score z) \<and>
     (\<forall>k. k \<in> set (by_score z) \<longleftrightarrow> map_of (scores z) (member k) = Some (score_of k))"
proof -
  have "k \<in> (\<lambda>(m, s). score_key_new s m) ` set (scores z) \<longleftrightarrow> (member k, score_of k) \<in> set (scores z)" for k
    by (auto simp: image_iff score_key_eq_iff Bex_def)
  then show ?thesis
    by (auto simp: zset_inv_def set_eq_iff)
qed

lemma zset_invD:
  assumes "zset_inv z"
  shows "distinct (map fst (scores z))" "sorted_wrt (<) (by_score z)"
    "k \<in> set (by_score z) \<longleftrightarrow> map_of (scores z) (member k) = Some (score_of k)"
  using assms by (auto simp: zset_inv_iff)

lemma zset_inv_new [enc_intros]: "zset_inv zset_new"
  by (simp add: zset_inv_def zset_new_def)

lemma map_of_delete: "map_of (AList.delete k al) = (map_of al)(k := None)"
  by (rule AList.delete_conv')

text \<open>Putting a pair into both indexes after its old key is gone, and removing one.\<close>

lemma zset_inv_put:
  assumes inv: "zset_inv z"
    and tree: "set tree = set (by_score z) - {k. member k = m}" "sorted_wrt (<) tree"
  shows "zset_inv (z\<lparr>scores := AList.update m s (scores z), by_score := bt_insert (score_key_new s m) tree\<rparr>)"
  unfolding zset_inv_iff
  using zset_invD [OF inv] tree
  by (auto simp: distinct_update sorted_bt_insert update_conv' score_key_eq_iff)

lemma old_key_only:
  assumes inv: "zset_inv z"
  shows "map_of (scores z) m = Some old \<Longrightarrow>
      set (bt_remove (score_key_new old m) (by_score z)) = set (by_score z) - {k. member k = m}"
    and "map_of (scores z) m = None \<Longrightarrow> set (by_score z) = set (by_score z) - {k. member k = m}"
  using zset_invD(3) [OF inv] by (auto simp: score_key_eq_iff)

lemma zset_inv_drop:
  assumes inv: "zset_inv z" and m: "map_of (scores z) m = Some s"
  shows "zset_inv (z\<lparr>scores := AList.delete m (scores z), by_score := bt_remove (score_key_new s m) (by_score z)\<rparr>)"
proof -
  have "k \<in> set (by_score z) - {score_key_new s m} \<longleftrightarrow>
      ((map_of (scores z))(m := None)) (member k) = Some (score_of k)" for k
    using m by (auto simp: zset_invD(3) [OF inv] score_key_eq_iff simp del: map_of_eq_Some_iff)
  then show ?thesis
    using zset_invD(1,2) [OF inv]
    by (simp add: zset_inv_iff distinct_delete sorted_bt_remove map_of_delete)
qed

lemma length_by_score:
  assumes "zset_inv z"
  shows "length (by_score z) = zset_len z"
proof -
  have "inj_on (\<lambda>(m, s). score_key_new s m) (set (scores z))"
    by (auto simp: inj_on_def score_key_eq_iff)
  then have "card (set (by_score z)) = card (set (scores z))"
    using assms by (simp add: zset_inv_def card_image)
  moreover have "distinct (by_score z)" "distinct (scores z)"
    using assms by (auto simp: zset_inv_def sorted_lt_distinct distinct_map)
  ultimately show ?thesis by (simp add: distinct_card zset_len_def)
qed

section \<open>The abstract values\<close>

lemma length_all_with_scores [simp]: "zset_inv z \<Longrightarrow> length (all_with_scores z) = zset_len z"
  by (simp add: all_with_scores_def length_by_score)

lemma set_all_with_scores:
  assumes "zset_inv z"
  shows "set (all_with_scores z) = set (scores z)"
  using assms by (force simp: all_with_scores_def zset_inv_def image_iff)

lemma distinct_all_with_scores:
  assumes "zset_inv z"
  shows "distinct (map fst (all_with_scores z))"
proof -
  have "inj_on member (set (by_score z))"
    using assms eq_key_imp_eq_value [of "scores z"]
    by (auto simp: zset_inv_def inj_on_def score_key_eq_iff)
  moreover have "distinct (by_score z)"
    using assms by (simp add: zset_inv_def sorted_lt_distinct)
  ultimately show ?thesis
    by (simp add: all_with_scores_def distinct_map comp_def)
qed

lemma map_of_all_with_scores:
  assumes "zset_inv z"
  shows "map_of (all_with_scores z) = map_of (scores z)"
  using assms by (intro map_of_inject_set [THEN iffD2])
    (auto simp: distinct_all_with_scores set_all_with_scores zset_invD)

text \<open>The list is in the order of the scores, and in the order of the members at one score.\<close>

lemma all_with_scores_sorted:
  assumes inv: "zset_inv z" and nf: "zset_nan_free z"
  shows "sorted_wrt (\<lambda>(m, s) (m', s'). f64_le s s' \<and> (s = s' \<longrightarrow> m < m')) (all_with_scores z)"
proof -
  have nan: "\<not> is_nan (score_of k)" if "k \<in> set (by_score z)" for k
    using that inv nf by (auto simp: zset_inv_def zset_nan_free_def)
  have "f64_le (score_of k) (score_of k') \<and> (score_of k = score_of k' \<longrightarrow> member k < member k')"
    if "k < k'" "\<not> is_nan (score_of k)" "\<not> is_nan (score_of k')" for k k'
  proof -
    have "encoded k = encode_score (score_of k)" for k
      by (simp add: score_of_def)
    with that(1) have "encode_score (score_of k) < encode_score (score_of k')
        \<or> score_of k = score_of k' \<and> member k < member k'"
      by (auto simp: less_score_key_def)
    with that(2,3) show ?thesis by (auto intro: encode_score_le)
  qed
  with nan have "sorted_wrt (\<lambda>k k'. f64_le (score_of k) (score_of k') \<and>
      (score_of k = score_of k' \<longrightarrow> member k < member k')) (by_score z)"
    by (intro sorted_wrt_mono_rel [OF _ zset_invD(2) [OF inv]]) blast
  then show ?thesis
    by (simp add: all_with_scores_def sorted_wrt_map)
qed

section \<open>Adding and removing\<close>

lemma mag_val_one: "mag_val (1023 * 2 ^ 52) = 2 ^ 1074"
proof -
  have "mag_val (1023 * 2 ^ 52) = 2 ^ 52 * 2 ^ 1022" by (simp add: mag_val_def)
  also have "\<dots> = 2 ^ 1074" by (simp only: power_add [symmetric]) simp
  finally show ?thesis .
qed

lemma f64_sub_eq:
  assumes eq: "f64_eq s old" and fin: "\<not> is_infinite old"
  shows "f64_abs (f64_sub s old) = f64_zero"
proof -
  have mag: "f64_mag (f64_minus x) = f64_mag x" and neg: "f64_neg (f64_minus x) = (\<not> f64_neg x)" for x
    by (simp_all add: f64_minus_def f64_of_simps [OF f64_mag_less])
  have "f64_mag s = f64_mag old"
    using f64_eq_cases [OF eq] by auto
  with fin have "\<not> is_infinite s" by (simp add: is_infinite_def)
  moreover have "f64_val s + f64_val (f64_minus old) = 0"
    using eq by (simp add: f64_eq_def f64_val_def [of "f64_minus old"] mag neg) (simp add: f64_val_def)
  ultimately show ?thesis
    using eq fin
    by (simp add: f64_sub_def f64_add_def f64_eq_def is_nan_def is_infinite_def mag f64_abs_def f64_zero_def)
      (simp add: f64_of_def)
qed

lemma tolerance_positive:
  assumes "\<not> is_nan old" and "\<not> is_infinite old"
  shows "f64_lt f64_zero (f64_mul f64_epsilon (f64_max (f64_abs old) f64_one))"
proof -
  let ?m = "f64_max (f64_abs old) f64_one"
  have one: "f64_mag f64_one = 1023 * 2 ^ 52" "\<not> f64_neg f64_one"
    and eps: "f64_mag f64_epsilon = 971 * 2 ^ 52" "\<not> f64_neg f64_epsilon"
    and abs: "f64_mag (f64_abs old) = f64_mag old" "\<not> f64_neg (f64_abs old)"
    by (simp_all add: f64_one_def f64_epsilon_def f64_abs_def f64_of_simps [OF f64_mag_less])
  have m: "1023 * 2 ^ 52 \<le> f64_mag ?m" "f64_mag ?m < inf_mag" "\<not> f64_neg ?m"
    using assms one abs
    by (auto simp: f64_max_def f64_lt_def f64_val_def is_nan_def is_infinite_def)
  let ?a = "mag_val (f64_mag f64_epsilon) * mag_val (f64_mag ?m)"
  have "mag_val (1023 * 2 ^ 52) \<le> mag_val (f64_mag ?m)"
    using m(1) by (simp only: not_less [symmetric] mag_val_less_iff) simp
  then have "1 * 2 ^ 1074 \<le> ?a"
    unfolding mag_val_one using eps by (intro mult_mono) (auto simp: Suc_le_eq zero_less_iff_neq_zero)
  then have "0 < ?a div 2 ^ 1074"
    by (simp only: div_greater_zero_iff) simp
  from round_ratio_pos [OF this] have pos: "0 < round_ratio ?a (2 ^ 1074)" .
  have mul: "f64_mul f64_epsilon ?m = f64_of False (round_ratio ?a (2 ^ 1074))"
    unfolding f64_mul_def Let_def
    using m eps by (simp add: is_nan_def is_infinite_def)
  show ?thesis
    unfolding mul using pos round_ratio_mag [of ?a "2 ^ 1074"] round_ratio_le_inf [of ?a "2 ^ 1074"]
    by (simp add: f64_lt_def f64_val_def is_nan_def f64_zero_def f64_mag_def [of 0] f64_neg_def [of 0])
qed

lemma eq_scores_close:
  assumes "f64_eq s old" and "\<not> is_infinite old"
  shows "f64_lt (f64_abs (f64_sub s old)) (f64_mul f64_epsilon (f64_max (f64_abs old) f64_one))"
  using assms tolerance_positive [of old] by (simp add: f64_sub_eq f64_eq_def)

text \<open>What \<open>ZADD\<close> with its flags makes of the score a member has, and the two counts.\<close>

definition zadd_score :: "f64 \<Rightarrow> bool \<Rightarrow> bool \<Rightarrow> bool \<Rightarrow> bool \<Rightarrow> f64 option \<Rightarrow> f64 option" where
  "zadd_score score nx xx gt lt old =
     (if is_nan score then old
      else case old of
        None \<Rightarrow> if xx then None else Some score
      | Some s \<Rightarrow>
          if nx \<or> gt \<and> \<not> f64_lt s score \<or> \<not> gt \<and> lt \<and> \<not> f64_lt score s then Some s
          else if f64_eq score s then Some s else Some score)"

lemma infinite_eq: "f64_eq x y \<Longrightarrow> is_infinite y \<Longrightarrow> x = y"
  using f64_eq_cases [of x y] by (auto simp: is_infinite_def)

lemma zadd_unchanged_iff:
  "(f64_lt (f64_abs (f64_sub n old)) (f64_mul f64_epsilon (f64_max (f64_abs old) f64_one)) \<and> f64_eq n old)
     = (f64_eq n old \<and> \<not> is_infinite old)"
proof -
  have "is_nan (f64_abs (f64_sub n old))" if "f64_eq n old" "is_infinite old"
    using infinite_eq [OF that] that
    by (auto simp: f64_sub_def f64_add_def f64_minus_def is_infinite_def is_nan_def f64_abs_def
        f64_nan_def f64_of_simps [OF f64_mag_less])
  then show ?thesis using eq_scores_close [of n old] by (auto simp: f64_lt_def)
qed

lemma zset_inv_zadd [enc_intros]:
  assumes "zset_inv z"
  shows "zset_inv (snd (zadd score m nx xx gt lt z))"
proof (cases "map_of (scores z) m")
  case None
  have "zset_inv (z\<lparr>scores := AList.update m score (scores z),
              by_score := bt_insert (score_key_new score m) (by_score z)\<rparr>)"
    using assms None by (intro zset_inv_put old_key_only zset_invD)
  with assms None show ?thesis by (simp add: zadd_def)
next
  case (Some old)
  have "zset_inv (z\<lparr>scores := AList.update m s (scores z),
              by_score := bt_insert (score_key_new s m) (bt_remove (score_key_new old m) (by_score z))\<rparr>)" for s
    using assms Some by (intro zset_inv_put old_key_only sorted_bt_remove zset_invD)
  with assms Some show ?thesis by (simp add: zadd_def Let_def)
qed

lemma zadd_scores:
  "zscore (snd (zadd score m nx xx gt lt z)) =
     (zscore z)(m := zadd_score score nx xx gt lt (zscore z m))"
proof (cases "map_of (scores z) m")
  case None
  then show ?thesis
    by (simp add: zadd_def zadd_score_def zscore_def update_conv' fun_eq_iff)
next
  case (Some old)
  let ?n = "if gt then (if f64_lt old score then score else old)
    else if lt then (if f64_lt score old then score else old) else score"
  let ?kept = "is_nan score \<or> nx \<or> f64_eq ?n old \<and> \<not> is_infinite old"
  have "zscore (snd (zadd score m nx xx gt lt z)) = (if ?kept then zscore z else (zscore z)(m \<mapsto> ?n))"
    unfolding zadd_def zadd_unchanged_iff zscore_def Let_def Some by (simp add: update_conv')
  moreover have "zadd_score score nx xx gt lt (Some old) = Some (if ?kept then old else ?n)"
    unfolding zadd_score_def using infinite_eq [of score old] by (simp add: f64_eq_def) blast
  moreover have "(zscore z)(m \<mapsto> old) = zscore z"
    using Some by (simp add: zscore_def map_upd_triv)
  ultimately show ?thesis
    using Some by (simp add: zscore_def)
qed

lemma zscore_fun: "zscore z = map_of (scores z)"
  by (simp add: zscore_def fun_eq_iff)

lemma zset_len_dom:
  assumes "zset_inv z"
  shows "zset_len z = card (dom (zscore z))"
proof -
  have "card (set (map fst (scores z))) = length (map fst (scores z))"
    by (intro distinct_card zset_invD assms)
  then show ?thesis
    by (simp add: zset_len_def zscore_fun dom_map_of_conv_image_fst)
qed

text \<open>The first count of \<open>ZADD\<close> is the growth of the set, and the second includes it.\<close>

lemma zadd_counts:
  "zset_len (snd (zadd score m nx xx gt lt z)) = zset_len z + fst (fst (zadd score m nx xx gt lt z))"
  "fst (fst (zadd score m nx xx gt lt z)) \<le> snd (fst (zadd score m nx xx gt lt z))"
  "snd (fst (zadd score m nx xx gt lt z)) \<le> 1"
proof -
  show "zset_len (snd (zadd score m nx xx gt lt z)) = zset_len z + fst (fst (zadd score m nx xx gt lt z))"
    by (cases "map_of (scores z) m") (simp_all add: zadd_def zset_len_def length_update Let_def)
  show "fst (fst (zadd score m nx xx gt lt z)) \<le> snd (fst (zadd score m nx xx gt lt z))"
    "snd (fst (zadd score m nx xx gt lt z)) \<le> 1"
    by (cases "map_of (scores z) m"; simp add: zadd_def Let_def)+
qed

lemma zset_inv_zincrby [enc_intros]:
  assumes "zset_inv z"
  shows "zset_inv (snd (zincrby delta m z))"
proof (cases "map_of (scores z) m")
  case None
  then show ?thesis
    using zset_inv_put [OF assms old_key_only(2) [OF assms None] zset_invD(2) [OF assms]]
    by (simp add: zincrby_def Let_def)
next
  case (Some old)
  then show ?thesis
    using zset_inv_put [OF assms old_key_only(1) [OF assms Some] sorted_bt_remove [OF zset_invD(2) [OF assms]]]
    by (simp add: zincrby_def Let_def del: map_of_eq_Some_iff set_bt_remove)
qed

lemma zincrby_scores:
  "zscore (snd (zincrby delta m z)) = (zscore z)(m \<mapsto> fst (zincrby delta m z))"
  by (simp add: zincrby_def zscore_fun Let_def update_conv')

lemma zrem_one_spec:
  assumes "zset_inv z"
  shows "zset_inv (snd (zrem_one m z))" "zscore (snd (zrem_one m z)) = (zscore z)(m := None)"
    "fst (zrem_one m z) \<longleftrightarrow> zscore z m \<noteq> None"
    "by_score (snd (zrem_one m z)) = filter (\<lambda>k. member k \<noteq> m) (by_score z)"
proof -
  show "zset_inv (snd (zrem_one m z))"
    using assms zset_inv_drop [OF assms, of m] by (auto simp: zrem_one_def split: option.split)
  show "zscore (snd (zrem_one m z)) = (zscore z)(m := None)" "fst (zrem_one m z) \<longleftrightarrow> zscore z m \<noteq> None"
    by (auto simp: zrem_one_def zscore_def map_of_delete fun_eq_iff split: option.split)
  show "by_score (snd (zrem_one m z)) = filter (\<lambda>k. member k \<noteq> m) (by_score z)"
  proof (cases "map_of (scores z) m")
    case None
    then have "member k \<noteq> m" if "k \<in> set (by_score z)" for k
      using zset_invD(3) [OF assms, of k] that by auto
    with None show ?thesis by (simp add: zrem_one_def filter_id_conv)
  next
    case (Some s)
    then have "k \<noteq> score_key_new s m \<longleftrightarrow> member k \<noteq> m" if "k \<in> set (by_score z)" for k
      using zset_invD(3) [OF assms, of k] that by (auto simp: score_key_eq_iff simp del: map_of_eq_Some_iff)
    with Some show ?thesis by (simp add: zrem_one_def bt_remove_def cong: filter_cong)
  qed
qed

lemma zrem_all_spec:
  fixes ms z
  assumes "zset_inv z"
  defines "z' \<equiv> fold (\<lambda>m z. snd (zrem_one m z)) ms z"
  shows "zset_inv z'" "zscore z' = zscore z |` (- set ms)"
    "by_score z' = filter (\<lambda>k. member k \<notin> set ms) (by_score z)"
proof -
  have "zset_inv z \<Longrightarrow> zset_inv (fold (\<lambda>m z. snd (zrem_one m z)) ms z) \<and>
      zscore (fold (\<lambda>m z. snd (zrem_one m z)) ms z) = zscore z |` (- set ms) \<and>
      by_score (fold (\<lambda>m z. snd (zrem_one m z)) ms z) = filter (\<lambda>k. member k \<notin> set ms) (by_score z)"
  proof (induction ms arbitrary: z)
    case (Cons m ms)
    have "zset_inv (snd (zrem_one m z))" by (rule zrem_one_spec) (rule Cons.prems)
    from Cons.IH [OF this] show ?case
      by (auto simp: zrem_one_spec [OF Cons.prems] restrict_map_def fun_eq_iff intro: filter_cong)
  qed (simp add: restrict_map_def)
  with assms show "zset_inv z'" "zscore z' = zscore z |` (- set ms)"
    "by_score z' = filter (\<lambda>k. member k \<notin> set ms) (by_score z)" by auto
qed

lemma snd_zrem: "snd (zrem ms z) = fold (\<lambda>m z. snd (zrem_one m z)) ms z"
  by (induction ms arbitrary: z) (auto simp: split_def)

lemma zrem_count:
  "zset_inv z \<Longrightarrow> zset_len z = fst (zrem ms z) + zset_len (snd (zrem ms z))"
proof (induction ms arbitrary: z)
  case (Cons m ms)
  let ?z = "snd (zrem_one m z)"
  have "zset_len ?z = fst (zrem ms ?z) + zset_len (snd (zrem ms ?z))"
    by (rule Cons.IH) (rule zrem_one_spec(1) [OF Cons.prems])
  moreover have "zset_len z = (if fst (zrem_one m z) then 1 else 0) + zset_len ?z"
    using length_delete [OF zset_invD(1) [OF Cons.prems], of m]
    by (auto simp: zrem_one_def zset_len_def split: option.splits)
  ultimately show ?case by (simp add: split_def)
qed simp

section \<open>Ranks\<close>

lemma filter_le_nth:
  fixes xs :: "'a :: linorder list"
  assumes "sorted_wrt (<) xs" and "i < length xs"
  shows "filter (\<lambda>x. x \<le> xs ! i) xs = take (Suc i) xs"
proof -
  have "x \<le> xs ! i" if "x \<in> set (take (Suc i) xs)" for x
    using that assms by (auto simp: in_set_conv_nth less_Suc_eq sorted_wrt_iff_nth_less intro: less_imp_le)
  moreover have "xs ! i < x" if "x \<in> set (drop (Suc i) xs)" for x
    using that assms by (auto simp: in_set_conv_nth sorted_wrt_iff_nth_less)
  ultimately have "filter (\<lambda>x. x \<le> xs ! i) (take (Suc i) xs) = take (Suc i) xs"
    "filter (\<lambda>x. x \<le> xs ! i) (drop (Suc i) xs) = []"
    by (auto simp: filter_id_conv filter_empty_conv not_le)
  then have "filter (\<lambda>x. x \<le> xs ! i) (take (Suc i) xs @ drop (Suc i) xs) = take (Suc i) xs"
    by (simp only: filter_append append_Nil2)
  then show ?thesis by (simp only: append_take_drop_id)
qed

lemma zrank_nth:
  assumes inv: "zset_inv z" and r: "r < zset_len z"
  shows "zrank z (member (by_score z ! r)) = Some r"
proof -
  let ?k = "by_score z ! r"
  have r': "r < length (by_score z)" using inv r by (simp add: length_by_score)
  then have "map_of (scores z) (member ?k) = Some (score_of ?k)"
    using zset_invD(3) [OF inv, of ?k] by simp
  moreover have "score_key_new (score_of ?k) (member ?k) = ?k"
    by (metis score_key_eq_iff)
  ultimately show ?thesis
    using filter_le_nth [OF zset_invD(2) [OF inv] r'] r' by (simp add: zrank_def)
qed

text \<open>A member's rank is its position in the ascending list.\<close>

lemma zrank_iff:
  assumes inv: "zset_inv z"
  shows "zrank z m = Some r \<longleftrightarrow> r < zset_len z \<and> fst (all_with_scores z ! r) = m"
proof
  assume "r < zset_len z \<and> fst (all_with_scores z ! r) = m"
  then show "zrank z m = Some r"
    using zrank_nth [OF inv, of r] inv by (auto simp: all_with_scores_def length_by_score)
next
  assume rank: "zrank z m = Some r"
  then obtain s where "map_of (scores z) m = Some s" by (auto simp: zrank_def split: option.splits)
  then have "score_key_new s m \<in> set (by_score z)" using zset_invD(3) [OF inv] by simp
  then obtain i where i: "i < length (by_score z)" "by_score z ! i = score_key_new s m"
    by (auto simp: in_set_conv_nth)
  with rank zrank_nth [OF inv, of i] inv have "i = r" by (simp add: length_by_score)
  with i inv show "r < zset_len z \<and> fst (all_with_scores z ! r) = m"
    by (simp add: all_with_scores_def length_by_score)
qed

lemma zrank_pos:
  assumes "zset_inv z" and "map_of (scores z) m = Some s"
  shows "0 < length (filter (\<lambda>k. k \<le> score_key_new s m) (by_score z))"
proof -
  have "score_key_new s m \<in> set (filter (\<lambda>k. k \<le> score_key_new s m) (by_score z))"
    using assms by (simp add: zset_invD)
  then show ?thesis by (metis length_pos_if_in_set)
qed

lemma zrank_defined: "zrank z m = None \<longleftrightarrow> zscore z m = None"
  by (simp add: zrank_def zscore_def Let_def split: option.split)

lemma zrevrank_iff:
  assumes inv: "zset_inv z"
  shows "zrevrank z m = Some r \<longleftrightarrow> r < zset_len z \<and> fst (rev (all_with_scores z) ! r) = m"
proof -
  have "zrevrank z m = Some r \<longleftrightarrow> (\<exists>k. zrank z m = Some k \<and> r = zset_len z - 1 - k)"
    by (auto simp: zrevrank_def split: option.splits)
  also have "\<dots> \<longleftrightarrow> r < zset_len z \<and> zrank z m = Some (zset_len z - 1 - r)"
    by (auto simp: zrank_iff [OF inv])
  also have "\<dots> \<longleftrightarrow> r < zset_len z \<and> fst (rev (all_with_scores z) ! r) = m"
    using inv by (auto simp: zrank_iff [OF inv] rev_nth)
  finally show ?thesis .
qed

section \<open>Ranges\<close>

lemma zrange_by_rank_spec:
  assumes inv: "zset_inv z" and "is_i64 start" "is_i64 stop" "stop \<noteq> 2 ^ 63 - 1"
    and "zset_len z < 2 ^ 63"
  shows "zrange_by_rank start stop False z = redis_range start stop (all_with_scores z)"
proof -
  let ?n = "zset_len z"
  have w: "start < 0 \<Longrightarrow> i64_wrap (int ?n + start) = int ?n + start"
    "stop < 0 \<Longrightarrow> i64_wrap (int ?n + stop) = int ?n + stop"
    "stop < 0 \<Longrightarrow> i64_wrap (int ?n + stop + 1) = int ?n + stop + 1"
    "0 \<le> stop \<Longrightarrow> i64_wrap (stop + 1) = stop + 1"
    using assms by (auto intro!: i64_wrap_id simp: is_i64_def)
  let ?s = "nat (abs_index ?n start)" and ?e = "nat (abs_index ?n stop + 1)"
  have "nat (max (if start < 0 then i64_wrap (int ?n + start) else start) 0) = ?s"
    by (simp add: w abs_index_def max_def)
  moreover have "nat (max (min (if stop < 0 then i64_wrap (i64_wrap (int ?n + stop) + 1)
      else i64_wrap (stop + 1)) (int ?n)) 0) = min ?e ?n"
    by (auto simp: w abs_index_def max_def min_def)
  ultimately have "zrange_by_rank start stop False z =
      (if min ?e ?n \<le> ?s then [] else take (min ?e ?n - ?s) (drop ?s (all_with_scores z)))"
    by (simp only: zrange_by_rank_def Let_def) (simp add: all_with_scores_def take_map drop_map)
  also have "\<dots> = take (min ?e ?n - ?s) (drop ?s (all_with_scores z))" by simp
  also have "\<dots> = drop ?s (take ?e (all_with_scores z))"
    using inv by (simp add: drop_take min_diff take_all_iff min_def)
  finally show ?thesis using inv by (simp add: redis_range_slice)
qed

lemma zrange_by_rank_rev:
  "zrange_by_rank start stop True z = rev (zrange_by_rank start stop False z)"
  by (simp add: zrange_by_rank_def Let_def)

lemma in_bounds_fun: "in_bounds mn mx = (\<lambda>k. satisfies_lower mn (score_of k) \<and> satisfies_upper mx (score_of k))"
  by (simp add: in_bounds_def fun_eq_iff Let_def)

lemma zrangebyscore_spec:
  "zrangebyscore mn mx offset limit reverse z =
     (let hits = filter (\<lambda>(m, s). satisfies_lower mn s \<and> satisfies_upper mx s) (all_with_scores z);
          rest = drop offset (if reverse then rev hits else hits)
      in case limit of None \<Rightarrow> rest | Some n \<Rightarrow> take n rest)"
  by (simp add: zrangebyscore_def all_with_scores_def filter_map comp_def in_bounds_fun Let_def
      cong: option.case_cong)

lemma zcount_card:
  assumes inv: "zset_inv z"
  shows "zcount mn mx z = card {m. \<exists>s. zscore z m = Some s \<and> satisfies_lower mn s \<and> satisfies_upper mx s}"
proof -
  let ?hits = "filter (\<lambda>(m, s). satisfies_lower mn s \<and> satisfies_upper mx s) (all_with_scores z)"
  have "zcount mn mx z = length (map fst ?hits)"
    by (simp add: zcount_def all_with_scores_def filter_map comp_def in_bounds_fun Let_def)
  also have "distinct (map fst ?hits)"
    using distinct_all_with_scores [OF inv] by (rule distinct_map_filter)
  then have "length (map fst ?hits) = card (set (map fst ?hits))" by (rule distinct_card [symmetric])
  also have "set (map fst ?hits) =
      {m. \<exists>s. zscore z m = Some s \<and> satisfies_lower mn s \<and> satisfies_upper mx s}"
    using zset_invD(1) [OF inv] by (force simp: set_all_with_scores [OF inv] zscore_def)
  finally show ?thesis .
qed

section \<open>Popping\<close>

lemma zpop_key_spec:
  assumes inv: "zset_inv z" and k: "k \<in> set (by_score z)"
  shows "zset_inv (snd (zpop_key k z))" "all_with_scores (snd (zpop_key k z)) =
      map (\<lambda>k. (member k, score_of k)) (bt_remove k (by_score z))"
proof -
  have "score_key_new (score_of k) (member k) = k" by (metis score_key_eq_iff)
  with zset_inv_drop [OF inv, of "member k" "score_of k"] k
  show "zset_inv (snd (zpop_key k z))" by (simp add: zset_invD(3) [OF inv] zpop_key_def zset_inv_def)
  show "all_with_scores (snd (zpop_key k z)) =
      map (\<lambda>k. (member k, score_of k)) (bt_remove k (by_score z))"
    by (simp add: zpop_key_def all_with_scores_def)
qed

lemma bt_remove_ends:
  "distinct (x # xs) \<Longrightarrow> bt_remove x (x # xs) = xs" "distinct (xs @ [x]) \<Longrightarrow> bt_remove x (xs @ [x]) = xs"
  by (auto simp: bt_remove_def filter_id_conv)

interpretation zq: pop_ends all_with_scores zset_inv zpopmin_one zpopmax_one
proof
  fix q x xs
  assume inv: "zset_inv q"
  have d: "distinct (by_score q)" using inv by (simp add: zset_inv_def sorted_lt_distinct)
  show "all_with_scores q = [] \<Longrightarrow> zpopmin_one q = (None, q)" "all_with_scores q = [] \<Longrightarrow> zpopmax_one q = (None, q)"
    by (simp_all add: all_with_scores_def zpopmin_one_def zpopmax_one_def)
  show "fst (zpopmin_one q) = Some x \<and> all_with_scores (snd (zpopmin_one q)) = xs \<and> zset_inv (snd (zpopmin_one q))"
    if seq: "all_with_scores q = x # xs"
  proof -
    obtain k ks where "by_score q = k # ks" "x = (member k, score_of k)" "xs = map (\<lambda>k. (member k, score_of k)) ks"
      using seq by (auto simp: all_with_scores_def)
    then show ?thesis
      using zpop_key_spec [OF inv, of k] d by (simp add: zpopmin_one_def bt_remove_ends) (simp add: zpop_key_def)
  qed
  show "fst (zpopmax_one q) = Some x \<and> all_with_scores (snd (zpopmax_one q)) = xs \<and> zset_inv (snd (zpopmax_one q))"
    if seq: "all_with_scores q = xs @ [x]"
  proof -
    obtain k ks where "by_score q = ks @ [k]" "x = (member k, score_of k)" "xs = map (\<lambda>k. (member k, score_of k)) ks"
      using seq by (auto simp: all_with_scores_def map_eq_append_conv)
    then show ?thesis
      using zpop_key_spec [OF inv, of k] d by (simp add: zpopmax_one_def bt_remove_ends) (simp add: zpop_key_def)
  qed
qed

lemma zpopmin_spec:
  assumes "zset_inv z"
  shows "fst (zpopmin n z) = take n (all_with_scores z)"
    "all_with_scores (snd (zpopmin n z)) = drop n (all_with_scores z)" "zset_inv (snd (zpopmin n z))"
  using zq.popf_n [OF assms, of n] by (simp_all add: zpopmin_def)

lemma zpopmax_spec:
  assumes "zset_inv z"
  shows "fst (zpopmax n z) = take n (rev (all_with_scores z))"
    "all_with_scores (snd (zpopmax n z)) = take (zset_len z - n) (all_with_scores z)"
    "zset_inv (snd (zpopmax n z))"
  using zq.popb_n [OF assms, of n] assms by (simp_all add: zpopmax_def)

section \<open>Removing ranges\<close>

lemma all_with_scores_zrem:
  assumes "zset_inv z"
  shows "all_with_scores (snd (zrem ms z)) = filter (\<lambda>(m, s). m \<notin> set ms) (all_with_scores z)"
  using zrem_all_spec [OF assms, of ms]
  by (simp add: snd_zrem all_with_scores_def filter_map comp_def)

lemma zrem_scores: "zset_inv z \<Longrightarrow> zscore (snd (zrem ms z)) = zscore z |` (- set ms)"
  by (simp add: snd_zrem zrem_all_spec)

lemma zset_inv_zrem [enc_intros]: "zset_inv z \<Longrightarrow> zset_inv (snd (zrem ms z))"
  by (simp add: snd_zrem zrem_all_spec)

lemma zset_inv_zremrangebyrank [enc_intros]:
  "zset_inv z \<Longrightarrow> zset_inv (snd (zremrangebyrank start stop z))"
  by (simp add: zremrangebyrank_def zset_inv_zrem)

lemma zset_inv_zremrangebyscore [enc_intros]:
  "zset_inv z \<Longrightarrow> zset_inv (snd (zremrangebyscore mn mx z))"
  by (simp add: zremrangebyscore_def Let_def zrem_all_spec)

text \<open>
  \<open>ZREMRANGEBYSCORE\<close> removes exactly the members whose score lies in the range and returns how
  many there were.
\<close>

lemma zremrangebyscore_spec:
  assumes inv: "zset_inv z"
  shows "fst (zremrangebyscore mn mx z) = zcount mn mx z"
    and "all_with_scores (snd (zremrangebyscore mn mx z)) =
      filter (\<lambda>(m, s). \<not> (satisfies_lower mn s \<and> satisfies_upper mx s)) (all_with_scores z)"
proof -
  show "fst (zremrangebyscore mn mx z) = zcount mn mx z"
    by (simp add: zremrangebyscore_def zcount_def Let_def)
  have inj: "inj_on member (set (by_score z))"
    using distinct_all_with_scores [OF inv] by (simp add: all_with_scores_def distinct_map comp_def)
  have "filter (\<lambda>k. member k \<notin> set (map member (filter (in_bounds mn mx) (by_score z)))) (by_score z)
      = filter (\<lambda>k. \<not> in_bounds mn mx k) (by_score z)"
    using inj by (intro filter_cong) (auto simp: inj_on_def)
  then show "all_with_scores (snd (zremrangebyscore mn mx z)) =
      filter (\<lambda>(m, s). \<not> (satisfies_lower mn s \<and> satisfies_upper mx s)) (all_with_scores z)"
    using zrem_all_spec(3) [OF inv, of "map member (filter (in_bounds mn mx) (by_score z))"]
    by (simp add: zremrangebyscore_def Let_def all_with_scores_def filter_map comp_def in_bounds_fun)
qed

section \<open>No score is NaN\<close>

lemma zset_nan_free_iff: "zset_inv z \<Longrightarrow> zset_nan_free z \<longleftrightarrow> (\<forall>m s. zscore z m = Some s \<longrightarrow> \<not> is_nan s)"
  by (auto simp: zset_nan_free_def zscore_def zset_invD)

lemma zset_nan_free_zadd:
  assumes "zset_inv z" and "zset_nan_free z"
  shows "zset_nan_free (snd (zadd score m nx xx gt lt z))"
  using assms
  by (auto simp: zset_nan_free_iff zset_inv_zadd zadd_scores zadd_score_def split: if_splits option.splits)

lemma zset_nan_free_zincrby:
  assumes "zset_inv z" and "zset_nan_free z" and "\<not> is_nan (fst (zincrby delta m z))"
  shows "zset_nan_free (snd (zincrby delta m z))"
  using assms
  by (auto simp: zset_nan_free_iff zset_inv_zincrby zincrby_scores split: if_splits)

end
