(* ===== verification/Redis_Store.thy ===== *)
theory Redis_Store
  imports Redis_List Redis_Hash Redis_Set Redis_ZSet
begin

text \<open>
  The key space of \<open>src/storage/mod.rs\<close>. The \<open>DashMap\<close> from keys to entries is an association
  list with distinct keys whose order stands for the unspecified iteration order. Every method
  of \<open>Store\<close> is a function from the state to a result and a new state. The clock is read at most
  once per method here: \<open>now\<close> is that reading, in nanoseconds since the origin of \<open>Instant\<close>.

  A method that matches on the kind of value goes through \<open>typed_upd\<close> (\<open>entry().or_insert_with\<close>),
  \<open>typed_mod\<close> (\<open>get_mut\<close>) or \<open>typed_read\<close> (\<open>get\<close>), the three shapes of the source; the locale
  \<open>typed_value\<close> states what these promise for one kind of value and is interpreted for all five.
\<close>

section \<open>Entries\<close>

datatype store_value =
    VString bytes
  | VList rlist
  | VHash rhash
  | VSet rset
  | VZSet zset

datatype snapshot_entry =
    SnString bytes bytes
  | SnList bytes "bytes list"
  | SnHash bytes "(bytes \<times> bytes) list"
  | SnSet bytes "bytes list"
  | SnZSet bytes "(bytes \<times> f64) list"

record entry =
  entry_value :: store_value
  expires_at :: "nat option"

record store =
  data :: "(bytes \<times> entry) list"

text \<open>The errors a method returns, and the text each is reported with.\<close>

datatype store_error =
    WrongType | NotInteger | IncrOverflow | IndexOutOfRange
  | HashNotInteger | HashOverflow | HashNotFloat

fun error_text :: "store_error \<Rightarrow> bytes" where
  "error_text WrongType = ''WRONGTYPE Operation against a key holding the wrong kind of value''"
| "error_text NotInteger = ''ERR value is not an integer or out of range''"
| "error_text IncrOverflow = ''ERR increment or decrement would overflow''"
| "error_text IndexOutOfRange = ''ERR index out of range''"
| "error_text HashNotInteger = ''ERR hash value is not an integer''"
| "error_text HashOverflow = ''ERR increment would overflow''"
| "error_text HashNotFloat = ''ERR hash value is not a float''"

definition is_expired :: "nat \<Rightarrow> entry \<Rightarrow> bool" where
  "is_expired now e = (case expires_at e of Some t \<Rightarrow> t < now | None \<Rightarrow> False)"

text \<open>
  \<open>Instant + Duration\<close> panics when the sum leaves the clock's range (64-bit signed seconds):
  \<open>None\<close> is the panic.
\<close>

definition INSTANT_LIMIT :: nat where
  "INSTANT_LIMIT = 2 ^ 63 * 10 ^ 9"

definition instant_add :: "nat \<Rightarrow> nat \<Rightarrow> nat option" where
  "instant_add now d = (if now + d < INSTANT_LIMIT then Some (now + d) else None)"

definition store_new :: store where
  "store_new = \<lparr>data = []\<rparr>"

definition lookup :: "store \<Rightarrow> bytes \<Rightarrow> entry option" where
  "lookup s k = map_of (data s) k"

definition put :: "bytes \<Rightarrow> entry \<Rightarrow> store \<Rightarrow> store" where
  "put k e s = s\<lparr>data := AList.update k e (data s)\<rparr>"

definition remove :: "bytes \<Rightarrow> store \<Rightarrow> store" where
  "remove k s = s\<lparr>data := AList.delete k (data s)\<rparr>"

section \<open>Access by kind of value\<close>

fun as_string :: "store_value \<Rightarrow> bytes option" where
  "as_string (VString b) = Some b" | "as_string _ = None"

fun as_list :: "store_value \<Rightarrow> rlist option" where
  "as_list (VList l) = Some l" | "as_list _ = None"

fun as_hash :: "store_value \<Rightarrow> rhash option" where
  "as_hash (VHash h) = Some h" | "as_hash _ = None"

fun as_set :: "store_value \<Rightarrow> rset option" where
  "as_set (VSet t) = Some t" | "as_set _ = None"

fun as_zset :: "store_value \<Rightarrow> zset option" where
  "as_zset (VZSet z) = Some z" | "as_zset _ = None"

definition or_insert :: "bytes \<Rightarrow> store_value \<Rightarrow> store \<Rightarrow> entry \<times> store" where
  "or_insert k v s =
     (case lookup s k of
        Some e \<Rightarrow> (e, s)
      | None \<Rightarrow> (let e = \<lparr>entry_value = v, expires_at = None\<rparr> in (e, put k e s)))"

definition typed_upd ::
  "(store_value \<Rightarrow> 'a option) \<Rightarrow> ('a \<Rightarrow> store_value) \<Rightarrow> 'a \<Rightarrow>
   ('a \<Rightarrow> (store_error + 'r) \<times> 'a) \<Rightarrow> bytes \<Rightarrow> store \<Rightarrow> (store_error + 'r) \<times> store" where
  "typed_upd proj con new f k s =
     (case or_insert k (con new) s of (e, s1) \<Rightarrow>
        (case proj (entry_value e) of
           None \<Rightarrow> (Inl WrongType, s1)
         | Some x \<Rightarrow> (case f x of (r, x') \<Rightarrow> (r, put k (e\<lparr>entry_value := con x'\<rparr>) s1))))"

definition typed_mod ::
  "(store_value \<Rightarrow> 'a option) \<Rightarrow> ('a \<Rightarrow> store_value) \<Rightarrow> 'r \<Rightarrow>
   ('a \<Rightarrow> (store_error + 'r) \<times> 'a) \<Rightarrow> bytes \<Rightarrow> store \<Rightarrow> (store_error + 'r) \<times> store" where
  "typed_mod proj con absent f k s =
     (case lookup s k of
        None \<Rightarrow> (Inr absent, s)
      | Some e \<Rightarrow>
          (case proj (entry_value e) of
             None \<Rightarrow> (Inl WrongType, s)
           | Some x \<Rightarrow> (case f x of (r, x') \<Rightarrow> (r, put k (e\<lparr>entry_value := con x'\<rparr>) s))))"

definition typed_read ::
  "(store_value \<Rightarrow> 'a option) \<Rightarrow> 'r \<Rightarrow> ('a \<Rightarrow> 'r) \<Rightarrow> bytes \<Rightarrow> store \<Rightarrow> store_error + 'r" where
  "typed_read proj absent f k s =
     (case lookup s k of
        None \<Rightarrow> Inr absent
      | Some e \<Rightarrow> (case proj (entry_value e) of None \<Rightarrow> Inl WrongType | Some x \<Rightarrow> Inr (f x)))"

section \<open>Keys\<close>

definition store_get :: "nat \<Rightarrow> bytes \<Rightarrow> store \<Rightarrow> store_value option \<times> store" where
  "store_get now k s =
     (case lookup s k of
        None \<Rightarrow> (None, s)
      | Some e \<Rightarrow> if is_expired now e then (None, remove k s) else (Some (entry_value e), s))"

definition store_set :: "nat \<Rightarrow> bytes \<Rightarrow> store_value \<Rightarrow> nat option \<Rightarrow> store \<Rightarrow> store option" where
  "store_set now k v ttl s =
     (case ttl of
        None \<Rightarrow> Some (put k \<lparr>entry_value = v, expires_at = None\<rparr> s)
      | Some d \<Rightarrow>
          (case instant_add now d of
             None \<Rightarrow> None
           | Some t \<Rightarrow> Some (put k \<lparr>entry_value = v, expires_at = Some t\<rparr> s)))"

fun store_del :: "bytes list \<Rightarrow> store \<Rightarrow> usize \<times> store" where
  "store_del [] s = (0, s)"
| "store_del (k # ks) s =
     (let found = (lookup s k \<noteq> None) in
      case store_del ks (remove k s) of (n, s') \<Rightarrow> ((if found then 1 else 0) + n, s'))"

definition store_exists :: "nat \<Rightarrow> bytes \<Rightarrow> store \<Rightarrow> bool" where
  "store_exists now k s = (case lookup s k of Some e \<Rightarrow> \<not> is_expired now e | None \<Rightarrow> False)"

definition store_expire :: "nat \<Rightarrow> bytes \<Rightarrow> nat \<Rightarrow> store \<Rightarrow> (bool \<times> store) option" where
  "store_expire now k ttl s =
     (case lookup s k of
        Some e \<Rightarrow>
          if is_expired now e then Some (False, s)
          else (case instant_add now ttl of
                  None \<Rightarrow> None
                | Some t \<Rightarrow> Some (True, put k (e\<lparr>expires_at := Some t\<rparr>) s))
      | None \<Rightarrow> Some (False, s))"

definition store_pttl :: "nat \<Rightarrow> bytes \<Rightarrow> store \<Rightarrow> i64" where
  "store_pttl now k s =
     (case lookup s k of
        None \<Rightarrow> - 2
      | Some e \<Rightarrow>
          if is_expired now e then - 2
          else (case expires_at e of
                  None \<Rightarrow> - 1
                | Some t \<Rightarrow> if t \<le> now then - 2 else i64_wrap (int ((t - now) div 1000000))))"

definition store_persist :: "bytes \<Rightarrow> store \<Rightarrow> bool \<times> store" where
  "store_persist k s =
     (case lookup s k of
        Some e \<Rightarrow> if expires_at e \<noteq> None then (True, put k (e\<lparr>expires_at := None\<rparr>) s) else (False, s)
      | None \<Rightarrow> (False, s))"

fun kind_text :: "store_value \<Rightarrow> bytes" where
  "kind_text (VString _) = ''string''"
| "kind_text (VList _) = ''list''"
| "kind_text (VHash _) = ''hash''"
| "kind_text (VSet _) = ''set''"
| "kind_text (VZSet _) = ''zset''"

definition type_of :: "nat \<Rightarrow> bytes \<Rightarrow> store \<Rightarrow> bytes" where
  "type_of now k s =
     (case lookup s k of
        None \<Rightarrow> ''none''
      | Some e \<Rightarrow> if is_expired now e then ''none'' else kind_text (entry_value e))"

definition keys_count :: "store \<Rightarrow> usize" where
  "keys_count s = length (data s)"

definition keyspace_info :: "nat \<Rightarrow> store \<Rightarrow> usize \<times> usize" where
  "keyspace_info now s =
     fold (\<lambda>(k, e) (total, with_expiry).
         if \<not> is_expired now e
         then (total + 1, if expires_at e \<noteq> None then with_expiry + 1 else with_expiry)
         else (total, with_expiry))
       (data s) (0, 0)"

fun encoding_text :: "store_value \<Rightarrow> bytes \<times> usize" where
  "encoding_text (VString b) = (if length b \<le> 44 then ''embstr'' else ''raw'', length b)"
| "encoding_text (VList l) =
     ((case l of LSmall _ \<Rightarrow> ''listpack'' | LLarge _ \<Rightarrow> ''quicklist''), list_len l)"
| "encoding_text (VHash h) =
     ((case h of HSmall _ \<Rightarrow> ''listpack'' | HLarge _ \<Rightarrow> ''hashtable''), hash_len h)"
| "encoding_text (VSet t) =
     ((case t of SSmall _ \<Rightarrow> ''listpack'' | SLarge _ \<Rightarrow> ''hashtable''), set_len t)"
| "encoding_text (VZSet z) = (''skiplist'', zset_len z)"

definition debug_object :: "nat \<Rightarrow> bytes \<Rightarrow> store \<Rightarrow> bytes option" where
  "debug_object now k s =
     (case lookup s k of
        None \<Rightarrow> None
      | Some e \<Rightarrow>
          if is_expired now e then None
          else
            (case encoding_text (entry_value e) of (enc, sz) \<Rightarrow>
               let idle = (case expires_at e of Some t \<Rightarrow> (t - now) div 10 ^ 9 | None \<Rightarrow> 0)
               in Some (''Value at 0x0 refcount:1 encoding:'' @ enc @ '' serializedlength:'' @
                    show_nat sz @ '' lru:0 lru_seconds_idle:'' @ show_nat idle @ '' type:'' @
                    kind_text (entry_value e))))"

definition all_keys :: "nat \<Rightarrow> store \<Rightarrow> bytes list" where
  "all_keys now s = map fst (filter (\<lambda>(k, e). \<not> is_expired now e) (data s))"

definition flush :: "store \<Rightarrow> store" where
  "flush s = s\<lparr>data := []\<rparr>"

fun snapshot_of :: "bytes \<Rightarrow> store_value \<Rightarrow> snapshot_entry option" where
  "snapshot_of k (VString b) = Some (SnString k b)"
| "snapshot_of k (VList l) = (if \<not> list_is_empty l then Some (SnList k (to_vec l)) else None)"
| "snapshot_of k (VHash h) = (if \<not> hash_is_empty h then Some (SnHash k (all_pairs h)) else None)"
| "snapshot_of k (VSet t) = (if \<not> set_is_empty t then Some (SnSet k (members t)) else None)"
| "snapshot_of k (VZSet z) = (if \<not> zset_is_empty z then Some (SnZSet k (all_with_scores z)) else None)"

definition snapshot :: "nat \<Rightarrow> store \<Rightarrow> snapshot_entry list" where
  "snapshot now s =
     List.map_filter (\<lambda>(k, e). snapshot_of k (entry_value e))
       (filter (\<lambda>(k, e). \<not> is_expired now e) (data s))"

section \<open>Strings\<close>

definition getset :: "nat \<Rightarrow> bytes \<Rightarrow> bytes \<Rightarrow> store \<Rightarrow> bytes option \<times> store" where
  "getset now k new_val s =
     (case store_get now k s of (v, s1) \<Rightarrow>
        (let old = (case v of Some (VString b) \<Rightarrow> Some b | _ \<Rightarrow> None)
         in (old, put k \<lparr>entry_value = VString new_val, expires_at = None\<rparr> s1)))"

definition store_append :: "bytes \<Rightarrow> bytes \<Rightarrow> store \<Rightarrow> (store_error + usize) \<times> store" where
  "store_append k sfx s =
     typed_upd as_string VString [] (\<lambda>b. let v = b @ sfx in (Inr (length v), v)) k s"

definition parse_trimmed_i64 :: "bytes \<Rightarrow> i64 option" where
  "parse_trimmed_i64 b = (if is_utf8 b then parse_i64 (trim b) else None)"

definition incrby :: "bytes \<Rightarrow> i64 \<Rightarrow> store \<Rightarrow> (store_error + i64) \<times> store" where
  "incrby k delta s =
     typed_upd as_string VString ''0''
       (\<lambda>b. case parse_trimmed_i64 b of
              None \<Rightarrow> (Inl NotInteger, b)
            | Some n \<Rightarrow>
                (case checked_add_i64 n delta of
                   None \<Rightarrow> (Inl IncrOverflow, b)
                 | Some result \<Rightarrow> (Inr result, show_int result)))
       k s"

section \<open>Lists\<close>

definition lpush :: "bytes \<Rightarrow> bytes list \<Rightarrow> store \<Rightarrow> (store_error + usize) \<times> store" where
  "lpush k vs s =
     typed_upd as_list VList list_new
       (\<lambda>l. let l' = fold push_front vs l in (Inr (list_len l'), l')) k s"

definition rpush :: "bytes \<Rightarrow> bytes list \<Rightarrow> store \<Rightarrow> (store_error + usize) \<times> store" where
  "rpush k vs s =
     typed_upd as_list VList list_new
       (\<lambda>l. let l' = fold push_back vs l in (Inr (list_len l'), l')) k s"

definition lpop :: "bytes \<Rightarrow> usize \<Rightarrow> store \<Rightarrow> (store_error + bytes list) \<times> store" where
  "lpop k cnt s =
     typed_mod as_list VList [] (\<lambda>l. case pop_front_n cnt l of (out, l') \<Rightarrow> (Inr out, l')) k s"

definition rpop :: "bytes \<Rightarrow> usize \<Rightarrow> store \<Rightarrow> (store_error + bytes list) \<times> store" where
  "rpop k cnt s =
     typed_mod as_list VList [] (\<lambda>l. case pop_back_n cnt l of (out, l') \<Rightarrow> (Inr out, l')) k s"

definition llen :: "bytes \<Rightarrow> store \<Rightarrow> store_error + usize" where
  "llen k s = typed_read as_list 0 list_len k s"

definition lindex :: "bytes \<Rightarrow> i64 \<Rightarrow> store \<Rightarrow> store_error + bytes option" where
  "lindex k index s =
     typed_read as_list None
       (\<lambda>l. let len = int (list_len l);
                idx = (if index < 0 then i64_wrap (len + index) else index)
            in if idx < 0 \<or> idx \<ge> len then None else list_get l (usize_wrap idx))
       k s"

definition lrange :: "bytes \<Rightarrow> i64 \<Rightarrow> i64 \<Rightarrow> store \<Rightarrow> store_error + bytes list" where
  "lrange k start stop s =
     typed_read as_list []
       (\<lambda>l. let len = int (list_len l);
                b = nat (max (if start < 0 then i64_wrap (len + start) else start) 0);
                e = nat (max (min (if stop < 0 then i64_wrap (i64_wrap (len + stop) + 1)
                                   else i64_wrap (stop + 1)) len) 0)
            in list_range l b e)
       k s"

definition lset :: "bytes \<Rightarrow> i64 \<Rightarrow> bytes \<Rightarrow> store \<Rightarrow> (store_error + bool) \<times> store" where
  "lset k index val s =
     typed_mod as_list VList False
       (\<lambda>l. let len = int (list_len l);
                idx = (if index < 0 then i64_wrap (len + index) else index)
            in if idx < 0 \<or> idx \<ge> len then (Inl IndexOutOfRange, l)
               else case set_index (usize_wrap idx) val l of (ok, l') \<Rightarrow> (Inr ok, l'))
       k s"

definition linsert :: "bytes \<Rightarrow> bool \<Rightarrow> bytes \<Rightarrow> bytes \<Rightarrow> store \<Rightarrow> (store_error + i64) \<times> store" where
  "linsert k before pivot val s =
     typed_mod as_list VList 0
       (\<lambda>l. case (if before then insert_before pivot val l else insert_after pivot val l) of
              (n, l') \<Rightarrow> (Inr n, l'))
       k s"

definition store_lrem :: "bytes \<Rightarrow> i64 \<Rightarrow> bytes \<Rightarrow> store \<Rightarrow> (store_error + usize) \<times> store" where
  "store_lrem k cnt val s =
     typed_mod as_list VList 0 (\<lambda>l. case lrem cnt val l of (n, l') \<Rightarrow> (Inr n, l')) k s"

definition store_ltrim :: "bytes \<Rightarrow> i64 \<Rightarrow> i64 \<Rightarrow> store \<Rightarrow> (store_error + unit) \<times> store" where
  "store_ltrim k start stop s =
     typed_mod as_list VList () (\<lambda>l. (Inr (), ltrim start stop l)) k s"

text \<open>\<open>lmove\<close> takes two locks in turn: the pop from the source, then the push to the destination.\<close>

definition lmove_pop :: "bytes \<Rightarrow> bool \<Rightarrow> store \<Rightarrow> (store_error + bytes option) \<times> store" where
  "lmove_pop src from_left s =
     typed_mod as_list VList None
       (\<lambda>l. case (if from_left then pop_front l else pop_back l) of (x, l') \<Rightarrow> (Inr x, l')) src s"

definition lmove_push :: "bytes \<Rightarrow> bool \<Rightarrow> bytes \<Rightarrow> store \<Rightarrow> (store_error + bytes option) \<times> store" where
  "lmove_push dst to_left val s =
     typed_upd as_list VList list_new
       (\<lambda>l. (Inr (Some val), if to_left then push_front val l else push_back val l)) dst s"

definition lmove ::
  "bytes \<Rightarrow> bytes \<Rightarrow> bool \<Rightarrow> bool \<Rightarrow> store \<Rightarrow> (store_error + bytes option) \<times> store" where
  "lmove src dst from_left to_left s =
     (case lmove_pop src from_left s of
        (Inl err, s1) \<Rightarrow> (Inl err, s1)
      | (Inr None, s1) \<Rightarrow> (Inr None, s1)
      | (Inr (Some val), s1) \<Rightarrow> lmove_push dst to_left val s1)"

section \<open>Hashes\<close>

definition store_hset :: "bytes \<Rightarrow> bytes \<Rightarrow> bytes \<Rightarrow> store \<Rightarrow> (store_error + usize) \<times> store" where
  "store_hset k field val s =
     typed_upd as_hash VHash hash_new (\<lambda>h. case hset field val h of (n, h') \<Rightarrow> (Inr n, h')) k s"

definition store_hsetnx :: "bytes \<Rightarrow> bytes \<Rightarrow> bytes \<Rightarrow> store \<Rightarrow> (store_error + bool) \<times> store" where
  "store_hsetnx k field val s =
     typed_upd as_hash VHash hash_new (\<lambda>h. case hsetnx field val h of (b, h') \<Rightarrow> (Inr b, h')) k s"

definition hget :: "bytes \<Rightarrow> bytes \<Rightarrow> store \<Rightarrow> store_error + bytes option" where
  "hget k field s = typed_read as_hash None (\<lambda>h. hash_get h field) k s"

definition hgetall :: "bytes \<Rightarrow> store \<Rightarrow> store_error + (bytes \<times> bytes) list" where
  "hgetall k s = typed_read as_hash [] all_pairs k s"

definition store_hdel :: "bytes \<Rightarrow> bytes list \<Rightarrow> store \<Rightarrow> (store_error + usize) \<times> store" where
  "store_hdel k fs s =
     typed_mod as_hash VHash 0 (\<lambda>h. case hdel fs h of (n, h') \<Rightarrow> (Inr n, h')) k s"

definition hlen :: "bytes \<Rightarrow> store \<Rightarrow> store_error + usize" where
  "hlen k s = typed_read as_hash 0 hash_len k s"

definition hexists :: "bytes \<Rightarrow> bytes \<Rightarrow> store \<Rightarrow> store_error + bool" where
  "hexists k field s = typed_read as_hash False (\<lambda>h. hash_contains h field) k s"

definition hkeys :: "bytes \<Rightarrow> store \<Rightarrow> store_error + bytes list" where
  "hkeys k s = typed_read as_hash [] hash_keys k s"

definition hvals :: "bytes \<Rightarrow> store \<Rightarrow> store_error + bytes list" where
  "hvals k s = typed_read as_hash [] hash_values k s"

definition hincrby :: "bytes \<Rightarrow> bytes \<Rightarrow> i64 \<Rightarrow> store \<Rightarrow> (store_error + i64) \<times> store" where
  "hincrby k field delta s =
     typed_upd as_hash VHash hash_new
       (\<lambda>h. case (case hash_get h field of None \<Rightarrow> Some 0 | Some b \<Rightarrow> parse_trimmed_i64 b) of
              None \<Rightarrow> (Inl HashNotInteger, h)
            | Some old \<Rightarrow>
                (case checked_add_i64 old delta of
                   None \<Rightarrow> (Inl HashOverflow, h)
                 | Some new_val \<Rightarrow> (Inr new_val, snd (hset field (show_int new_val) h))))
       k s"

text \<open>\<open>fmt\<close> stands for \<open>format!("{new_val}")\<close>.\<close>

definition hincrbyfloat ::
  "(f64 \<Rightarrow> bytes) \<Rightarrow> bytes \<Rightarrow> bytes \<Rightarrow> f64 \<Rightarrow> store \<Rightarrow> (store_error + f64) \<times> store" where
  "hincrbyfloat fmt k field delta s =
     typed_upd as_hash VHash hash_new
       (\<lambda>h. case (case hash_get h field of
                    None \<Rightarrow> Some f64_zero
                  | Some b \<Rightarrow> if is_utf8 b then parse_f64 (trim b) else None) of
              None \<Rightarrow> (Inl HashNotFloat, h)
            | Some old \<Rightarrow>
                (let new_val = f64_add old delta
                 in (Inr new_val, snd (hset field (fmt new_val) h))))
       k s"

section \<open>Sets\<close>

definition store_sadd :: "bytes \<Rightarrow> bytes list \<Rightarrow> store \<Rightarrow> (store_error + usize) \<times> store" where
  "store_sadd k ms s =
     typed_upd as_set VSet set_new (\<lambda>t. case sadd ms t of (n, t') \<Rightarrow> (Inr n, t')) k s"

definition smembers :: "bytes \<Rightarrow> store \<Rightarrow> store_error + bytes list" where
  "smembers k s = typed_read as_set [] members k s"

definition sismember :: "bytes \<Rightarrow> bytes \<Rightarrow> store \<Rightarrow> store_error + bool" where
  "sismember k m s = typed_read as_set False (\<lambda>t. set_contains t m) k s"

definition store_srem :: "bytes \<Rightarrow> bytes list \<Rightarrow> store \<Rightarrow> (store_error + usize) \<times> store" where
  "store_srem k ms s =
     typed_mod as_set VSet 0 (\<lambda>t. case srem ms t of (n, t') \<Rightarrow> (Inr n, t')) k s"

definition scard :: "bytes \<Rightarrow> store \<Rightarrow> store_error + usize" where
  "scard k s = typed_read as_set 0 set_len k s"

definition smove_remove :: "bytes \<Rightarrow> bytes \<Rightarrow> store \<Rightarrow> (store_error + bool) \<times> store" where
  "smove_remove src m s =
     typed_mod as_set VSet False (\<lambda>t. case remove_one m t of (found, t') \<Rightarrow> (Inr found, t')) src s"

definition smove_add :: "bytes \<Rightarrow> bytes \<Rightarrow> store \<Rightarrow> (store_error + bool) \<times> store" where
  "smove_add dst m s = typed_upd as_set VSet set_new (\<lambda>t. (Inr True, snd (sadd [m] t))) dst s"

definition smove :: "bytes \<Rightarrow> bytes \<Rightarrow> bytes \<Rightarrow> store \<Rightarrow> (store_error + bool) \<times> store" where
  "smove src dst m s =
     (case smove_remove src m s of
        (Inl err, s1) \<Rightarrow> (Inl err, s1)
      | (Inr removed, s1) \<Rightarrow> if \<not> removed then (Inr False, s1) else smove_add dst m s1)"

definition srandmember ::
  "(bytes list \<Rightarrow> nat \<Rightarrow> bytes list) \<Rightarrow> (bytes list \<Rightarrow> nat \<Rightarrow> bytes) \<Rightarrow> bytes \<Rightarrow> i64 \<Rightarrow> store \<Rightarrow>
   store_error + bytes list" where
  "srandmember choose_multiple draw k cnt s =
     typed_read as_set [] (\<lambda>t. random_members choose_multiple draw t cnt) k s"

definition store_spop ::
  "(bytes list \<Rightarrow> bytes list) \<Rightarrow> bytes \<Rightarrow> usize \<Rightarrow> store \<Rightarrow> (store_error + bytes list) \<times> store" where
  "store_spop shuffle k cnt s =
     typed_mod as_set VSet [] (\<lambda>t. case spop shuffle cnt t of (out, t') \<Rightarrow> (Inr out, t')) k s"

definition get_set_clone :: "bytes \<Rightarrow> store \<Rightarrow> store_error + rset option" where
  "get_set_clone k s = typed_read as_set None Some k s"

text \<open>\<open>collect()\<close> into a \<open>Result\<close>: the first error ends it.\<close>

fun collect_sets :: "bytes list \<Rightarrow> store \<Rightarrow> store_error + rset list" where
  "collect_sets [] s = Inr []"
| "collect_sets (k # ks) s =
     (case get_set_clone k s of
        Inl err \<Rightarrow> Inl err
      | Inr o' \<Rightarrow>
          (case collect_sets ks s of
             Inl err \<Rightarrow> Inl err
           | Inr ts \<Rightarrow> Inr ((case o' of Some t \<Rightarrow> t | None \<Rightarrow> set_new) # ts)))"

definition sunion :: "bytes list \<Rightarrow> store \<Rightarrow> store_error + bytes list" where
  "sunion ks s =
     (case collect_sets ks s of
        Inl err \<Rightarrow> Inl err
      | Inr [] \<Rightarrow> Inr []
      | Inr (t # ts) \<Rightarrow> Inr (union_with t ts))"

definition sinter :: "bytes list \<Rightarrow> store \<Rightarrow> store_error + bytes list" where
  "sinter ks s =
     (case collect_sets ks s of
        Inl err \<Rightarrow> Inl err
      | Inr [] \<Rightarrow> Inr []
      | Inr (t # ts) \<Rightarrow> Inr (intersect_with t ts))"

definition sdiff :: "bytes list \<Rightarrow> store \<Rightarrow> store_error + bytes list" where
  "sdiff ks s =
     (case collect_sets ks s of
        Inl err \<Rightarrow> Inl err
      | Inr [] \<Rightarrow> Inr []
      | Inr (t # ts) \<Rightarrow> Inr (diff_with t ts))"

text \<open>The last part the three \<open>STORE\<close> methods have in common.\<close>

definition store_result ::
  "bytes \<Rightarrow> store_error + bytes list \<Rightarrow> store \<Rightarrow> (store_error + usize) \<times> store" where
  "store_result dst r s =
     (case r of
        Inl err \<Rightarrow> (Inl err, s)
      | Inr result \<Rightarrow>
          (Inr (length result),
           put dst \<lparr>entry_value = VSet (snd (sadd result set_new)), expires_at = None\<rparr> s))"

definition sunionstore :: "bytes \<Rightarrow> bytes list \<Rightarrow> store \<Rightarrow> (store_error + usize) \<times> store" where
  "sunionstore dst ks s = store_result dst (sunion ks s) s"

definition sinterstore :: "bytes \<Rightarrow> bytes list \<Rightarrow> store \<Rightarrow> (store_error + usize) \<times> store" where
  "sinterstore dst ks s = store_result dst (sinter ks s) s"

definition sdiffstore :: "bytes \<Rightarrow> bytes list \<Rightarrow> store \<Rightarrow> (store_error + usize) \<times> store" where
  "sdiffstore dst ks s = store_result dst (sdiff ks s) s"

section \<open>Sorted sets\<close>

definition store_zadd ::
  "bytes \<Rightarrow> f64 \<Rightarrow> bytes \<Rightarrow> bool \<Rightarrow> bool \<Rightarrow> bool \<Rightarrow> bool \<Rightarrow> store \<Rightarrow>
   (store_error + usize \<times> usize) \<times> store" where
  "store_zadd k score m nx xx gt lt s =
     typed_upd as_zset VZSet zset_new
       (\<lambda>z. case zadd score m nx xx gt lt z of (r, z') \<Rightarrow> (Inr r, z')) k s"

definition store_zscore :: "bytes \<Rightarrow> bytes \<Rightarrow> store \<Rightarrow> store_error + f64 option" where
  "store_zscore k m s = typed_read as_zset None (\<lambda>z. zscore z m) k s"

definition store_zrank :: "bytes \<Rightarrow> bytes \<Rightarrow> store \<Rightarrow> store_error + usize option" where
  "store_zrank k m s = typed_read as_zset None (\<lambda>z. zrank z m) k s"

definition store_zrevrank :: "bytes \<Rightarrow> bytes \<Rightarrow> store \<Rightarrow> store_error + usize option" where
  "store_zrevrank k m s = typed_read as_zset None (\<lambda>z. zrevrank z m) k s"

definition store_zincrby :: "bytes \<Rightarrow> f64 \<Rightarrow> bytes \<Rightarrow> store \<Rightarrow> (store_error + f64) \<times> store" where
  "store_zincrby k delta m s =
     typed_upd as_zset VZSet zset_new (\<lambda>z. case zincrby delta m z of (r, z') \<Rightarrow> (Inr r, z')) k s"

definition store_zrem :: "bytes \<Rightarrow> bytes list \<Rightarrow> store \<Rightarrow> (store_error + usize) \<times> store" where
  "store_zrem k ms s =
     typed_mod as_zset VZSet 0 (\<lambda>z. case zrem ms z of (n, z') \<Rightarrow> (Inr n, z')) k s"

definition zcard :: "bytes \<Rightarrow> store \<Rightarrow> store_error + usize" where
  "zcard k s = typed_read as_zset 0 zset_len k s"

definition store_zcount :: "bytes \<Rightarrow> score_bound \<Rightarrow> score_bound \<Rightarrow> store \<Rightarrow> store_error + usize" where
  "store_zcount k mn mx s = typed_read as_zset 0 (zcount mn mx) k s"

definition zrange :: "bytes \<Rightarrow> i64 \<Rightarrow> i64 \<Rightarrow> bool \<Rightarrow> store \<Rightarrow> store_error + (bytes \<times> f64) list" where
  "zrange k start stop reverse s = typed_read as_zset [] (zrange_by_rank start stop reverse) k s"

definition store_zrangebyscore ::
  "bytes \<Rightarrow> score_bound \<Rightarrow> score_bound \<Rightarrow> usize \<Rightarrow> usize option \<Rightarrow> bool \<Rightarrow> store \<Rightarrow>
   store_error + (bytes \<times> f64) list" where
  "store_zrangebyscore k mn mx offset limit reverse s =
     typed_read as_zset [] (zrangebyscore mn mx offset limit reverse) k s"

definition store_zpopmin :: "bytes \<Rightarrow> usize \<Rightarrow> store \<Rightarrow> (store_error + (bytes \<times> f64) list) \<times> store" where
  "store_zpopmin k cnt s =
     typed_mod as_zset VZSet [] (\<lambda>z. case zpopmin cnt z of (out, z') \<Rightarrow> (Inr out, z')) k s"

definition store_zpopmax :: "bytes \<Rightarrow> usize \<Rightarrow> store \<Rightarrow> (store_error + (bytes \<times> f64) list) \<times> store" where
  "store_zpopmax k cnt s =
     typed_mod as_zset VZSet [] (\<lambda>z. case zpopmax cnt z of (out, z') \<Rightarrow> (Inr out, z')) k s"

definition store_zremrangebyrank :: "bytes \<Rightarrow> i64 \<Rightarrow> i64 \<Rightarrow> store \<Rightarrow> (store_error + usize) \<times> store" where
  "store_zremrangebyrank k start stop s =
     typed_mod as_zset VZSet 0 (\<lambda>z. case zremrangebyrank start stop z of (n, z') \<Rightarrow> (Inr n, z')) k s"

definition store_zremrangebyscore ::
  "bytes \<Rightarrow> score_bound \<Rightarrow> score_bound \<Rightarrow> store \<Rightarrow> (store_error + usize) \<times> store" where
  "store_zremrangebyscore k mn mx s =
     typed_mod as_zset VZSet 0 (\<lambda>z. case zremrangebyscore mn mx z of (n, z') \<Rightarrow> (Inr n, z')) k s"

section \<open>The invariant\<close>

fun value_inv :: "store_value \<Rightarrow> bool" where
  "value_inv (VString b) \<longleftrightarrow> True"
| "value_inv (VList l) \<longleftrightarrow> True"
| "value_inv (VHash h) \<longleftrightarrow> hash_inv h"
| "value_inv (VSet t) \<longleftrightarrow> set_inv t"
| "value_inv (VZSet z) \<longleftrightarrow> zset_inv z"

definition store_inv :: "store \<Rightarrow> bool" where
  "store_inv s \<longleftrightarrow> distinct (map fst (data s)) \<and> (\<forall>(k, e) \<in> set (data s). value_inv (entry_value e))"

lemma lookup_put [simp]: "lookup (put k e s) k' = (if k' = k then Some e else lookup s k')"
  by (simp add: lookup_def put_def update_conv')

lemma lookup_remove [simp]: "lookup (remove k s) k' = (if k' = k then None else lookup s k')"
  by (simp add: lookup_def remove_def delete_conv')

lemma lookup_simps [simp]: "lookup store_new k = None" "lookup (flush s) k = None"
  by (simp_all add: lookup_def store_new_def flush_def)

lemma store_inv_iff:
  "store_inv s \<longleftrightarrow> distinct (map fst (data s)) \<and> (\<forall>k e. lookup s k = Some e \<longrightarrow> value_inv (entry_value e))"
  by (auto simp: store_inv_def lookup_def)

lemma store_inv_lookup: "store_inv s \<Longrightarrow> lookup s k = Some e \<Longrightarrow> value_inv (entry_value e)"
  by (simp add: store_inv_iff)

lemma distinct_put [simp]: "distinct (map fst (data s)) \<Longrightarrow> distinct (map fst (data (put k e s)))"
  by (simp add: put_def distinct_update)

lemma distinct_remove [simp]: "distinct (map fst (data s)) \<Longrightarrow> distinct (map fst (data (remove k s)))"
  by (simp add: remove_def distinct_delete)

lemma store_inv_put [enc_intros]: "store_inv s \<Longrightarrow> value_inv (entry_value e) \<Longrightarrow> store_inv (put k e s)"
  by (simp add: store_inv_iff)

lemma store_inv_remove [enc_intros]: "store_inv s \<Longrightarrow> store_inv (remove k s)"
  by (simp add: store_inv_iff)

lemma store_inv_new [enc_intros]: "store_inv store_new" "store_inv (flush s)"
  by (simp_all add: store_inv_def store_new_def flush_def)

section \<open>What the typed accesses promise\<close>

text \<open>
  One kind of value: its constructor, the projection that recognises it, its fresh value and
  its invariant. \<open>contents\<close> is the value of the kind under a key, the fresh one where the key is
  missing and \<open>None\<close> where the key holds another kind.
\<close>

definition contents :: "(store_value \<Rightarrow> 'a option) \<Rightarrow> 'a \<Rightarrow> bytes \<Rightarrow> store \<Rightarrow> 'a option" where
  "contents proj new k s = (case lookup s k of None \<Rightarrow> Some new | Some e \<Rightarrow> proj (entry_value e))"

definition expiry :: "bytes \<Rightarrow> store \<Rightarrow> nat option" where
  "expiry k s = (case lookup s k of None \<Rightarrow> None | Some e \<Rightarrow> expires_at e)"

locale typed_value =
  fixes con :: "'a \<Rightarrow> store_value"
    and proj :: "store_value \<Rightarrow> 'a option"
    and new :: 'a
    and ok :: "'a \<Rightarrow> bool"
  assumes proj_con: "proj v = Some x \<longleftrightarrow> v = con x"
    and inv_con: "value_inv (con x) \<longleftrightarrow> ok x"
    and ok_new: "ok new"
begin

lemma proj_con_simp [simp]: "proj (con x) = Some x"
  by (simp add: proj_con)

lemma con_inj [simp]: "con x = con y \<longleftrightarrow> x = y"
  by (metis proj_con_simp option.inject)

lemma contents_ok: "store_inv s \<Longrightarrow> contents proj new k s = Some x \<Longrightarrow> ok x"
  using ok_new by (cases "lookup s k") (auto simp: contents_def proj_con inv_con dest: store_inv_lookup)

lemma upd_wrong: "contents proj new k s = None \<Longrightarrow> typed_upd proj con new f k s = (Inl WrongType, s)"
  by (auto simp: contents_def typed_upd_def or_insert_def split: option.splits)

lemma upd_hit:
  assumes "contents proj new k s = Some x"
  shows "fst (typed_upd proj con new f k s) = fst (f x)"
    and "contents proj new k (snd (typed_upd proj con new f k s)) = Some (snd (f x))"
    and "lookup (snd (typed_upd proj con new f k s)) k =
      Some \<lparr>entry_value = con (snd (f x)), expires_at = expiry k s\<rparr>"
  using assms
  by (auto simp: contents_def typed_upd_def or_insert_def expiry_def split_def Let_def split: option.splits)

lemma upd_frame: "k' \<noteq> k \<Longrightarrow> lookup (snd (typed_upd proj con new f k s)) k' = lookup s k'"
  by (auto simp: typed_upd_def or_insert_def split_def Let_def split: option.splits)

lemma upd_inv:
  assumes "store_inv s" and "\<And>x. ok x \<Longrightarrow> ok (snd (f x))"
  shows "store_inv (snd (typed_upd proj con new f k s))"
  using assms ok_new
  by (auto simp: typed_upd_def or_insert_def split_def Let_def proj_con inv_con
      intro!: store_inv_put dest: store_inv_lookup split: option.splits)

lemma mod_absent: "lookup s k = None \<Longrightarrow> typed_mod proj con a f k s = (Inr a, s)"
  by (simp add: typed_mod_def)

lemma mod_wrong: "contents proj new k s = None \<Longrightarrow> typed_mod proj con a f k s = (Inl WrongType, s)"
  by (auto simp: contents_def typed_mod_def split: option.splits)

lemma mod_hit:
  assumes "contents proj new k s = Some x" and "lookup s k \<noteq> None"
  shows "fst (typed_mod proj con a f k s) = fst (f x)"
    and "contents proj new k (snd (typed_mod proj con a f k s)) = Some (snd (f x))"
    and "lookup (snd (typed_mod proj con a f k s)) k =
      Some \<lparr>entry_value = con (snd (f x)), expires_at = expiry k s\<rparr>"
  using assms by (auto simp: contents_def typed_mod_def expiry_def split_def split: option.splits)

text \<open>Where the operation does to a fresh value what it does to a missing key, the key's presence is no matter.\<close>

lemma mod_eq_upd:
  assumes "contents proj new k s = Some x" and "f new = (Inr a, new)"
  shows "fst (typed_mod proj con a f k s) = fst (f x)"
    and "contents proj new k (snd (typed_mod proj con a f k s)) = Some (snd (f x))"
  using assms by (auto simp: contents_def typed_mod_def split_def split: option.splits)

lemma mod_frame: "k' \<noteq> k \<Longrightarrow> lookup (snd (typed_mod proj con a f k s)) k' = lookup s k'"
  by (auto simp: typed_mod_def split_def split: option.splits)

lemma mod_inv:
  assumes "store_inv s" and "\<And>x. ok x \<Longrightarrow> ok (snd (f x))"
  shows "store_inv (snd (typed_mod proj con a f k s))"
  using assms
  by (auto simp: typed_mod_def split_def proj_con inv_con
      intro!: store_inv_put dest: store_inv_lookup split: option.splits)

lemma read_hit: "contents proj new k s = Some x \<Longrightarrow> f new = a \<Longrightarrow> typed_read proj a f k s = Inr (f x)"
  by (auto simp: contents_def typed_read_def split: option.splits)

lemma read_wrong: "contents proj new k s = None \<Longrightarrow> typed_read proj a f k s = Inl WrongType"
  by (auto simp: contents_def typed_read_def split: option.splits)

lemma contents_frame: "lookup s' k = lookup s k \<Longrightarrow> contents proj new k s' = contents proj new k s"
  by (simp add: contents_def)

end

interpretation strings: typed_value VString as_string "[]" "\<lambda>_. True"
proof
  show "as_string v = Some x \<longleftrightarrow> v = VString x" for v x by (cases v) auto
qed simp_all

interpretation counters: typed_value VString as_string "''0''" "\<lambda>_. True"
proof
  show "as_string v = Some x \<longleftrightarrow> v = VString x" for v x by (cases v) auto
qed simp_all

interpretation lists: typed_value VList as_list list_new "\<lambda>_. True"
proof
  show "as_list v = Some x \<longleftrightarrow> v = VList x" for v x by (cases v) auto
qed simp_all

interpretation hashes: typed_value VHash as_hash hash_new hash_inv
proof
  show "as_hash v = Some x \<longleftrightarrow> v = VHash x" for v x by (cases v) auto
qed (simp_all add: enc_intros)

interpretation sets: typed_value VSet as_set set_new set_inv
proof
  show "as_set v = Some x \<longleftrightarrow> v = VSet x" for v x by (cases v) auto
qed simp_all

interpretation zsets: typed_value VZSet as_zset zset_new zset_inv
proof
  show "as_zset v = Some x \<longleftrightarrow> v = VZSet x" for v x by (cases v) auto
qed (simp_all add: enc_intros)

end
