(* ===== verification/Store_Laws.thy ===== *)
theory Store_Laws
  imports Redis_Store
begin

text \<open>
  The laws of the key space: every method keeps the store's invariant and touches only its own
  keys; keys and their expiry; and what the methods do to the abstract values, the sequence,
  map, set and sorted list under a key.
\<close>

section \<open>Every method keeps the invariant\<close>

lemma store_inv_get [enc_intros]: "store_inv s \<Longrightarrow> store_inv (snd (store_get now k s))"
  by (auto simp: store_get_def enc_intros split: option.splits)

lemma store_inv_set [enc_intros]:
  "store_inv s \<Longrightarrow> value_inv v \<Longrightarrow> store_set now k v ttl s = Some s' \<Longrightarrow> store_inv s'"
  by (auto simp: store_set_def enc_intros split: option.splits)

lemma store_inv_del [enc_intros]: "store_inv s \<Longrightarrow> store_inv (snd (store_del ks s))"
  by (induction ks arbitrary: s) (auto simp: split_def Let_def enc_intros)

lemma store_inv_expire [enc_intros]:
  "store_inv s \<Longrightarrow> store_expire now k ttl s = Some (b, s') \<Longrightarrow> store_inv s'"
  by (auto simp: store_expire_def store_inv_lookup intro!: store_inv_put split: option.splits if_splits)

lemma store_inv_persist [enc_intros]: "store_inv s \<Longrightarrow> store_inv (snd (store_persist k s))"
  by (auto simp: store_persist_def store_inv_lookup intro!: store_inv_put split: option.splits)

lemma store_inv_getset [enc_intros]: "store_inv s \<Longrightarrow> store_inv (snd (getset now k v s))"
  by (auto simp: getset_def split_def Let_def intro!: store_inv_put store_inv_get)

lemma store_inv_string_ops [enc_intros]:
  assumes "store_inv s"
  shows "store_inv (snd (store_append k b s))" "store_inv (snd (incrby k d s))"
  unfolding store_append_def incrby_def
  by (rule strings.upd_inv counters.upd_inv, rule assms, simp)+

lemma store_inv_list_ops [enc_intros]:
  assumes "store_inv s"
  shows "store_inv (snd (lpush k vs s))" "store_inv (snd (rpush k vs s))"
    "store_inv (snd (lpop k n s))" "store_inv (snd (rpop k n s))"
    "store_inv (snd (lset k i v s))" "store_inv (snd (linsert k b p v s))"
    "store_inv (snd (store_lrem k i v s))" "store_inv (snd (store_ltrim k i j s))"
  unfolding lpush_def rpush_def lpop_def rpop_def lset_def linsert_def store_lrem_def store_ltrim_def
  by (rule lists.upd_inv lists.mod_inv, rule assms, simp)+

lemma store_inv_lmove [enc_intros]:
  assumes "store_inv s"
  shows "store_inv (snd (lmove src dst l r s))"
proof -
  have "store_inv (snd (lmove_pop src l s))"
    unfolding lmove_pop_def by (rule lists.mod_inv [OF assms]) simp
  moreover have "store_inv s' \<Longrightarrow> store_inv (snd (lmove_push dst r v s'))" for v s'
    unfolding lmove_push_def by (rule lists.upd_inv) simp_all
  ultimately show ?thesis
    by (cases "lmove_pop src l s") (auto simp: lmove_def split: sum.split option.split)
qed

lemma store_inv_hash_ops [enc_intros]:
  assumes "store_inv s"
  shows "store_inv (snd (store_hset k f v s))" "store_inv (snd (store_hsetnx k f v s))"
    "store_inv (snd (store_hdel k fs s))" "store_inv (snd (hincrby k f d s))"
    "store_inv (snd (hincrbyfloat fmt k f x s))"
  unfolding store_hset_def store_hsetnx_def store_hdel_def hincrby_def hincrbyfloat_def
  by (rule hashes.upd_inv hashes.mod_inv, rule assms,
      simp add: split_def Let_def enc_intros split: option.split)+

lemma store_inv_set_ops [enc_intros]:
  assumes "store_inv s"
  shows "store_inv (snd (store_sadd k ms s))" "store_inv (snd (store_srem k ms s))"
  unfolding store_sadd_def store_srem_def
  by (rule sets.upd_inv sets.mod_inv, rule assms, simp add: split_def enc_intros)+

lemma store_inv_smove [enc_intros]:
  assumes "store_inv s"
  shows "store_inv (snd (smove src dst m s))"
proof -
  have "store_inv (snd (smove_remove src m s))"
    unfolding smove_remove_def by (rule sets.mod_inv [OF assms]) (simp add: split_def remove_one_elems)
  moreover have "store_inv s' \<Longrightarrow> store_inv (snd (smove_add dst m s'))" for s'
    unfolding smove_add_def by (rule sets.upd_inv) (simp_all only: snd_conv set_inv_sadd)
  ultimately show ?thesis
    by (cases "smove_remove src m s") (auto simp: smove_def split: sum.split)
qed

lemma store_inv_spop [enc_intros]:
  assumes "store_inv s" and "\<And>xs. mset (shuffle xs) = mset xs"
  shows "store_inv (snd (store_spop shuffle k n s))"
  unfolding store_spop_def
  by (rule sets.mod_inv [OF assms(1)]) (simp add: split_def spop_split assms(2))

lemma store_inv_result [enc_intros]: "store_inv s \<Longrightarrow> store_inv (snd (store_result dst r s))"
  by (auto simp: store_result_def split: sum.split intro!: store_inv_put set_inv_sadd)

lemma store_inv_setstore [enc_intros]:
  assumes "store_inv s"
  shows "store_inv (snd (sunionstore dst ks s))" "store_inv (snd (sinterstore dst ks s))"
    "store_inv (snd (sdiffstore dst ks s))"
  using assms by (simp_all add: sunionstore_def sinterstore_def sdiffstore_def store_inv_result)

lemma store_inv_zset_ops [enc_intros]:
  assumes "store_inv s"
  shows "store_inv (snd (store_zadd k x m nx xx gt lt s))" "store_inv (snd (store_zincrby k x m s))"
    "store_inv (snd (store_zrem k ms s))" "store_inv (snd (store_zpopmin k n s))"
    "store_inv (snd (store_zpopmax k n s))" "store_inv (snd (store_zremrangebyrank k i j s))"
    "store_inv (snd (store_zremrangebyscore k lo hi s))"
  unfolding store_zadd_def store_zincrby_def store_zrem_def store_zpopmin_def store_zpopmax_def
    store_zremrangebyrank_def store_zremrangebyscore_def
  by (rule zsets.upd_inv zsets.mod_inv, rule assms,
      simp add: split_def enc_intros zpopmin_spec zpopmax_spec)+

section \<open>Keys and expiry\<close>

text \<open>What a client can see of a key at a time.\<close>

definition live :: "nat \<Rightarrow> store \<Rightarrow> bytes \<Rightarrow> store_value option" where
  "live now s k = (case lookup s k of
     None \<Rightarrow> None | Some e \<Rightarrow> if is_expired now e then None else Some (entry_value e))"

lemma store_get_live: "fst (store_get now k s) = live now s k"
  by (simp add: store_get_def live_def split: option.split)

text \<open>Dropping an expired entry on the way is invisible from then on.\<close>

lemma live_after_get:
  assumes "now \<le> later"
  shows "live later (snd (store_get now k s)) = live later s"
  using assms by (auto simp: store_get_def live_def is_expired_def fun_eq_iff split: option.splits)

lemma store_exists_live: "store_exists now k s \<longleftrightarrow> live now s k \<noteq> None"
  by (simp add: store_exists_def live_def split: option.split)

lemma type_of_live: "type_of now k s = (case live now s k of None \<Rightarrow> ''none'' | Some v \<Rightarrow> kind_text v)"
  by (simp add: type_of_def live_def split: option.split)

lemma live_set:
  assumes "store_set now k v ttl s = Some s'"
  shows "live t s' = (live t s)(k := (case ttl of Some d \<Rightarrow> if now + d < t then None else Some v | None \<Rightarrow> Some v))"
  using assms
  by (auto simp: store_set_def instant_add_def live_def is_expired_def fun_eq_iff split: option.splits if_splits)

lemma store_del_lookup:
  "lookup (snd (store_del ks s)) k = (if k \<in> set ks then None else lookup s k)"
  by (induction ks arbitrary: s) (auto simp: split_def Let_def)

lemma store_del_count:
  "store_inv s \<Longrightarrow> keys_count s = fst (store_del ks s) + keys_count (snd (store_del ks s))"
proof (induction ks arbitrary: s)
  case (Cons k ks)
  have "keys_count (remove k s) = fst (store_del ks (remove k s)) + keys_count (snd (store_del ks (remove k s)))"
    by (rule Cons.IH) (rule store_inv_remove [OF Cons.prems])
  moreover have "keys_count s = keys_count (remove k s) + (if lookup s k = None then 0 else 1)"
    using length_delete [of "data s" k] Cons.prems by (simp add: keys_count_def remove_def lookup_def store_inv_def)
  ultimately show ?case by (simp add: split_def Let_def)
qed simp

lemma expire_live:
  assumes "store_expire now k ttl s = Some (b, s')"
  shows "b \<longleftrightarrow> live now s k \<noteq> None" and "b \<Longrightarrow> store_pttl t k s' =
      (if now + ttl \<le> t then - 2 else i64_wrap (int ((now + ttl - t) div 1000000)))"
    and "\<not> b \<Longrightarrow> s' = s"
  using assms
  by (auto simp: store_expire_def live_def store_pttl_def instant_add_def is_expired_def
      split: option.splits if_splits)

lemma persist_pttl: "fst (store_persist k s) \<Longrightarrow> store_pttl t k (snd (store_persist k s)) = - 1"
  by (auto simp: store_persist_def store_pttl_def is_expired_def split: option.splits if_splits)

lemma set_all_keys:
  assumes "store_inv s"
  shows "set (all_keys now s) = {k. live now s k \<noteq> None}"
proof -
  have "k \<in> set (all_keys now s) \<longleftrightarrow> (\<exists>e. lookup s k = Some e \<and> \<not> is_expired now e)" for k
    using assms by (auto simp: all_keys_def lookup_def store_inv_def image_iff)
  then show ?thesis by (auto simp: live_def split: option.splits)
qed

lemma distinct_all_keys: "store_inv s \<Longrightarrow> distinct (all_keys now s)"
  by (simp add: all_keys_def store_inv_def distinct_map_filter)

lemma keyspace_info_eq:
  "keyspace_info now s =
     (length (all_keys now s),
      length (filter (\<lambda>(k, e). \<not> is_expired now e \<and> expires_at e \<noteq> None) (data s)))"
proof -
  have "fold (\<lambda>(k, e) (total, with_expiry).
        if \<not> is_expired now e
        then (total + 1, if expires_at e \<noteq> None then with_expiry + 1 else with_expiry)
        else (total, with_expiry)) es (a, b) =
      (a + length (filter (\<lambda>(k, e). \<not> is_expired now e) es),
       b + length (filter (\<lambda>(k, e). \<not> is_expired now e \<and> expires_at e \<noteq> None) es))" for es a b
    by (induction es arbitrary: a b) (auto split: if_splits)
  from this [of "data s" 0 0] show ?thesis
    by (simp only: keyspace_info_def all_keys_def length_map add_0_left)
qed

section \<open>Strings\<close>

definition string_at :: "bytes \<Rightarrow> store \<Rightarrow> bytes option" where
  "string_at k s = contents as_string [] k s"

lemma append_spec:
  assumes "string_at k s = Some b"
  shows "fst (store_append k b' s) = Inr (length b + length b')"
    and "string_at k (snd (store_append k b' s)) = Some (b @ b')"
  using assms by (simp_all add: string_at_def store_append_def strings.upd_hit Let_def)

text \<open>The number under a key: a missing key counts as zero.\<close>

definition counter_at :: "bytes \<Rightarrow> store \<Rightarrow> i64 option" where
  "counter_at k s = Option.bind (contents as_string ''0'' k s) parse_trimmed_i64"

lemma parse_trimmed_show: "is_i64 n \<Longrightarrow> parse_trimmed_i64 (show_int n) = Some n"
  by (simp add: parse_trimmed_i64_def is_utf8_show_int trim_show_int parse_i64_show_int)

lemma parse_trimmed_zero: "parse_trimmed_i64 ''0'' = Some 0"
  by code_simp

lemma incrby_spec:
  assumes "counter_at k s = Some n"
  shows "fst (incrby k d s) = (if is_i64 (n + d) then Inr (n + d) else Inl IncrOverflow)"
    and "counter_at k (snd (incrby k d s)) = Some (if is_i64 (n + d) then n + d else n)"
proof -
  obtain b where b: "contents as_string ''0'' k s = Some b" "parse_trimmed_i64 b = Some n"
    using assms by (auto simp: counter_at_def Option.bind_eq_Some_conv)
  show "fst (incrby k d s) = (if is_i64 (n + d) then Inr (n + d) else Inl IncrOverflow)"
    using b(2) by (simp add: incrby_def counters.upd_hit(1) [OF b(1)] checked_add_i64_def)
  show "counter_at k (snd (incrby k d s)) = Some (if is_i64 (n + d) then n + d else n)"
    using b(2)
    by (simp add: incrby_def counter_at_def counters.upd_hit(2) [OF b(1)] checked_add_i64_def parse_trimmed_show)
qed

lemma incrby_fails:
  assumes "counter_at k s = None"
  shows "\<exists>err. incrby k d s = (Inl err, snd (incrby k d s)) \<and> err \<in> {WrongType, NotInteger}"
    and "string_at k (snd (incrby k d s)) = string_at k s"
proof -
  consider "contents as_string ''0'' k s = None"
    | b where "contents as_string ''0'' k s = Some b" "parse_trimmed_i64 b = None"
    using assms by (cases "contents as_string ''0'' k s") (auto simp: counter_at_def)
  then show "\<exists>err. incrby k d s = (Inl err, snd (incrby k d s)) \<and> err \<in> {WrongType, NotInteger}"
    by cases (auto simp: incrby_def counters.upd_wrong counters.upd_hit prod_eq_iff)
  show "string_at k (snd (incrby k d s)) = string_at k s"
  proof (cases "lookup s k")
    case None
    then have "counter_at k s = Some 0"
      by (simp add: counter_at_def contents_def parse_trimmed_zero)
    with assms show ?thesis by simp
  next
    case (Some e)
    with assms show ?thesis
      by (cases "as_string (entry_value e)")
        (auto simp: incrby_def typed_upd_def or_insert_def counter_at_def string_at_def contents_def)
  qed
qed

section \<open>Lists\<close>

definition list_at :: "bytes \<Rightarrow> store \<Rightarrow> bytes list option" where
  "list_at k s = map_option to_vec (contents as_list list_new k s)"

lemma list_atE:
  assumes "list_at k s = Some xs"
  obtains l where "contents as_list list_new k s = Some l" "to_vec l = xs"
  using assms by (auto simp: list_at_def)

lemma push_spec:
  assumes "list_at k s = Some xs"
  shows "fst (lpush k vs s) = Inr (length xs + length vs)"
    and "list_at k (snd (lpush k vs s)) = Some (rev vs @ xs)"
    and "fst (rpush k vs s) = Inr (length xs + length vs)"
    and "list_at k (snd (rpush k vs s)) = Some (xs @ vs)"
proof -
  obtain l where l: "contents as_list list_new k s = Some l" "to_vec l = xs"
    using assms by (rule list_atE)
  note hit = lists.upd_hit(1,2) [OF l(1)]
  show "fst (lpush k vs s) = Inr (length xs + length vs)" "list_at k (snd (lpush k vs s)) = Some (rev vs @ xs)"
    "fst (rpush k vs s) = Inr (length xs + length vs)" "list_at k (snd (rpush k vs s)) = Some (xs @ vs)"
    using l(2) by (simp_all add: lpush_def rpush_def list_at_def hit Let_def rl.seq_pushf_all rl.seq_pushb_all)
qed

lemma pop_n_new: "pop_front_n n list_new = ([], list_new)" "pop_back_n n list_new = ([], list_new)"
proof -
  show "pop_front_n n list_new = ([], list_new)"
    by (cases n) (simp_all add: pop_front_n_def rl.popf_empty)
  show "pop_back_n n list_new = ([], list_new)"
    by (cases n) (simp_all add: pop_back_n_def rl.popb_empty)
qed

lemma pop_new: "pop_front list_new = (None, list_new)" "pop_back list_new = (None, list_new)"
  by (simp_all add: rl.popf_empty rl.popb_empty)

lemma pop_spec:
  assumes "list_at k s = Some xs"
  shows "fst (lpop k n s) = Inr (take n xs)" and "list_at k (snd (lpop k n s)) = Some (drop n xs)"
    and "fst (rpop k n s) = Inr (take n (rev xs))"
    and "list_at k (snd (rpop k n s)) = Some (take (length xs - n) xs)"
proof -
  obtain l where l: "contents as_list list_new k s = Some l" "to_vec l = xs"
    using assms by (rule list_atE)
  note hit = lists.mod_eq_upd [OF l(1)]
  show "fst (lpop k n s) = Inr (take n xs)" "list_at k (snd (lpop k n s)) = Some (drop n xs)"
    "fst (rpop k n s) = Inr (take n (rev xs))" "list_at k (snd (rpop k n s)) = Some (take (length xs - n) xs)"
    using l(2) by (simp_all add: lpop_def rpop_def list_at_def hit pop_n_new split_def seq_simps)
qed

lemma llen_spec: "list_at k s = Some xs \<Longrightarrow> llen k s = Inr (length xs)"
  by (erule list_atE) (simp add: llen_def lists.read_hit)

lemma lrange_spec:
  assumes "list_at k s = Some xs" and "is_i64 start" "is_i64 stop" "stop \<noteq> 2 ^ 63 - 1"
    and "length xs < 2 ^ 63"
  shows "lrange k start stop s = Inr (redis_range start stop xs)"
proof -
  obtain l where l: "contents as_list list_new k s = Some l" "to_vec l = xs"
    using assms(1) by (rule list_atE)
  let ?n = "length xs"
  have w: "start < 0 \<Longrightarrow> i64_wrap (int ?n + start) = int ?n + start"
    "stop < 0 \<Longrightarrow> i64_wrap (int ?n + stop) = int ?n + stop"
    "stop < 0 \<Longrightarrow> i64_wrap (int ?n + stop + 1) = int ?n + stop + 1"
    "0 \<le> stop \<Longrightarrow> i64_wrap (stop + 1) = stop + 1"
    using assms by (auto intro!: i64_wrap_id simp: is_i64_def)
  have b: "nat (max (if start < 0 then i64_wrap (int ?n + start) else start) 0) = nat (abs_index ?n start)"
    by (simp add: w abs_index_def max_def)
  have e: "nat (max (min (if stop < 0 then i64_wrap (i64_wrap (int ?n + stop) + 1)
      else i64_wrap (stop + 1)) (int ?n)) 0) = min (nat (abs_index ?n stop + 1)) ?n"
    by (auto simp: w abs_index_def max_def min_def)
  have t: "take (min m ?n) xs = take m xs" for m by (simp add: min_def)
  show ?thesis
    unfolding lrange_def redis_range_slice
    by (subst lists.read_hit [OF l(1)])
      (simp_all add: Let_def seq_simps l(2) b e t)
qed

lemma lindex_spec:
  assumes "list_at k s = Some xs" and "is_i64 i" and "length xs < 2 ^ 63"
  shows "lindex k i s =
    Inr (let j = abs_index (length xs) i in
         if 0 \<le> j \<and> j < int (length xs) then Some (xs ! nat j) else None)"
proof -
  obtain l where l: "contents as_list list_new k s = Some l" "to_vec l = xs"
    using assms(1) by (rule list_atE)
  have w: "(if i < 0 then i64_wrap (int (length xs) + i) else i) = abs_index (length xs) i"
    using assms by (auto simp: abs_index_def is_i64_def intro!: i64_wrap_id)
  have u: "0 \<le> j \<Longrightarrow> j < int (length xs) \<Longrightarrow> usize_wrap j = nat j" for j
    using assms(3) by (simp add: usize_wrap_nonneg)
  show ?thesis
    unfolding lindex_def
    by (subst lists.read_hit [OF l(1)]) (auto simp: Let_def seq_simps l(2) w u)
qed

lemma lset_spec:
  assumes "list_at k s = Some xs" and "lookup s k \<noteq> None" and "is_i64 i" and "length xs < 2 ^ 63"
  defines "j \<equiv> abs_index (length xs) i"
  shows "fst (lset k i v s) = (if 0 \<le> j \<and> j < int (length xs) then Inr True else Inl IndexOutOfRange)"
    and "list_at k (snd (lset k i v s)) =
      Some (if 0 \<le> j \<and> j < int (length xs) then xs[nat j := v] else xs)"
proof -
  obtain l where l: "contents as_list list_new k s = Some l" "to_vec l = xs"
    using assms(1) by (rule list_atE)
  have w: "(if i < 0 then i64_wrap (int (length xs) + i) else i) = j"
    using assms by (auto simp: abs_index_def is_i64_def intro!: i64_wrap_id)
  have u: "0 \<le> j \<Longrightarrow> j < int (length xs) \<Longrightarrow> usize_wrap j = nat j"
    using assms(4) by (simp add: usize_wrap_nonneg)
  note hit = lists.mod_hit [OF l(1) assms(2)]
  show "fst (lset k i v s) = (if 0 \<le> j \<and> j < int (length xs) then Inr True else Inl IndexOutOfRange)"
    using w by (cases "i < 0") (auto simp: lset_def hit Let_def l(2) u split_def seq_simps)
  show "list_at k (snd (lset k i v s)) =
      Some (if 0 \<le> j \<and> j < int (length xs) then xs[nat j := v] else xs)"
    using w by (cases "i < 0") (auto simp: lset_def list_at_def hit Let_def l(2) u split_def seq_simps)
qed

lemma ltrim_spec:
  assumes "list_at k s = Some xs" and "lookup s k \<noteq> None" and "is_i64 start" "is_i64 stop" "length xs < 2 ^ 63"
  shows "list_at k (snd (store_ltrim k start stop s)) = Some (redis_range start stop xs)"
proof -
  obtain l where l: "contents as_list list_new k s = Some l" "to_vec l = xs"
    using assms(1) by (rule list_atE)
  show ?thesis
    using assms l(2) by (simp add: store_ltrim_def list_at_def lists.mod_hit [OF l(1)] seq_simps)
qed

text \<open>One end of a sequence: its element, the rest, and putting an element there.\<close>

definition end_elem :: "bool \<Rightarrow> 'a list \<Rightarrow> 'a" where
  "end_elem left xs = (if left then hd xs else last xs)"

definition end_rest :: "bool \<Rightarrow> 'a list \<Rightarrow> 'a list" where
  "end_rest left xs = (if left then tl xs else butlast xs)"

definition end_put :: "bool \<Rightarrow> 'a \<Rightarrow> 'a list \<Rightarrow> 'a list" where
  "end_put left x xs = (if left then x # xs else xs @ [x])"

lemma mset_end: "xs \<noteq> [] \<Longrightarrow> add_mset (end_elem left xs) (mset (end_rest left xs)) = mset xs"
proof (cases left)
  case True
  then show "xs \<noteq> [] \<Longrightarrow> ?thesis" by (cases xs) (auto simp: end_elem_def end_rest_def)
next
  case False
  then show "xs \<noteq> [] \<Longrightarrow> ?thesis" by (cases xs rule: rev_cases) (auto simp: end_elem_def end_rest_def)
qed

lemma mset_end_put: "mset (end_put left x xs) = add_mset x (mset xs)"
  by (simp add: end_put_def)

lemma list_at_frame: "lookup s' k = lookup s k \<Longrightarrow> list_at k s' = list_at k s"
  by (simp add: list_at_def contents_def)

lemma lmove_pop_spec:
  assumes "list_at src s = Some xs"
  shows "fst (lmove_pop src left s) = Inr (if xs = [] then None else Some (end_elem left xs))"
    and "list_at src (snd (lmove_pop src left s)) = Some (end_rest left xs)"
    and "k \<noteq> src \<Longrightarrow> list_at k (snd (lmove_pop src left s)) = list_at k s"
proof -
  obtain l where l: "contents as_list list_new src s = Some l" "to_vec l = xs"
    using assms by (rule list_atE)
  note hit = lists.mod_eq_upd [OF l(1)]
  show "fst (lmove_pop src left s) = Inr (if xs = [] then None else Some (end_elem left xs))"
    "list_at src (snd (lmove_pop src left s)) = Some (end_rest left xs)"
    using l(2)
    by (auto simp: lmove_pop_def list_at_def hit pop_new split_def seq_simps end_elem_def end_rest_def split: list.split)
  show "k \<noteq> src \<Longrightarrow> list_at k (snd (lmove_pop src left s)) = list_at k s"
    by (intro list_at_frame) (simp add: lmove_pop_def lists.mod_frame)
qed

lemma lmove_push_spec:
  assumes "list_at dst s = Some xs"
  shows "fst (lmove_push dst left v s) = Inr (Some v)"
    and "list_at dst (snd (lmove_push dst left v s)) = Some (end_put left v xs)"
    and "k \<noteq> dst \<Longrightarrow> list_at k (snd (lmove_push dst left v s)) = list_at k s"
proof -
  obtain l where l: "contents as_list list_new dst s = Some l" "to_vec l = xs"
    using assms by (rule list_atE)
  show "fst (lmove_push dst left v s) = Inr (Some v)"
    "list_at dst (snd (lmove_push dst left v s)) = Some (end_put left v xs)"
    using l(2) by (simp_all add: lmove_push_def list_at_def lists.upd_hit [OF l(1)] seq_simps end_put_def)
  show "k \<noteq> dst \<Longrightarrow> list_at k (snd (lmove_push dst left v s)) = list_at k s"
    by (intro list_at_frame) (simp add: lmove_push_def lists.upd_frame)
qed

text \<open>
  \<open>LMOVE\<close> between two list keys moves one element from an end of the source to an end of the
  destination; with one key for both it rotates.
\<close>

lemma lmove_eq:
  assumes "list_at src s = Some xs" and "xs \<noteq> []"
  shows "lmove src dst fl tt s = lmove_push dst tt (end_elem fl xs) (snd (lmove_pop src fl s))"
  using lmove_pop_spec(1) [OF assms(1), of fl] assms(2)
  by (cases "lmove_pop src fl s") (simp add: lmove_def)

lemma lmove_empty:
  assumes "list_at src s = Some []"
  shows "fst (lmove src dst fl tt s) = Inr None" and "list_at k (snd (lmove src dst fl tt s)) = list_at k s"
  using lmove_pop_spec [OF assms, where left = fl] assms
  by (cases "lmove_pop src fl s"; cases "k = src"; simp add: lmove_def end_rest_def split: if_splits)+

lemma lmove_spec:
  assumes "list_at src s = Some xs" and "xs \<noteq> []" and "list_at dst s = Some ys"
  shows "fst (lmove src dst fl tt s) = Inr (Some (end_elem fl xs))"
    and "src \<noteq> dst \<Longrightarrow> list_at src (snd (lmove src dst fl tt s)) = Some (end_rest fl xs)"
    and "src \<noteq> dst \<Longrightarrow> list_at dst (snd (lmove src dst fl tt s)) = Some (end_put tt (end_elem fl xs) ys)"
    and "src = dst \<Longrightarrow> list_at dst (snd (lmove src dst fl tt s)) =
      Some (end_put tt (end_elem fl xs) (end_rest fl xs))"
proof -
  let ?s = "snd (lmove_pop src fl s)"
  note pop = lmove_pop_spec [OF assms(1), where left = fl]
  have dst: "list_at dst ?s = Some (if src = dst then end_rest fl xs else ys)"
    using pop assms by auto
  note push = lmove_push_spec [OF dst, where left = tt and v = "end_elem fl xs"] and eq = lmove_eq [OF assms(1,2)]
  show "fst (lmove src dst fl tt s) = Inr (Some (end_elem fl xs))"
    "src \<noteq> dst \<Longrightarrow> list_at src (snd (lmove src dst fl tt s)) = Some (end_rest fl xs)"
    "src \<noteq> dst \<Longrightarrow> list_at dst (snd (lmove src dst fl tt s)) = Some (end_put tt (end_elem fl xs) ys)"
    "src = dst \<Longrightarrow> list_at dst (snd (lmove src dst fl tt s)) =
      Some (end_put tt (end_elem fl xs) (end_rest fl xs))"
    unfolding eq using push pop by simp_all
qed

text \<open>With a destination of another kind the element is taken from the source and dropped.\<close>

lemma lmove_loses:
  assumes "list_at src s = Some xs" and "xs \<noteq> []" and "list_at dst s = None"
  shows "fst (lmove src dst fl tt s) = Inl WrongType"
    and "list_at src (snd (lmove src dst fl tt s)) = Some (end_rest fl xs)"
proof -
  let ?s = "snd (lmove_pop src fl s)"
  have "src \<noteq> dst" using assms by auto
  then have "list_at dst ?s = None"
    using lmove_pop_spec(3) [OF assms(1), of dst fl] assms(3) by simp
  then have "contents as_list list_new dst ?s = None" by (simp add: list_at_def)
  then have "lmove_push dst tt v ?s = (Inl WrongType, ?s)" for v
    unfolding lmove_push_def by (rule lists.upd_wrong)
  then show "fst (lmove src dst fl tt s) = Inl WrongType"
    "list_at src (snd (lmove src dst fl tt s)) = Some (end_rest fl xs)"
    using lmove_pop_spec(2) [OF assms(1), of fl] by (simp_all add: lmove_eq [OF assms(1,2)])
qed

section \<open>Hashes\<close>

definition hash_at :: "bytes \<Rightarrow> store \<Rightarrow> (bytes \<Rightarrow> bytes option) option" where
  "hash_at k s = map_option hash_lookup (contents as_hash hash_new k s)"

lemma hash_atE:
  assumes "hash_at k s = Some m" and "store_inv s"
  obtains h where "contents as_hash hash_new k s = Some h" "hash_lookup h = m" "hash_inv h"
  using assms hashes.contents_ok by (auto simp: hash_at_def)

lemma hset_spec:
  assumes "hash_at k s = Some m" and "store_inv s"
  shows "fst (store_hset k f v s) = Inr (if m f = None then 1 else 0)"
    and "hash_at k (snd (store_hset k f v s)) = Some (m(f \<mapsto> v))"
    and "hget k f (snd (store_hset k f v s)) = Inr (Some v)"
proof -
  obtain h where h: "contents as_hash hash_new k s = Some h" "hash_lookup h = m" "hash_inv h"
    using assms by (rule hash_atE)
  note hit = hashes.upd_hit [OF h(1)]
  show "fst (store_hset k f v s) = Inr (if m f = None then 1 else 0)"
    "hash_at k (snd (store_hset k f v s)) = Some (m(f \<mapsto> v))"
    using h by (simp_all add: store_hset_def hash_at_def hit split_def hset_count map_simps)
  have "contents as_hash hash_new k (snd (store_hset k f v s)) = Some (snd (hset f v h))"
    by (simp add: store_hset_def hit split_def)
  from hashes.read_hit [OF this, of "\<lambda>h. hash_get h f" None]
  show "hget k f (snd (store_hset k f v s)) = Inr (Some v)"
    using h by (simp add: hget_def map_simps)
qed

lemma hdel_new: "hdel fs hash_new = (0, hash_new)"
  by (simp add: hash_new_def Let_def)

lemma hdel_spec:
  assumes "hash_at k s = Some m" and "store_inv s"
  shows "hash_at k (snd (store_hdel k fs s)) = Some (m |` (- set fs))"
    and "fst (store_hdel k fs s) = Inr (card (dom m \<inter> set fs))"
proof -
  obtain h where h: "contents as_hash hash_new k s = Some h" "hash_lookup h = m" "hash_inv h"
    using assms by (rule hash_atE)
  note hit = hashes.mod_eq_upd [OF h(1)]
  show "hash_at k (snd (store_hdel k fs s)) = Some (m |` (- set fs))"
    using h by (simp add: store_hdel_def hash_at_def hit hdel_new split_def map_simps)
  let ?h' = "snd (hdel fs h)"
  have "length (all_pairs h) = fst (hdel fs h) + length (all_pairs ?h')" by (rule hdel_count [OF h(3)])
  moreover have "length (all_pairs h) = card (dom m)" using hash_len_card [OF h(3)] h(2) by simp
  moreover have "length (all_pairs ?h') = card (dom m - set fs)"
    using hash_len_card [OF hash_inv_hdel [OF h(3)]] h(2)
    by (simp add: map_simps Diff_eq)
  moreover have "finite (dom m)" using h(2) by (auto simp: hash_lookup_def finite_dom_map_of)
  then have "card (dom m) = card (dom m \<inter> set fs) + card (dom m - set fs)"
    by (metis card_Int_Diff)
  ultimately show "fst (store_hdel k fs s) = Inr (card (dom m \<inter> set fs))"
    by (simp add: store_hdel_def hit hdel_new split_def)
qed

lemma hincrby_spec:
  assumes "hash_at k s = Some m" and "store_inv s"
    and "(case m f of None \<Rightarrow> Some 0 | Some b \<Rightarrow> parse_trimmed_i64 b) = Some n"
  shows "fst (hincrby k f d s) = (if is_i64 (n + d) then Inr (n + d) else Inl HashOverflow)"
    and "hash_at k (snd (hincrby k f d s)) =
      Some (if is_i64 (n + d) then m(f \<mapsto> show_int (n + d)) else m)"
proof -
  obtain h where h: "contents as_hash hash_new k s = Some h" "hash_lookup h = m" "hash_inv h"
    using assms(1,2) by (rule hash_atE)
  note hit = hashes.upd_hit [OF h(1)]
  show "fst (hincrby k f d s) = (if is_i64 (n + d) then Inr (n + d) else Inl HashOverflow)"
    "hash_at k (snd (hincrby k f d s)) = Some (if is_i64 (n + d) then m(f \<mapsto> show_int (n + d)) else m)"
    using h assms(3)
    by (simp_all add: hincrby_def hash_at_def hit map_simps checked_add_i64_def)
qed

section \<open>Sets\<close>

definition set_at :: "bytes \<Rightarrow> store \<Rightarrow> bytes set option" where
  "set_at k s = map_option set_elems (contents as_set set_new k s)"

lemma set_atE:
  assumes "set_at k s = Some A" and "store_inv s"
  obtains t where "contents as_set set_new k s = Some t" "set_elems t = A" "set_inv t"
  using assms sets.contents_ok by (auto simp: set_at_def)

lemma sadd_spec:
  assumes "set_at k s = Some A" and "store_inv s"
  shows "fst (store_sadd k ms s) = Inr (card (set ms - A))"
    and "set_at k (snd (store_sadd k ms s)) = Some (A \<union> set ms)"
proof -
  obtain t where t: "contents as_set set_new k s = Some t" "set_elems t = A" "set_inv t"
    using assms by (rule set_atE)
  show "set_at k (snd (store_sadd k ms s)) = Some (A \<union> set ms)"
    using t by (simp add: store_sadd_def set_at_def sets.upd_hit [OF t(1)] split_def set_simps)
  have fin: "finite A" using t(2) by auto
  have "card (A \<union> set ms) = card A + fst (sadd ms t)"
    using sadd_count [OF t(3), of ms] t by (simp add: set_simps)
  moreover have "card (A \<union> set ms) = card A + card (set ms - A)"
    using fin by (subst Un_Diff_cancel [symmetric], subst card_Un_disjoint) auto
  ultimately show "fst (store_sadd k ms s) = Inr (card (set ms - A))"
    by (simp add: store_sadd_def sets.upd_hit [OF t(1)] split_def)
qed

lemma srem_new: "srem ms set_new = (0, set_new)"
  by (simp add: set_new_def)

lemma srem_spec:
  assumes "set_at k s = Some A" and "store_inv s"
  shows "fst (store_srem k ms s) = Inr (card (A \<inter> set ms))"
    and "set_at k (snd (store_srem k ms s)) = Some (A - set ms)"
proof -
  obtain t where t: "contents as_set set_new k s = Some t" "set_elems t = A" "set_inv t"
    using assms by (rule set_atE)
  note hit = sets.mod_eq_upd [OF t(1)]
  show "set_at k (snd (store_srem k ms s)) = Some (A - set ms)"
    using t by (simp add: store_srem_def set_at_def hit srem_new split_def set_simps)
  have fin: "finite A" using t(2) by auto
  have "card A = fst (srem ms t) + card (A - set ms)"
    using srem_count [OF t(3), of ms] t set_len_card [OF set_inv_srem [OF t(3), of ms]] set_len_card [OF t(3)]
    by (simp add: set_simps)
  moreover have "card A = card (A \<inter> set ms) + card (A - set ms)"
    using fin by (rule card_Int_Diff)
  ultimately show "fst (store_srem k ms s) = Inr (card (A \<inter> set ms))"
    by (simp add: store_srem_def hit srem_new split_def)
qed

text \<open>The algebra over several keys: a key of another kind is an error, a missing key the empty set.\<close>

lemma collect_sets_Inr:
  assumes "\<forall>k \<in> set ks. set_at k s \<noteq> None" and "store_inv s"
  shows "\<exists>ts. collect_sets ks s = Inr ts \<and> map set_elems ts = map (\<lambda>k. the (set_at k s)) ks \<and> (\<forall>t \<in> set ts. set_inv t)"
  using assms
proof (induction ks)
  case (Cons k ks)
  then obtain ts where ts: "collect_sets ks s = Inr ts" "map set_elems ts = map (\<lambda>k. the (set_at k s)) ks"
    "\<forall>t \<in> set ts. set_inv t" by auto
  show ?case
  proof (cases "lookup s k")
    case None
    then show ?thesis using ts by (simp add: get_set_clone_def typed_read_def set_at_def contents_def)
  next
    case (Some e)
    then obtain t where t: "as_set (entry_value e) = Some t" using Cons.prems by (auto simp: set_at_def contents_def)
    then have "set_inv t"
      using sets.contents_ok [OF \<open>store_inv s\<close>, of k t] Some by (simp add: contents_def)
    with t Some ts show ?thesis by (simp add: get_set_clone_def typed_read_def set_at_def contents_def)
  qed
qed simp

lemma collect_sets_Inl:
  assumes "\<exists>k \<in> set ks. set_at k s = None"
  shows "collect_sets ks s = Inl WrongType"
  using assms
proof (induction ks)
  case (Cons k ks)
  show ?case
  proof (cases "set_at k s")
    case None
    then have "get_set_clone k s = Inl WrongType"
      unfolding get_set_clone_def by (intro sets.read_wrong) (simp add: set_at_def)
    then show ?thesis by simp
  next
    case (Some A)
    then have "\<exists>o'. get_set_clone k s = Inr o'"
      by (auto simp: get_set_clone_def typed_read_def set_at_def contents_def split: option.splits)
    with Some Cons show ?thesis by auto
  qed
qed simp

text \<open>The set each of the three commands denotes, from the sets under the keys.\<close>

fun sets_union :: "'a set list \<Rightarrow> 'a set" where
  "sets_union As = \<Union> (set As)"

fun sets_inter :: "'a set list \<Rightarrow> 'a set" where
  "sets_inter [] = {}" | "sets_inter (A # As) = A \<inter> \<Inter> (set As)"

fun sets_diff :: "'a set list \<Rightarrow> 'a set" where
  "sets_diff [] = {}" | "sets_diff (A # As) = A - \<Union> (set As)"

lemma set_algebra_spec:
  assumes "\<forall>k \<in> set ks. set_at k s \<noteq> None" and "store_inv s"
  defines "As \<equiv> map (\<lambda>k. the (set_at k s)) ks"
  shows "\<exists>ms. sunion ks s = Inr ms \<and> distinct ms \<and> set ms = sets_union As"
    and "\<exists>ms. sinter ks s = Inr ms \<and> distinct ms \<and> set ms = sets_inter As"
    and "\<exists>ms. sdiff ks s = Inr ms \<and> distinct ms \<and> set ms = sets_diff As"
proof -
  obtain ts where ts: "collect_sets ks s = Inr ts" "map set_elems ts = As" "\<forall>t \<in> set ts. set_inv t"
    using collect_sets_Inr [OF assms(1,2)] As_def by auto
  show "\<exists>ms. sunion ks s = Inr ms \<and> distinct ms \<and> set ms = sets_union As"
    "\<exists>ms. sinter ks s = Inr ms \<and> distinct ms \<and> set ms = sets_inter As"
    "\<exists>ms. sdiff ks s = Inr ms \<and> distinct ms \<and> set ms = sets_diff As"
    using ts(2,3)
    by (cases ts; auto simp: sunion_def sinter_def sdiff_def ts(1) set_simps distinct_algebra)+
qed

lemma set_algebra_wrong:
  assumes "\<exists>k \<in> set ks. set_at k s = None"
  shows "sunion ks s = Inl WrongType" "sinter ks s = Inl WrongType" "sdiff ks s = Inl WrongType"
  using collect_sets_Inl [OF assms] by (simp_all add: sunion_def sinter_def sdiff_def)

lemma store_result_spec:
  assumes "distinct ms"
  shows "fst (store_result dst (Inr ms) s) = Inr (card (set ms))"
    and "set_at dst (snd (store_result dst (Inr ms) s)) = Some (set ms)"
    and "k \<noteq> dst \<Longrightarrow> lookup (snd (store_result dst (Inr ms) s)) k = lookup s k"
  using assms by (simp_all add: store_result_def set_at_def contents_def set_simps distinct_card)

section \<open>Sorted sets\<close>

definition zset_at :: "bytes \<Rightarrow> store \<Rightarrow> (bytes \<Rightarrow> f64 option) option" where
  "zset_at k s = map_option zscore (contents as_zset zset_new k s)"

definition zlist_at :: "bytes \<Rightarrow> store \<Rightarrow> (bytes \<times> f64) list option" where
  "zlist_at k s = map_option all_with_scores (contents as_zset zset_new k s)"

lemma zset_atE:
  assumes "zset_at k s = Some m" and "store_inv s"
  obtains z where "contents as_zset zset_new k s = Some z" "zscore z = m" "zset_inv z"
    "zlist_at k s = Some (all_with_scores z)"
  using assms zsets.contents_ok by (auto simp: zset_at_def zlist_at_def)

lemma zadd_spec:
  assumes "zset_at k s = Some m" and "store_inv s"
  shows "zset_at k (snd (store_zadd k x b nx xx gt lt s)) = Some (m(b := zadd_score x nx xx gt lt (m b)))"
proof -
  obtain z where z: "contents as_zset zset_new k s = Some z" "zscore z = m"
    using zset_atE [OF assms] by metis
  show ?thesis
    using z by (simp add: store_zadd_def zset_at_def zsets.upd_hit [OF z(1)] split_def zadd_scores)
qed

lemma zpop_new: "zpopmin n zset_new = ([], zset_new)" "zpopmax n zset_new = ([], zset_new)"
proof -
  have e: "all_with_scores zset_new = []" by (simp add: all_with_scores_def zset_new_def)
  show "zpopmin n zset_new = ([], zset_new)"
    by (cases n) (simp_all add: zpopmin_def zq.popf_empty [OF zset_inv_new e])
  show "zpopmax n zset_new = ([], zset_new)"
    by (cases n) (simp_all add: zpopmax_def zq.popb_empty [OF zset_inv_new e])
qed

lemma zlist_atE:
  assumes "zlist_at k s = Some xs" and "store_inv s"
  obtains z where "contents as_zset zset_new k s = Some z" "all_with_scores z = xs" "zset_inv z"
  using assms zsets.contents_ok by (auto simp: zlist_at_def)

lemma zpop_spec:
  assumes "zlist_at k s = Some xs" and "store_inv s"
  shows "fst (store_zpopmin k n s) = Inr (take n xs)"
    and "zlist_at k (snd (store_zpopmin k n s)) = Some (drop n xs)"
    and "fst (store_zpopmax k n s) = Inr (take n (rev xs))"
    and "zlist_at k (snd (store_zpopmax k n s)) = Some (take (length xs - n) xs)"
proof -
  obtain z where z: "contents as_zset zset_new k s = Some z" "all_with_scores z = xs" "zset_inv z"
    using assms by (rule zlist_atE)
  note hit = zsets.mod_eq_upd [OF z(1)]
  have "zset_len z = length xs" using z by auto
  then show "fst (store_zpopmin k n s) = Inr (take n xs)"
    "zlist_at k (snd (store_zpopmin k n s)) = Some (drop n xs)"
    "fst (store_zpopmax k n s) = Inr (take n (rev xs))"
    "zlist_at k (snd (store_zpopmax k n s)) = Some (take (length xs - n) xs)"
    using z(2,3)
    by (simp_all add: store_zpopmin_def store_zpopmax_def zlist_at_def hit zpop_new split_def
        zpopmin_spec zpopmax_spec)
qed

end
