(* ===== verification/Aof_Replication.thy ===== *)
theory Aof_Replication
  imports Resp_Protocol Store_Laws
begin

text \<open>
  The append-only file of \<open>src/persistence/mod.rs\<close> and the command stream to the replicas of
  \<open>src/replication/mod.rs\<close>. The file is the bytes written to it so far; writes to it succeed.
  The broadcast channel is the list of messages sent so far.
\<close>

section \<open>The append-only file\<close>

record aof =
  aof_file :: bytes
  aof_path :: bytes

definition resp_bytes :: "bytes list \<Rightarrow> bytes" where
  "resp_bytes parts =
     ''*'' @ show_nat (length parts) @ CRLF @
     concat (map (\<lambda>p. ''$'' @ show_nat (length p) @ CRLF @ p @ CRLF) parts)"

definition write_resp :: "bytes list \<Rightarrow> aof \<Rightarrow> aof" where
  "write_resp parts a = a\<lparr>aof_file := aof_file a @ resp_bytes parts\<rparr>"

definition log_set :: "bytes \<Rightarrow> bytes \<Rightarrow> aof \<Rightarrow> aof" where
  "log_set k v = write_resp [''SET'', k, v]"

definition log_del :: "bytes list \<Rightarrow> aof \<Rightarrow> aof" where
  "log_del ks = write_resp (''DEL'' # ks)"

definition log_list_push :: "bytes \<Rightarrow> bytes \<Rightarrow> bytes list \<Rightarrow> aof \<Rightarrow> aof" where
  "log_list_push cmd k vs = write_resp (cmd # k # vs)"

definition log_hset :: "bytes \<Rightarrow> bytes \<Rightarrow> bytes \<Rightarrow> aof \<Rightarrow> aof" where
  "log_hset k f v = write_resp [''HSET'', k, f, v]"

definition log_sadd :: "bytes \<Rightarrow> bytes list \<Rightarrow> aof \<Rightarrow> aof" where
  "log_sadd k ms = write_resp (''SADD'' # k # ms)"

definition log_generic :: "bytes list \<Rightarrow> aof \<Rightarrow> aof" where
  "log_generic parts = write_resp parts"

text \<open>A missing file (\<open>None\<close>) loads as no commands.\<close>

definition load_frames :: "bytes option \<Rightarrow> frame list" where
  "load_frames file = (case file of None \<Rightarrow> [] | Some buf \<Rightarrow> frames_of buf)"

section \<open>Replication\<close>

record replication =
  is_leader :: bool
  leader_addr :: "bytes option"
  write_tx :: "bytes list"
  commit_count :: usize

definition new_leader :: replication where
  "new_leader = \<lparr>is_leader = True, leader_addr = None, write_tx = [], commit_count = 0\<rparr>"

definition new_follower :: "bytes \<Rightarrow> replication" where
  "new_follower addr = \<lparr>is_leader = False, leader_addr = Some addr, write_tx = [], commit_count = 0\<rparr>"

definition broadcast :: "bytes \<Rightarrow> replication \<Rightarrow> replication" where
  "broadcast cmd r = r\<lparr>commit_count := usize_wrap (int (commit_count r) + 1), write_tx := write_tx r @ [cmd]\<rparr>"

text \<open>A receiver subscribed at a point sees the messages sent after it.\<close>

definition subscribe :: "replication \<Rightarrow> nat" where
  "subscribe r = length (write_tx r)"

definition received :: "nat \<Rightarrow> replication \<Rightarrow> bytes list" where
  "received sub r = drop sub (write_tx r)"

text \<open>\<open>fmt\<close> stands for \<open>format!("{score}")\<close>.\<close>

fun snapshot_frame :: "(f64 \<Rightarrow> bytes) \<Rightarrow> snapshot_entry \<Rightarrow> frame" where
  "snapshot_frame fmt (SnString k v) = array [bulk_str ''SET'', Bulk (Some k), Bulk (Some v)]"
| "snapshot_frame fmt (SnList k items) =
     array ([bulk_str ''RPUSH'', Bulk (Some k)] @ map (\<lambda>b. Bulk (Some b)) items)"
| "snapshot_frame fmt (SnHash k fs) =
     array ([bulk_str ''HSET'', Bulk (Some k)] @ concat (map (\<lambda>(f, v). [Bulk (Some f), Bulk (Some v)]) fs))"
| "snapshot_frame fmt (SnSet k ms) =
     array ([bulk_str ''SADD'', Bulk (Some k)] @ map (\<lambda>b. Bulk (Some b)) ms)"
| "snapshot_frame fmt (SnZSet k ms) =
     array ([bulk_str ''ZADD'', Bulk (Some k)] @
       concat (map (\<lambda>(m, score). [bulk_str (fmt score), Bulk (Some m)]) ms))"

definition snapshot_entry_to_resp :: "(f64 \<Rightarrow> bytes) \<Rightarrow> snapshot_entry \<Rightarrow> bytes" where
  "snapshot_entry_to_resp fmt entry = serialize_frame (snapshot_frame fmt entry)"

section \<open>What is written is what is read back\<close>

definition command_frame :: "bytes list \<Rightarrow> frame" where
  "command_frame parts = Array (Some (map (\<lambda>p. Bulk (Some p)) parts))"

definition sendable :: "bytes list \<Rightarrow> bool" where
  "sendable parts \<longleftrightarrow> length parts < 2 ^ 63 \<and> (\<forall>p \<in> set parts. length p < 2 ^ 63)"

lemma resp_bytes_frame: "resp_bytes parts = write_frame (command_frame parts)"
  by (simp add: resp_bytes_def command_frame_def comp_def)

lemma wf_command_frame: "wf_frame (command_frame parts) \<longleftrightarrow> sendable parts"
  by (auto simp: command_frame_def sendable_def list_all_iff)

lemma aof_file_writes:
  "aof_file (fold write_resp cmds a) = aof_file a @ concat (map write_frame (map command_frame cmds))"
  by (induction cmds arbitrary: a) (auto simp: write_resp_def resp_bytes_frame)

lemma load_frames_writes:
  assumes "\<forall>c \<in> set cmds. sendable c" and "aof_file a = []"
  shows "load_frames (Some (aof_file (fold write_resp cmds a))) = map command_frame cmds"
proof -
  have "stream parse_frame (concat (map write_frame (map command_frame cmds)) @ []) (map command_frame cmds) []"
    using assms(1) by (intro resp.stream_enc resp.dec_empty) (auto simp: wf_command_frame)
  then show ?thesis
    using assms(2) by (simp add: load_frames_def aof_file_writes frames_of_stream)
qed

text \<open>After a crash in the middle of a write, the file loads as a prefix of the commands written.\<close>

lemma load_frames_cut:
  assumes "\<forall>c \<in> set cmds. sendable c" and "aof_file a = []"
    and "aof_file (fold write_resp cmds a) = p @ lost"
  shows "\<exists>k \<le> length cmds. load_frames (Some p) = map command_frame (take k cmds) \<and>
    length (concat (map resp_bytes (take k cmds))) \<le> length p \<and> (lost \<noteq> [] \<longrightarrow> k < length cmds)"
proof -
  have "concat (map write_frame (map command_frame cmds)) = p @ lost"
    using assms(2,3) by (simp add: aof_file_writes)
  moreover have "\<forall>f \<in> set (map command_frame cmds). wf_frame f"
    using assms(1) by (auto simp: wf_command_frame)
  ultimately obtain k r where k: "k \<le> length cmds" "stream parse_frame p (take k (map command_frame cmds)) r"
    "p = concat (map write_frame (take k (map command_frame cmds))) @ r" "lost \<noteq> [] \<longrightarrow> k < length cmds"
    using resp.stream_cut [of "map command_frame cmds" p lost] by auto
  have "load_frames (Some p) = map command_frame (take k cmds)"
    using frames_of_stream [OF k(2)] by (simp add: load_frames_def take_map)
  moreover have "map resp_bytes (take k cmds) = map write_frame (take k (map command_frame cmds))"
    by (simp add: take_map resp_bytes_frame)
  ultimately show ?thesis using k by (intro exI [of _ k]) (metis length_append le_add1)
qed

end
