(* ===== verification/Command_Data.thy ===== *)
theory Command_Data
  imports Aof_Replication
begin

text \<open>
  The commands of \<open>src/commands/mod.rs\<close> that work on the data: keys, strings, lists, hashes, sets
  and sorted sets. A command is a function of the parsed arguments and of the part of
  \<open>CommandContext\<close> it uses, the store and the append-only file. A command that only reads gives
  its reply. A command that may panic (\<open>Instant + Duration\<close> out of range) gives an option.

  What a command takes from outside the program is in the record \<open>env\<close>: the clock, the printing
  of \<open>f64\<close>, the choices of the \<open>rand\<close> crate, and the replies of the other nodes.
\<close>

section \<open>Context and helpers\<close>

text \<open>What comes of a request to another node: its reply, an I/O error with its text, or a timeout.\<close>

datatype call_result = Answer frame | Failure bytes | Timeout

record env =
  env_now :: nat
  env_fmt :: "f64 \<Rightarrow> bytes"
  env_choose :: "bytes list \<Rightarrow> nat \<Rightarrow> bytes list"
  env_draw :: "bytes list \<Rightarrow> nat \<Rightarrow> bytes"
  env_shuffle :: "bytes list \<Rightarrow> bytes list"
  env_call :: "bytes \<Rightarrow> frame \<Rightarrow> call_result"
  env_propose :: "bytes \<Rightarrow> frame"

record db =
  kv :: store
  journal :: "aof option"

definition arg_bytes :: "frame \<Rightarrow> bytes option" where
  "arg_bytes f = (case f of Bulk (Some b) \<Rightarrow> Some b | _ \<Rightarrow> None)"

definition arg_str :: "frame \<Rightarrow> bytes option" where
  "arg_str f = map_option from_utf8_lossy (arg_bytes f)"

definition arg_i64 :: "frame \<Rightarrow> i64 option" where
  "arg_i64 f = Option.bind (arg_bytes f) (\<lambda>b. parse_i64 (trim (from_utf8_lossy b)))"

definition bulk_at :: "frame list \<Rightarrow> nat \<Rightarrow> bytes option" where
  "bulk_at args i = (if i < length args then arg_bytes (args ! i) else None)"

definition bulk_as_str :: "frame list \<Rightarrow> nat \<Rightarrow> bytes option" where
  "bulk_as_str args i = map_option from_utf8_lossy (bulk_at args i)"

definition bulk_as_i64 :: "frame list \<Rightarrow> nat \<Rightarrow> i64 option" where
  "bulk_as_i64 args i = Option.bind (bulk_at args i) (\<lambda>b. parse_i64 (trim (from_utf8_lossy b)))"

definition wrong_num_args :: "bytes \<Rightarrow> frame" where
  "wrong_num_args cmd =
     Error (''ERR wrong number of arguments for '' @ [CHR 0x27] @ cmd @ [CHR 0x27] @ '' command'')"

text \<open>\<open>if let Some(aof) = &ctx.aof\<close>.\<close>

definition logged :: "(aof \<Rightarrow> aof) \<Rightarrow> db \<Rightarrow> db" where
  "logged f d = d\<lparr>journal := map_option f (journal d)\<rparr>"

text \<open>The two arms \<open>Ok(x)\<close> and \<open>Err(e) => Frame::error(e.to_string())\<close> of a store call.\<close>

fun reply :: "('a \<Rightarrow> frame) \<Rightarrow> store_error + 'a \<Rightarrow> frame" where
  "reply out (Inr x) = out x"
| "reply out (Inl err) = Error (error_text err)"

definition store_op ::
  "('a \<Rightarrow> frame) \<Rightarrow> (store \<Rightarrow> (store_error + 'a) \<times> store) \<Rightarrow> db \<Rightarrow> frame \<times> db" where
  "store_op out f d = (case f (kv d) of (r, s) \<Rightarrow> (reply out r, d\<lparr>kv := s\<rparr>))"

definition logged_op ::
  "('a \<Rightarrow> frame) \<Rightarrow> ('a \<Rightarrow> bool) \<Rightarrow> (aof \<Rightarrow> aof) \<Rightarrow> (store \<Rightarrow> (store_error + 'a) \<times> store) \<Rightarrow> db \<Rightarrow> frame \<times> db" where
  "logged_op out logs entry f d =
     (case f (kv d) of
        (Inl err, s) \<Rightarrow> (Error (error_text err), d\<lparr>kv := s\<rparr>)
      | (Inr x, s) \<Rightarrow> (out x, if logs x then logged entry (d\<lparr>kv := s\<rparr>) else d\<lparr>kv := s\<rparr>))"

text \<open>Replies: \<open>n as i64\<close>, a flag, bulks, an optional bulk, the last or first of a result.\<close>

definition int_reply :: "usize \<Rightarrow> frame" where
  "int_reply n = Integer (i64_wrap (int n))"

definition flag_reply :: "bool \<Rightarrow> frame" where
  "flag_reply b = Integer (if b then 1 else 0)"

definition bulks :: "bytes list \<Rightarrow> frame" where
  "bulks xs = Array (Some (map (\<lambda>b. Bulk (Some b)) xs))"

definition opt_bulk :: "bytes option \<Rightarrow> frame" where
  "opt_bulk x = (case x of Some b \<Rightarrow> Bulk (Some b) | None \<Rightarrow> null_bulk)"

definition last_bulk :: "bytes list \<Rightarrow> frame" where
  "last_bulk xs = (if xs = [] then null_bulk else Bulk (Some (last xs)))"

definition first_bulk :: "bytes list \<Rightarrow> frame" where
  "first_bulk xs = (case xs of [] \<Rightarrow> null_bulk | b # _ \<Rightarrow> Bulk (Some b))"

definition opt_index :: "usize option \<Rightarrow> frame" where
  "opt_index x = (case x of Some r \<Rightarrow> int_reply r | None \<Rightarrow> null_bulk)"

definition not_integer :: frame where
  "not_integer = Error ''ERR value is not an integer or out of range''"

definition wrong_type :: frame where
  "wrong_type = Error ''WRONGTYPE Operation against a key holding the wrong kind of value''"

section \<open>Connection\<close>

definition cmd_ping :: "frame list \<Rightarrow> frame" where
  "cmd_ping args = (case bulk_at args 1 of Some msg \<Rightarrow> Bulk (Some msg) | None \<Rightarrow> pong)"

definition cmd_echo :: "frame list \<Rightarrow> frame" where
  "cmd_echo args =
     (if length args < 2 then wrong_num_args ''echo''
      else case bulk_at args 1 of Some b \<Rightarrow> Bulk (Some b) | None \<Rightarrow> wrong_num_args ''echo'')"

section \<open>Keys\<close>

definition cmd_del :: "frame list \<Rightarrow> db \<Rightarrow> frame \<times> db" where
  "cmd_del args d =
     (if length args < 2 then (wrong_num_args ''del'', d)
      else
        let keys = List.map_filter arg_str (drop 1 args) in
        case store_del keys (kv d) of (deleted, s) \<Rightarrow>
          (int_reply deleted,
           if deleted > 0 then logged (log_del keys) (d\<lparr>kv := s\<rparr>) else d\<lparr>kv := s\<rparr>))"

definition cmd_exists :: "env \<Rightarrow> frame list \<Rightarrow> db \<Rightarrow> frame" where
  "cmd_exists e args d =
     (if length args < 2 then wrong_num_args ''exists''
      else int_reply (length (filter
        (\<lambda>f. case arg_str f of Some k \<Rightarrow> store_exists (env_now e) k (kv d) | None \<Rightarrow> False)
        (drop 1 args))))"

definition cmd_type :: "env \<Rightarrow> frame list \<Rightarrow> db \<Rightarrow> frame" where
  "cmd_type e args d =
     (if length args \<noteq> 2 then wrong_num_args ''type''
      else case bulk_as_str args 1 of
        None \<Rightarrow> wrong_num_args ''type''
      | Some k \<Rightarrow> SimpleString (type_of (env_now e) k (kv d)))"

text \<open>\<open>EXPIRE\<close> and \<open>PEXPIRE\<close> differ in the unit, in nanoseconds here, and in their name.\<close>

definition expire_with :: "nat \<Rightarrow> bytes \<Rightarrow> env \<Rightarrow> frame list \<Rightarrow> db \<Rightarrow> (frame \<times> db) option" where
  "expire_with unit name e args d =
     (if length args \<noteq> 3 then Some (wrong_num_args name, d)
      else case bulk_as_str args 1 of
        None \<Rightarrow> Some (wrong_num_args name, d)
      | Some k \<Rightarrow>
          (case bulk_as_i64 args 2 of
             None \<Rightarrow> Some (Error ''ERR invalid expire time'', d)
           | Some n \<Rightarrow>
               if n < 0 then Some (Error ''ERR invalid expire time'', d)
               else case store_expire (env_now e) k (nat n * unit) (kv d) of
                 None \<Rightarrow> None
               | Some (b, s) \<Rightarrow> Some (flag_reply b, d\<lparr>kv := s\<rparr>)))"

definition cmd_expire :: "env \<Rightarrow> frame list \<Rightarrow> db \<Rightarrow> (frame \<times> db) option" where
  "cmd_expire = expire_with (10 ^ 9) ''expire''"

definition cmd_pexpire :: "env \<Rightarrow> frame list \<Rightarrow> db \<Rightarrow> (frame \<times> db) option" where
  "cmd_pexpire = expire_with (10 ^ 6) ''pexpire''"

definition cmd_ttl :: "env \<Rightarrow> frame list \<Rightarrow> db \<Rightarrow> frame" where
  "cmd_ttl e args d =
     (if length args \<noteq> 2 then wrong_num_args ''ttl''
      else case bulk_as_str args 1 of
        None \<Rightarrow> wrong_num_args ''ttl''
      | Some k \<Rightarrow>
          (let pttl = store_pttl (env_now e) k (kv d)
           in Integer (if pttl > 0 then pttl div 1000 else pttl)))"

definition cmd_pttl :: "env \<Rightarrow> frame list \<Rightarrow> db \<Rightarrow> frame" where
  "cmd_pttl e args d =
     (if length args \<noteq> 2 then wrong_num_args ''pttl''
      else case bulk_as_str args 1 of
        None \<Rightarrow> wrong_num_args ''pttl''
      | Some k \<Rightarrow> Integer (store_pttl (env_now e) k (kv d)))"

definition cmd_persist :: "frame list \<Rightarrow> db \<Rightarrow> frame \<times> db" where
  "cmd_persist args d =
     (if length args \<noteq> 2 then (wrong_num_args ''persist'', d)
      else case bulk_as_str args 1 of
        None \<Rightarrow> (wrong_num_args ''persist'', d)
      | Some k \<Rightarrow> (case store_persist k (kv d) of (b, s) \<Rightarrow> (flag_reply b, d\<lparr>kv := s\<rparr>)))"

definition cmd_keys :: "env \<Rightarrow> frame list \<Rightarrow> db \<Rightarrow> frame" where
  "cmd_keys e args d = bulks (all_keys (env_now e) (kv d))"

section \<open>Strings\<close>

definition cmd_get :: "env \<Rightarrow> frame list \<Rightarrow> db \<Rightarrow> frame \<times> db" where
  "cmd_get e args d =
     (if length args \<noteq> 2 then (wrong_num_args ''get'', d)
      else case bulk_as_str args 1 of
        None \<Rightarrow> (wrong_num_args ''get'', d)
      | Some k \<Rightarrow>
          (case store_get (env_now e) k (kv d) of (v, s) \<Rightarrow>
             (case v of Some (VString b) \<Rightarrow> Bulk (Some b) | Some _ \<Rightarrow> wrong_type | None \<Rightarrow> null_bulk,
              d\<lparr>kv := s\<rparr>)))"

text \<open>The options of \<open>SET\<close>, from index 3 on: the time to live in nanoseconds, \<open>NX\<close> and \<open>XX\<close>.\<close>

definition ttl_arg :: "nat \<Rightarrow> frame list \<Rightarrow> nat option" where
  "ttl_arg unit rest =
     (case rest of
        [] \<Rightarrow> None
      | f # _ \<Rightarrow> (case arg_i64 f of Some n \<Rightarrow> if n > 0 then Some (nat n * unit) else None | None \<Rightarrow> None))"

fun set_options :: "frame list \<Rightarrow> nat option \<times> bool \<times> bool \<Rightarrow> nat option \<times> bool \<times> bool" where
  "set_options [] opts = opts"
| "set_options (f # rest) (ttl, nx, xx) =
     (let w = arg_str f in
      if w = Some ''EX'' then set_options (drop 1 rest) (ttl_arg (10 ^ 9) rest, nx, xx)
      else if w = Some ''PX'' then set_options (drop 1 rest) (ttl_arg (10 ^ 6) rest, nx, xx)
      else if w = Some ''NX'' then set_options rest (ttl, True, xx)
      else if w = Some ''XX'' then set_options rest (ttl, nx, True)
      else set_options rest (ttl, nx, xx))"

definition cmd_set :: "env \<Rightarrow> frame list \<Rightarrow> db \<Rightarrow> (frame \<times> db) option" where
  "cmd_set e args d =
     (if length args < 3 then Some (wrong_num_args ''set'', d)
      else case (bulk_as_str args 1, bulk_at args 2) of
        (Some k, Some v) \<Rightarrow>
          (case set_options (drop 3 args) (None, False, False) of (ttl, nx, xx) \<Rightarrow>
             let present = store_exists (env_now e) k (kv d) in
             if nx \<and> present then Some (null_bulk, d)
             else if xx \<and> \<not> present then Some (null_bulk, d)
             else case store_set (env_now e) k (VString v) ttl (kv d) of
               None \<Rightarrow> None
             | Some s \<Rightarrow> Some (frame_ok, logged (log_set k v) (d\<lparr>kv := s\<rparr>)))
      | _ \<Rightarrow> Some (wrong_num_args ''set'', d))"

fun mget_items :: "nat \<Rightarrow> frame list \<Rightarrow> store \<Rightarrow> frame list \<times> store" where
  "mget_items now [] s = ([], s)"
| "mget_items now (f # fs) s =
     (case (case arg_str f of
              Some k \<Rightarrow>
                (case store_get now k s of (v, s') \<Rightarrow>
                   (case v of Some (VString b) \<Rightarrow> Bulk (Some b) | _ \<Rightarrow> null_bulk, s'))
            | None \<Rightarrow> (null_bulk, s)) of
        (item, s') \<Rightarrow> (case mget_items now fs s' of (items, s'') \<Rightarrow> (item # items, s'')))"

definition cmd_mget :: "env \<Rightarrow> frame list \<Rightarrow> db \<Rightarrow> frame \<times> db" where
  "cmd_mget e args d =
     (if length args < 2 then (wrong_num_args ''mget'', d)
      else case mget_items (env_now e) (drop 1 args) (kv d) of
        (items, s) \<Rightarrow> (Array (Some items), d\<lparr>kv := s\<rparr>))"

fun mset_pairs :: "frame list \<Rightarrow> db \<Rightarrow> db" where
  "mset_pairs (kf # vf # rest) d =
     (case (arg_str kf, arg_bytes vf) of
        (Some k, Some v) \<Rightarrow>
          mset_pairs rest
            (logged (log_set k v) (d\<lparr>kv := put k \<lparr>entry_value = VString v, expires_at = None\<rparr> (kv d)\<rparr>))
      | _ \<Rightarrow> mset_pairs rest d)"
| "mset_pairs _ d = d"

definition cmd_mset :: "frame list \<Rightarrow> db \<Rightarrow> frame \<times> db" where
  "cmd_mset args d =
     (if length args < 3 \<or> (length args - 1) mod 2 \<noteq> 0 then (wrong_num_args ''mset'', d)
      else (frame_ok, mset_pairs (drop 1 args) d))"

definition cmd_strlen :: "env \<Rightarrow> frame list \<Rightarrow> db \<Rightarrow> frame \<times> db" where
  "cmd_strlen e args d =
     (if length args \<noteq> 2 then (wrong_num_args ''strlen'', d)
      else case bulk_as_str args 1 of
        None \<Rightarrow> (wrong_num_args ''strlen'', d)
      | Some k \<Rightarrow>
          (case store_get (env_now e) k (kv d) of (v, s) \<Rightarrow>
             (case v of
                Some (VString b) \<Rightarrow> int_reply (length b) | Some _ \<Rightarrow> wrong_type | None \<Rightarrow> Integer 0,
              d\<lparr>kv := s\<rparr>)))"

definition cmd_append :: "frame list \<Rightarrow> db \<Rightarrow> frame \<times> db" where
  "cmd_append args d =
     (if length args \<noteq> 3 then (wrong_num_args ''append'', d)
      else case (bulk_as_str args 1, bulk_at args 2) of
        (Some k, Some v) \<Rightarrow>
          logged_op int_reply (\<lambda>_. True) (log_generic [''APPEND'', k, v]) (store_append k v) d
      | _ \<Rightarrow> (wrong_num_args ''append'', d))"

definition cmd_incrby :: "i64 \<Rightarrow> frame list \<Rightarrow> db \<Rightarrow> frame \<times> db" where
  "cmd_incrby delta args d =
     (if length args \<noteq> 2 then (wrong_num_args (if delta > 0 then ''incr'' else ''decr''), d)
      else case bulk_as_str args 1 of
        None \<Rightarrow> (wrong_num_args ''incr'', d)
      | Some k \<Rightarrow>
          logged_op Integer (\<lambda>_. True) (log_generic [if delta > 0 then ''INCR'' else ''DECR'', k])
            (incrby k delta) d)"

text \<open>\<open>n * sign\<close> and \<open>abs\<close> wrap at \<open>i64::MIN\<close> in a release build.\<close>

definition cmd_incrby_by :: "i64 \<Rightarrow> frame list \<Rightarrow> db \<Rightarrow> frame \<times> db" where
  "cmd_incrby_by sign args d =
     (if length args \<noteq> 3 then (wrong_num_args (if sign > 0 then ''incrby'' else ''decrby''), d)
      else case bulk_as_str args 1 of
        None \<Rightarrow> (wrong_num_args ''incrby'', d)
      | Some k \<Rightarrow>
          (case bulk_as_i64 args 2 of
             None \<Rightarrow> (not_integer, d)
           | Some n \<Rightarrow>
               (let by_arg = i64_wrap (n * sign) in
                logged_op Integer (\<lambda>_. True)
                  (log_generic [if sign > 0 then ''INCRBY'' else ''DECRBY'', k, show_int (i64_wrap \<bar>by_arg\<bar>)])
                  (incrby k by_arg) d)))"

definition cmd_getset :: "env \<Rightarrow> frame list \<Rightarrow> db \<Rightarrow> frame \<times> db" where
  "cmd_getset e args d =
     (if length args \<noteq> 3 then (wrong_num_args ''getset'', d)
      else case (bulk_as_str args 1, bulk_at args 2) of
        (Some k, Some v) \<Rightarrow>
          (case getset (env_now e) k v (kv d) of (old, s) \<Rightarrow>
             (Bulk old, logged (log_set k v) (d\<lparr>kv := s\<rparr>)))
      | _ \<Rightarrow> (wrong_num_args ''getset'', d))"

definition cmd_setnx :: "env \<Rightarrow> frame list \<Rightarrow> db \<Rightarrow> frame \<times> db" where
  "cmd_setnx e args d =
     (if length args \<noteq> 3 then (wrong_num_args ''setnx'', d)
      else case (bulk_as_str args 1, bulk_at args 2) of
        (Some k, Some v) \<Rightarrow>
          if store_exists (env_now e) k (kv d) then (Integer 0, d)
          else (Integer 1, logged (log_set k v)
                 (d\<lparr>kv := put k \<lparr>entry_value = VString v, expires_at = None\<rparr> (kv d)\<rparr>))
      | _ \<Rightarrow> (wrong_num_args ''setnx'', d))"

end
