(* ===== verification/Command_Collections.thy ===== *)
theory Command_Collections
  imports Command_Data
begin

text \<open>
  The commands of \<open>src/commands/mod.rs\<close> on lists, hashes, sets and sorted sets: the arguments are
  read and checked in the order of the source, the store is called, its result is made a reply,
  and what the source logs to the append-only file is logged.
\<close>

section \<open>Lists\<close>

definition cmd_lpush :: "frame list \<Rightarrow> db \<Rightarrow> frame \<times> db" where
  "cmd_lpush args d =
     (if length args < 3 then (wrong_num_args ''lpush'', d)
      else case bulk_as_str args 1 of
        None \<Rightarrow> (wrong_num_args ''lpush'', d)
      | Some k \<Rightarrow>
          (let vs = List.map_filter arg_bytes (drop 2 args)
           in logged_op int_reply (\<lambda>_. True) (log_list_push ''LPUSH'' k vs) (lpush k vs) d))"

definition cmd_rpush :: "frame list \<Rightarrow> db \<Rightarrow> frame \<times> db" where
  "cmd_rpush args d =
     (if length args < 3 then (wrong_num_args ''rpush'', d)
      else case bulk_as_str args 1 of
        None \<Rightarrow> (wrong_num_args ''rpush'', d)
      | Some k \<Rightarrow>
          (let vs = List.map_filter arg_bytes (drop 2 args)
           in logged_op int_reply (\<lambda>_. True) (log_list_push ''RPUSH'' k vs) (rpush k vs) d))"

definition pop_count :: "frame list \<Rightarrow> usize" where
  "pop_count args =
     max (nat (max (case bulk_as_i64 args 2 of Some n \<Rightarrow> n | None \<Rightarrow> 1) 0)) 1"

definition cmd_lpop :: "frame list \<Rightarrow> db \<Rightarrow> frame \<times> db" where
  "cmd_lpop args d =
     (if length args < 2 then (wrong_num_args ''lpop'', d)
      else case bulk_as_str args 1 of
        None \<Rightarrow> (wrong_num_args ''lpop'', d)
      | Some k \<Rightarrow> store_op (if length args \<ge> 3 then bulks else last_bulk) (lpop k (pop_count args)) d)"

definition cmd_rpop :: "frame list \<Rightarrow> db \<Rightarrow> frame \<times> db" where
  "cmd_rpop args d =
     (if length args < 2 then (wrong_num_args ''rpop'', d)
      else case bulk_as_str args 1 of
        None \<Rightarrow> (wrong_num_args ''rpop'', d)
      | Some k \<Rightarrow> store_op (if length args \<ge> 3 then bulks else last_bulk) (rpop k (pop_count args)) d)"

definition cmd_llen :: "frame list \<Rightarrow> db \<Rightarrow> frame" where
  "cmd_llen args d =
     (if length args \<noteq> 2 then wrong_num_args ''llen''
      else case bulk_as_str args 1 of
        None \<Rightarrow> wrong_num_args ''llen''
      | Some k \<Rightarrow> reply int_reply (llen k (kv d)))"

definition cmd_lrange :: "frame list \<Rightarrow> db \<Rightarrow> frame" where
  "cmd_lrange args d =
     (if length args \<noteq> 4 then wrong_num_args ''lrange''
      else case bulk_as_str args 1 of
        None \<Rightarrow> wrong_num_args ''lrange''
      | Some k \<Rightarrow>
          (case (bulk_as_i64 args 2, bulk_as_i64 args 3) of
             (Some start, Some stop) \<Rightarrow> reply bulks (lrange k start stop (kv d))
           | _ \<Rightarrow> not_integer))"

definition cmd_lindex :: "frame list \<Rightarrow> db \<Rightarrow> frame" where
  "cmd_lindex args d =
     (if length args \<noteq> 3 then wrong_num_args ''lindex''
      else case bulk_as_str args 1 of
        None \<Rightarrow> wrong_num_args ''lindex''
      | Some k \<Rightarrow>
          (case bulk_as_i64 args 2 of
             None \<Rightarrow> not_integer
           | Some i \<Rightarrow> reply opt_bulk (lindex k i (kv d))))"

definition cmd_lset :: "frame list \<Rightarrow> db \<Rightarrow> frame \<times> db" where
  "cmd_lset args d =
     (if length args \<noteq> 4 then (wrong_num_args ''lset'', d)
      else case bulk_as_str args 1 of
        None \<Rightarrow> (wrong_num_args ''lset'', d)
      | Some k \<Rightarrow>
          (case bulk_as_i64 args 2 of
             None \<Rightarrow> (Error ''ERR invalid index'', d)
           | Some i \<Rightarrow>
               (case bulk_at args 3 of
                  None \<Rightarrow> (wrong_num_args ''lset'', d)
                | Some v \<Rightarrow>
                    store_op (\<lambda>ok. if ok then frame_ok else Error ''ERR index out of range'') (lset k i v) d)))"

definition cmd_linsert :: "frame list \<Rightarrow> db \<Rightarrow> frame \<times> db" where
  "cmd_linsert args d =
     (if length args \<noteq> 5 then (wrong_num_args ''linsert'', d)
      else case (bulk_as_str args 1, bulk_as_str args 2, bulk_at args 3, bulk_at args 4) of
        (Some k, Some pos, Some pivot, Some v) \<Rightarrow>
          (let w = to_uppercase pos in
           if w = ''BEFORE'' then store_op Integer (linsert k True pivot v) d
           else if w = ''AFTER'' then store_op Integer (linsert k False pivot v) d
           else (Error ''ERR syntax error'', d))
      | _ \<Rightarrow> (wrong_num_args ''linsert'', d))"

definition cmd_lrem :: "frame list \<Rightarrow> db \<Rightarrow> frame \<times> db" where
  "cmd_lrem args d =
     (if length args \<noteq> 4 then (wrong_num_args ''lrem'', d)
      else case bulk_as_str args 1 of
        None \<Rightarrow> (wrong_num_args ''lrem'', d)
      | Some k \<Rightarrow>
          (case bulk_as_i64 args 2 of
             None \<Rightarrow> (Error ''ERR invalid count'', d)
           | Some n \<Rightarrow>
               (case bulk_at args 3 of
                  None \<Rightarrow> (wrong_num_args ''lrem'', d)
                | Some v \<Rightarrow> store_op int_reply (store_lrem k n v) d)))"

definition cmd_ltrim :: "frame list \<Rightarrow> db \<Rightarrow> frame \<times> db" where
  "cmd_ltrim args d =
     (if length args \<noteq> 4 then (wrong_num_args ''ltrim'', d)
      else case bulk_as_str args 1 of
        None \<Rightarrow> (wrong_num_args ''ltrim'', d)
      | Some k \<Rightarrow>
          (case bulk_as_i64 args 2 of
             None \<Rightarrow> (Error ''ERR invalid start'', d)
           | Some start \<Rightarrow>
               (case bulk_as_i64 args 3 of
                  None \<Rightarrow> (Error ''ERR invalid stop'', d)
                | Some stop \<Rightarrow> store_op (\<lambda>_. frame_ok) (store_ltrim k start stop) d)))"

definition side_arg :: "bytes \<Rightarrow> bool option" where
  "side_arg w =
     (if to_uppercase w = ''LEFT'' then Some True
      else if to_uppercase w = ''RIGHT'' then Some False else None)"

definition cmd_lmove :: "frame list \<Rightarrow> db \<Rightarrow> frame \<times> db" where
  "cmd_lmove args d =
     (if length args \<noteq> 5 then (wrong_num_args ''lmove'', d)
      else case (bulk_as_str args 1, bulk_as_str args 2, bulk_as_str args 3, bulk_as_str args 4) of
        (Some src, Some dst, Some wherefrom, Some whereto) \<Rightarrow>
          (case (side_arg wherefrom, side_arg whereto) of
             (Some from_left, Some to_left) \<Rightarrow> store_op opt_bulk (lmove src dst from_left to_left) d
           | _ \<Rightarrow> (Error ''ERR syntax error'', d))
      | _ \<Rightarrow> (wrong_num_args ''lmove'', d))"

section \<open>Hashes\<close>

fun hset_pairs :: "bytes \<Rightarrow> usize \<Rightarrow> frame list \<Rightarrow> db \<Rightarrow> frame \<times> db" where
  "hset_pairs k added (ff # vf # rest) d =
     (case (arg_bytes ff, arg_bytes vf) of
        (Some f, Some v) \<Rightarrow>
          (case store_hset k f v (kv d) of
             (Inl err, s) \<Rightarrow> (Error (error_text err), d\<lparr>kv := s\<rparr>)
           | (Inr n, s) \<Rightarrow> hset_pairs k (added + n) rest (logged (log_hset k f v) (d\<lparr>kv := s\<rparr>)))
      | _ \<Rightarrow> hset_pairs k added rest d)"
| "hset_pairs k added _ d = (int_reply added, d)"

definition cmd_hset :: "frame list \<Rightarrow> db \<Rightarrow> frame \<times> db" where
  "cmd_hset args d =
     (if length args < 4 \<or> (length args - 2) mod 2 \<noteq> 0 then (wrong_num_args ''hset'', d)
      else case bulk_as_str args 1 of
        None \<Rightarrow> (wrong_num_args ''hset'', d)
      | Some k \<Rightarrow> hset_pairs k 0 (drop 2 args) d)"

definition cmd_hget :: "frame list \<Rightarrow> db \<Rightarrow> frame" where
  "cmd_hget args d =
     (if length args \<noteq> 3 then wrong_num_args ''hget''
      else case (bulk_as_str args 1, bulk_at args 2) of
        (Some k, Some f) \<Rightarrow> reply opt_bulk (hget k f (kv d))
      | _ \<Rightarrow> wrong_num_args ''hget'')"

definition cmd_hmget :: "frame list \<Rightarrow> db \<Rightarrow> frame" where
  "cmd_hmget args d =
     (if length args < 3 then wrong_num_args ''hmget''
      else case bulk_as_str args 1 of
        None \<Rightarrow> wrong_num_args ''hmget''
      | Some k \<Rightarrow>
          Array (Some (map (\<lambda>ff. case arg_bytes ff of
               None \<Rightarrow> null_bulk
             | Some f \<Rightarrow> (case hget k f (kv d) of Inr (Some v) \<Rightarrow> Bulk (Some v) | _ \<Rightarrow> null_bulk))
            (drop 2 args))))"

definition pair_bulks :: "(bytes \<times> bytes) list \<Rightarrow> frame" where
  "pair_bulks ps = Array (Some (concat (map (\<lambda>(k, v). [Bulk (Some k), Bulk (Some v)]) ps)))"

definition cmd_hgetall :: "frame list \<Rightarrow> db \<Rightarrow> frame" where
  "cmd_hgetall args d =
     (if length args \<noteq> 2 then wrong_num_args ''hgetall''
      else case bulk_as_str args 1 of
        None \<Rightarrow> wrong_num_args ''hgetall''
      | Some k \<Rightarrow> reply pair_bulks (hgetall k (kv d)))"

definition cmd_hdel :: "frame list \<Rightarrow> db \<Rightarrow> frame \<times> db" where
  "cmd_hdel args d =
     (if length args < 3 then (wrong_num_args ''hdel'', d)
      else case bulk_as_str args 1 of
        None \<Rightarrow> (wrong_num_args ''hdel'', d)
      | Some k \<Rightarrow> store_op int_reply (store_hdel k (List.map_filter arg_bytes (drop 2 args))) d)"

definition cmd_hlen :: "frame list \<Rightarrow> db \<Rightarrow> frame" where
  "cmd_hlen args d =
     (if length args \<noteq> 2 then wrong_num_args ''hlen''
      else case bulk_as_str args 1 of
        None \<Rightarrow> wrong_num_args ''hlen''
      | Some k \<Rightarrow> reply int_reply (hlen k (kv d)))"

definition cmd_hexists :: "frame list \<Rightarrow> db \<Rightarrow> frame" where
  "cmd_hexists args d =
     (if length args \<noteq> 3 then wrong_num_args ''hexists''
      else case (bulk_as_str args 1, bulk_at args 2) of
        (Some k, Some f) \<Rightarrow> reply flag_reply (hexists k f (kv d))
      | _ \<Rightarrow> wrong_num_args ''hexists'')"

definition cmd_hkeys :: "frame list \<Rightarrow> db \<Rightarrow> frame" where
  "cmd_hkeys args d =
     (if length args \<noteq> 2 then wrong_num_args ''hkeys''
      else case bulk_as_str args 1 of
        None \<Rightarrow> wrong_num_args ''hkeys''
      | Some k \<Rightarrow> reply bulks (hkeys k (kv d)))"

definition cmd_hvals :: "frame list \<Rightarrow> db \<Rightarrow> frame" where
  "cmd_hvals args d =
     (if length args \<noteq> 2 then wrong_num_args ''hvals''
      else case bulk_as_str args 1 of
        None \<Rightarrow> wrong_num_args ''hvals''
      | Some k \<Rightarrow> reply bulks (hvals k (kv d)))"

definition cmd_hsetnx :: "frame list \<Rightarrow> db \<Rightarrow> frame \<times> db" where
  "cmd_hsetnx args d =
     (if length args \<noteq> 4 then (wrong_num_args ''hsetnx'', d)
      else case (bulk_as_str args 1, bulk_at args 2, bulk_at args 3) of
        (Some k, Some f, Some v) \<Rightarrow> store_op flag_reply (store_hsetnx k f v) d
      | _ \<Rightarrow> (wrong_num_args ''hsetnx'', d))"

definition cmd_hincrby :: "frame list \<Rightarrow> db \<Rightarrow> frame \<times> db" where
  "cmd_hincrby args d =
     (if length args \<noteq> 4 then (wrong_num_args ''hincrby'', d)
      else case (bulk_as_str args 1, bulk_at args 2) of
        (Some k, Some f) \<Rightarrow>
          (case bulk_as_i64 args 3 of
             None \<Rightarrow> (Error ''ERR not an integer'', d)
           | Some n \<Rightarrow> store_op Integer (hincrby k f n) d)
      | _ \<Rightarrow> (wrong_num_args ''hincrby'', d))"

definition cmd_hincrbyfloat :: "env \<Rightarrow> frame list \<Rightarrow> db \<Rightarrow> frame \<times> db" where
  "cmd_hincrbyfloat e args d =
     (if length args \<noteq> 4 then (wrong_num_args ''hincrbyfloat'', d)
      else case (bulk_as_str args 1, bulk_at args 2) of
        (Some k, Some f) \<Rightarrow>
          (case Option.bind (bulk_as_str args 3) parse_f64 of
             None \<Rightarrow> (Error ''ERR not a float'', d)
           | Some x \<Rightarrow> store_op (\<lambda>v. bulk_str (env_fmt e v)) (hincrbyfloat (env_fmt e) k f x) d)
      | _ \<Rightarrow> (wrong_num_args ''hincrbyfloat'', d))"

section \<open>Sets\<close>

definition cmd_sadd :: "frame list \<Rightarrow> db \<Rightarrow> frame \<times> db" where
  "cmd_sadd args d =
     (if length args < 3 then (wrong_num_args ''sadd'', d)
      else case bulk_as_str args 1 of
        None \<Rightarrow> (wrong_num_args ''sadd'', d)
      | Some k \<Rightarrow>
          (let ms = List.map_filter arg_bytes (drop 2 args)
           in logged_op int_reply (\<lambda>n. n > 0) (log_sadd k ms) (store_sadd k ms) d))"

definition cmd_smembers :: "frame list \<Rightarrow> db \<Rightarrow> frame" where
  "cmd_smembers args d =
     (if length args \<noteq> 2 then wrong_num_args ''smembers''
      else case bulk_as_str args 1 of
        None \<Rightarrow> wrong_num_args ''smembers''
      | Some k \<Rightarrow> reply bulks (smembers k (kv d)))"

definition cmd_sismember :: "frame list \<Rightarrow> db \<Rightarrow> frame" where
  "cmd_sismember args d =
     (if length args \<noteq> 3 then wrong_num_args ''sismember''
      else case (bulk_as_str args 1, bulk_at args 2) of
        (Some k, Some m) \<Rightarrow> reply flag_reply (sismember k m (kv d))
      | _ \<Rightarrow> wrong_num_args ''sismember'')"

definition cmd_srem :: "frame list \<Rightarrow> db \<Rightarrow> frame \<times> db" where
  "cmd_srem args d =
     (if length args < 3 then (wrong_num_args ''srem'', d)
      else case bulk_as_str args 1 of
        None \<Rightarrow> (wrong_num_args ''srem'', d)
      | Some k \<Rightarrow> store_op int_reply (store_srem k (List.map_filter arg_bytes (drop 2 args))) d)"

definition cmd_scard :: "frame list \<Rightarrow> db \<Rightarrow> frame" where
  "cmd_scard args d =
     (if length args \<noteq> 2 then wrong_num_args ''scard''
      else case bulk_as_str args 1 of
        None \<Rightarrow> wrong_num_args ''scard''
      | Some k \<Rightarrow> reply int_reply (scard k (kv d)))"

definition cmd_smove :: "frame list \<Rightarrow> db \<Rightarrow> frame \<times> db" where
  "cmd_smove args d =
     (if length args \<noteq> 4 then (wrong_num_args ''smove'', d)
      else case (bulk_as_str args 1, bulk_as_str args 2, bulk_at args 3) of
        (Some src, Some dst, Some m) \<Rightarrow> store_op flag_reply (smove src dst m) d
      | _ \<Rightarrow> (wrong_num_args ''smove'', d))"

definition cmd_srandmember :: "env \<Rightarrow> frame list \<Rightarrow> db \<Rightarrow> frame" where
  "cmd_srandmember e args d =
     (if length args < 2 then wrong_num_args ''srandmember''
      else case bulk_as_str args 1 of
        None \<Rightarrow> wrong_num_args ''srandmember''
      | Some k \<Rightarrow>
          (let cnt = bulk_as_i64 args 2
           in reply (if cnt = None then first_bulk else bulks)
                (srandmember (env_choose e) (env_draw e) k (case cnt of Some n \<Rightarrow> n | None \<Rightarrow> 1) (kv d))))"

definition cmd_spop :: "env \<Rightarrow> frame list \<Rightarrow> db \<Rightarrow> frame \<times> db" where
  "cmd_spop e args d =
     (if length args < 2 then (wrong_num_args ''spop'', d)
      else case bulk_as_str args 1 of
        None \<Rightarrow> (wrong_num_args ''spop'', d)
      | Some k \<Rightarrow>
          (let cnt = map_option (\<lambda>n. nat (max n 0)) (bulk_as_i64 args 2)
           in store_op (if cnt = None then first_bulk else bulks)
                (store_spop (env_shuffle e) k (case cnt of Some n \<Rightarrow> n | None \<Rightarrow> 1)) d))"

definition multi_key_set_args :: "frame list \<Rightarrow> nat \<Rightarrow> bytes list" where
  "multi_key_set_args args start = List.map_filter arg_str (drop start args)"

definition cmd_sunion :: "frame list \<Rightarrow> db \<Rightarrow> frame" where
  "cmd_sunion args d =
     (if length args < 2 then wrong_num_args ''sunion''
      else reply bulks (sunion (multi_key_set_args args 1) (kv d)))"

definition cmd_sinter :: "frame list \<Rightarrow> db \<Rightarrow> frame" where
  "cmd_sinter args d =
     (if length args < 2 then wrong_num_args ''sinter''
      else reply bulks (sinter (multi_key_set_args args 1) (kv d)))"

definition cmd_sdiff :: "frame list \<Rightarrow> db \<Rightarrow> frame" where
  "cmd_sdiff args d =
     (if length args < 2 then wrong_num_args ''sdiff''
      else reply bulks (sdiff (multi_key_set_args args 1) (kv d)))"

definition cmd_sunionstore :: "frame list \<Rightarrow> db \<Rightarrow> frame \<times> db" where
  "cmd_sunionstore args d =
     (if length args < 3 then (wrong_num_args ''sunionstore'', d)
      else case bulk_as_str args 1 of
        None \<Rightarrow> (wrong_num_args ''sunionstore'', d)
      | Some dst \<Rightarrow> store_op int_reply (sunionstore dst (multi_key_set_args args 2)) d)"

definition cmd_sinterstore :: "frame list \<Rightarrow> db \<Rightarrow> frame \<times> db" where
  "cmd_sinterstore args d =
     (if length args < 3 then (wrong_num_args ''sinterstore'', d)
      else case bulk_as_str args 1 of
        None \<Rightarrow> (wrong_num_args ''sinterstore'', d)
      | Some dst \<Rightarrow> store_op int_reply (sinterstore dst (multi_key_set_args args 2)) d)"

definition cmd_sdiffstore :: "frame list \<Rightarrow> db \<Rightarrow> frame \<times> db" where
  "cmd_sdiffstore args d =
     (if length args < 3 then (wrong_num_args ''sdiffstore'', d)
      else case bulk_as_str args 1 of
        None \<Rightarrow> (wrong_num_args ''sdiffstore'', d)
      | Some dst \<Rightarrow> store_op int_reply (sdiffstore dst (multi_key_set_args args 2)) d)"

section \<open>Sorted sets\<close>

record zadd_options =
  opt_nx :: bool
  opt_xx :: bool
  opt_gt :: bool
  opt_lt :: bool
  opt_ch :: bool

text \<open>The loop that consumes the options leaves the arguments from the first score on.\<close>

fun zadd_flags :: "frame list \<Rightarrow> zadd_options \<Rightarrow> zadd_options \<times> frame list" where
  "zadd_flags [] opts = (opts, [])"
| "zadd_flags (f # rest) opts =
     (let w = arg_str f in
      if w = Some ''NX'' then zadd_flags rest (opts\<lparr>opt_nx := True\<rparr>)
      else if w = Some ''XX'' then zadd_flags rest (opts\<lparr>opt_xx := True\<rparr>)
      else if w = Some ''GT'' then zadd_flags rest (opts\<lparr>opt_gt := True\<rparr>)
      else if w = Some ''LT'' then zadd_flags rest (opts\<lparr>opt_lt := True\<rparr>)
      else if w = Some ''CH'' then zadd_flags rest (opts\<lparr>opt_ch := True\<rparr>)
      else (opts, f # rest))"

text \<open>The loop over the pairs: an error frame, or how many were added and changed.\<close>

fun zadd_pairs ::
  "bytes \<Rightarrow> zadd_options \<Rightarrow> frame list \<Rightarrow> usize \<times> usize \<Rightarrow> store \<Rightarrow> (frame + usize \<times> usize) \<times> store" where
  "zadd_pairs k opts (sf # mf # rest) (added, changed) s =
     (case arg_str sf of
        None \<Rightarrow> zadd_pairs k opts rest (added, changed) s
      | Some w \<Rightarrow>
          (case parse_f64 w of
             None \<Rightarrow> (Inl (Error ''ERR value is not a valid float''), s)
           | Some x \<Rightarrow>
               (case arg_bytes mf of
                  None \<Rightarrow> zadd_pairs k opts rest (added, changed) s
                | Some m \<Rightarrow>
                    (case store_zadd k x m (opt_nx opts) (opt_xx opts) (opt_gt opts) (opt_lt opts) s of
                       (Inl err, s') \<Rightarrow> (Inl (Error (error_text err)), s')
                     | (Inr (a, c), s') \<Rightarrow> zadd_pairs k opts rest (added + a, changed + c) s'))))"
| "zadd_pairs k opts _ counts s = (Inr counts, s)"

definition cmd_zadd :: "frame list \<Rightarrow> db \<Rightarrow> frame \<times> db" where
  "cmd_zadd args d =
     (if length args < 4 then (wrong_num_args ''zadd'', d)
      else case bulk_as_str args 1 of
        None \<Rightarrow> (wrong_num_args ''zadd'', d)
      | Some k \<Rightarrow>
          (case zadd_flags (drop 2 args)
                  \<lparr>opt_nx = False, opt_xx = False, opt_gt = False, opt_lt = False, opt_ch = False\<rparr> of
             (opts, rest) \<Rightarrow>
               if length rest < 2 then (wrong_num_args ''zadd'', d)
               else case zadd_pairs k opts rest (0, 0) (kv d) of
                 (Inl err, s) \<Rightarrow> (err, d\<lparr>kv := s\<rparr>)
               | (Inr (added, changed), s) \<Rightarrow>
                   (let result = (if opt_ch opts then changed else added)
                    in (int_reply result,
                        if result > 0 then logged (log_generic [''ZADD'', k]) (d\<lparr>kv := s\<rparr>) else d\<lparr>kv := s\<rparr>))))"

definition cmd_zscore :: "env \<Rightarrow> frame list \<Rightarrow> db \<Rightarrow> frame" where
  "cmd_zscore e args d =
     (if length args \<noteq> 3 then wrong_num_args ''zscore''
      else case (bulk_as_str args 1, bulk_at args 2) of
        (Some k, Some m) \<Rightarrow>
          reply (\<lambda>x. case x of Some v \<Rightarrow> bulk_str (env_fmt e v) | None \<Rightarrow> null_bulk) (store_zscore k m (kv d))
      | _ \<Rightarrow> wrong_num_args ''zscore'')"

definition cmd_zrank :: "frame list \<Rightarrow> db \<Rightarrow> frame" where
  "cmd_zrank args d =
     (if length args < 3 then wrong_num_args ''zrank''
      else case (bulk_as_str args 1, bulk_at args 2) of
        (Some k, Some m) \<Rightarrow> reply opt_index (store_zrank k m (kv d))
      | _ \<Rightarrow> wrong_num_args ''zrank'')"

definition cmd_zrevrank :: "frame list \<Rightarrow> db \<Rightarrow> frame" where
  "cmd_zrevrank args d =
     (if length args < 3 then wrong_num_args ''zrevrank''
      else case (bulk_as_str args 1, bulk_at args 2) of
        (Some k, Some m) \<Rightarrow> reply opt_index (store_zrevrank k m (kv d))
      | _ \<Rightarrow> wrong_num_args ''zrevrank'')"

definition cmd_zcard :: "frame list \<Rightarrow> db \<Rightarrow> frame" where
  "cmd_zcard args d =
     (if length args \<noteq> 2 then wrong_num_args ''zcard''
      else case bulk_as_str args 1 of
        None \<Rightarrow> wrong_num_args ''zcard''
      | Some k \<Rightarrow> reply int_reply (zcard k (kv d)))"

definition bound_arg :: "frame list \<Rightarrow> nat \<Rightarrow> score_bound option" where
  "bound_arg args i = Option.bind (bulk_as_str args i) score_bound_parse"

definition cmd_zcount :: "frame list \<Rightarrow> db \<Rightarrow> frame" where
  "cmd_zcount args d =
     (if length args \<noteq> 4 then wrong_num_args ''zcount''
      else case bulk_as_str args 1 of
        None \<Rightarrow> wrong_num_args ''zcount''
      | Some k \<Rightarrow>
          (case bound_arg args 2 of
             None \<Rightarrow> Error ''ERR min is not a float''
           | Some mn \<Rightarrow>
               (case bound_arg args 3 of
                  None \<Rightarrow> Error ''ERR max is not a float''
                | Some mx \<Rightarrow> reply int_reply (store_zcount k mn mx (kv d)))))"

definition cmd_zincrby :: "env \<Rightarrow> frame list \<Rightarrow> db \<Rightarrow> frame \<times> db" where
  "cmd_zincrby e args d =
     (if length args \<noteq> 4 then (wrong_num_args ''zincrby'', d)
      else case bulk_as_str args 1 of
        None \<Rightarrow> (wrong_num_args ''zincrby'', d)
      | Some k \<Rightarrow>
          (case Option.bind (bulk_as_str args 2) parse_f64 of
             None \<Rightarrow> (Error ''ERR not a float'', d)
           | Some x \<Rightarrow>
               (case bulk_at args 3 of
                  None \<Rightarrow> (wrong_num_args ''zincrby'', d)
                | Some m \<Rightarrow> store_op (\<lambda>v. bulk_str (env_fmt e v)) (store_zincrby k x m) d)))"

definition cmd_zrem :: "frame list \<Rightarrow> db \<Rightarrow> frame \<times> db" where
  "cmd_zrem args d =
     (if length args < 3 then (wrong_num_args ''zrem'', d)
      else case bulk_as_str args 1 of
        None \<Rightarrow> (wrong_num_args ''zrem'', d)
      | Some k \<Rightarrow> store_op int_reply (store_zrem k (List.map_filter arg_bytes (drop 2 args))) d)"

definition zset_pairs_to_frame :: "env \<Rightarrow> bool \<Rightarrow> (bytes \<times> f64) list \<Rightarrow> frame" where
  "zset_pairs_to_frame e withscores ps =
     Array (Some (concat (map (\<lambda>(m, score).
       Bulk (Some m) # (if withscores then [bulk_str (env_fmt e score)] else [])) ps)))"

definition has_withscores :: "frame list \<Rightarrow> nat \<Rightarrow> bool" where
  "has_withscores args start \<longleftrightarrow>
     list_ex (\<lambda>f. map_option to_ascii_uppercase (arg_bytes f) = Some ''WITHSCORES'') (drop start args)"

text \<open>\<open>ZRANGE\<close> and \<open>ZREVRANGE\<close> differ in their name and in the last argument of the store call.\<close>

definition zrange_cmd :: "bytes \<Rightarrow> bool \<Rightarrow> env \<Rightarrow> frame list \<Rightarrow> db \<Rightarrow> frame" where
  "zrange_cmd name reverse e args d =
     (if length args < 4 then wrong_num_args name
      else case bulk_as_str args 1 of
        None \<Rightarrow> wrong_num_args name
      | Some k \<Rightarrow>
          (case bulk_as_i64 args 2 of
             None \<Rightarrow> Error ''ERR invalid start''
           | Some start \<Rightarrow>
               (case bulk_as_i64 args 3 of
                  None \<Rightarrow> Error ''ERR invalid stop''
                | Some stop \<Rightarrow>
                    reply (zset_pairs_to_frame e (has_withscores args 4)) (zrange k start stop reverse (kv d)))))"

definition cmd_zrange :: "env \<Rightarrow> frame list \<Rightarrow> db \<Rightarrow> frame" where
  "cmd_zrange = zrange_cmd ''zrange'' False"

definition cmd_zrevrange :: "env \<Rightarrow> frame list \<Rightarrow> db \<Rightarrow> frame" where
  "cmd_zrevrange = zrange_cmd ''zrevrange'' True"

text \<open>\<open>for i in from..args.len().saturating_sub(2)\<close>, on the arguments from \<open>from\<close> on.\<close>

fun limit_loop :: "frame list \<Rightarrow> usize \<times> usize option" where
  "limit_loop (f # g # h # rest) =
     (case arg_str f of
        Some w \<Rightarrow>
          if to_uppercase w = ''LIMIT''
          then (nat (max (case arg_i64 g of Some n \<Rightarrow> n | None \<Rightarrow> 0) 0),
                map_option (\<lambda>n. if n < 0 then 2 ^ 64 - 1 else nat n) (arg_i64 h))
          else limit_loop (g # h # rest)
      | None \<Rightarrow> limit_loop (g # h # rest))"
| "limit_loop _ = (0, None)"

definition parse_limit :: "frame list \<Rightarrow> nat \<Rightarrow> usize \<times> usize option" where
  "parse_limit args start = limit_loop (drop start args)"

definition cmd_zrangebyscore :: "env \<Rightarrow> frame list \<Rightarrow> db \<Rightarrow> frame" where
  "cmd_zrangebyscore e args d =
     (if length args < 4 then wrong_num_args ''zrangebyscore''
      else case bulk_as_str args 1 of
        None \<Rightarrow> wrong_num_args ''zrangebyscore''
      | Some k \<Rightarrow>
          (case bound_arg args 2 of
             None \<Rightarrow> Error ''ERR min is not a float''
           | Some mn \<Rightarrow>
               (case bound_arg args 3 of
                  None \<Rightarrow> Error ''ERR max is not a float''
                | Some mx \<Rightarrow>
                    (case parse_limit args 4 of (offset, limit) \<Rightarrow>
                       reply (zset_pairs_to_frame e (has_withscores args 4))
                         (store_zrangebyscore k mn mx offset limit False (kv d))))))"

definition cmd_zrevrangebyscore :: "env \<Rightarrow> frame list \<Rightarrow> db \<Rightarrow> frame" where
  "cmd_zrevrangebyscore e args d =
     (if length args < 4 then wrong_num_args ''zrevrangebyscore''
      else case bulk_as_str args 1 of
        None \<Rightarrow> wrong_num_args ''zrevrangebyscore''
      | Some k \<Rightarrow>
          (case bound_arg args 2 of
             None \<Rightarrow> Error ''ERR max is not a float''
           | Some mx \<Rightarrow>
               (case bound_arg args 3 of
                  None \<Rightarrow> Error ''ERR min is not a float''
                | Some mn \<Rightarrow>
                    (case parse_limit args 4 of (offset, limit) \<Rightarrow>
                       reply (zset_pairs_to_frame e (has_withscores args 4))
                         (store_zrangebyscore k mn mx offset limit True (kv d))))))"

definition zpop_count :: "frame list \<Rightarrow> usize" where
  "zpop_count args = (case bulk_as_i64 args 2 of Some n \<Rightarrow> nat (max n 0) | None \<Rightarrow> 1)"

definition cmd_zpopmin :: "env \<Rightarrow> frame list \<Rightarrow> db \<Rightarrow> frame \<times> db" where
  "cmd_zpopmin e args d =
     (if length args < 2 then (wrong_num_args ''zpopmin'', d)
      else case bulk_as_str args 1 of
        None \<Rightarrow> (wrong_num_args ''zpopmin'', d)
      | Some k \<Rightarrow> store_op (zset_pairs_to_frame e True) (store_zpopmin k (zpop_count args)) d)"

definition cmd_zpopmax :: "env \<Rightarrow> frame list \<Rightarrow> db \<Rightarrow> frame \<times> db" where
  "cmd_zpopmax e args d =
     (if length args < 2 then (wrong_num_args ''zpopmax'', d)
      else case bulk_as_str args 1 of
        None \<Rightarrow> (wrong_num_args ''zpopmax'', d)
      | Some k \<Rightarrow> store_op (zset_pairs_to_frame e True) (store_zpopmax k (zpop_count args)) d)"

definition cmd_zremrangebyrank :: "frame list \<Rightarrow> db \<Rightarrow> frame \<times> db" where
  "cmd_zremrangebyrank args d =
     (if length args \<noteq> 4 then (wrong_num_args ''zremrangebyrank'', d)
      else case bulk_as_str args 1 of
        None \<Rightarrow> (wrong_num_args ''zremrangebyrank'', d)
      | Some k \<Rightarrow>
          (case bulk_as_i64 args 2 of
             None \<Rightarrow> (Error ''ERR invalid start'', d)
           | Some start \<Rightarrow>
               (case bulk_as_i64 args 3 of
                  None \<Rightarrow> (Error ''ERR invalid stop'', d)
                | Some stop \<Rightarrow> store_op int_reply (store_zremrangebyrank k start stop) d)))"

definition cmd_zremrangebyscore :: "frame list \<Rightarrow> db \<Rightarrow> frame \<times> db" where
  "cmd_zremrangebyscore args d =
     (if length args \<noteq> 4 then (wrong_num_args ''zremrangebyscore'', d)
      else case bulk_as_str args 1 of
        None \<Rightarrow> (wrong_num_args ''zremrangebyscore'', d)
      | Some k \<Rightarrow>
          (case bound_arg args 2 of
             None \<Rightarrow> (Error ''ERR min is not a float'', d)
           | Some mn \<Rightarrow>
               (case bound_arg args 3 of
                  None \<Rightarrow> (Error ''ERR max is not a float'', d)
                | Some mx \<Rightarrow> store_op int_reply (store_zremrangebyscore k mn mx) d)))"

end
