(* ===== verification/Cluster.thy ===== *)
theory Cluster
  imports Aof_Replication
begin

unbundle bit_operations_syntax

text \<open>
  Slot-based sharding of \<open>src/cluster/mod.rs\<close>: the hash of a key, the table from slots to nodes
  that every node computes from the member list, the slots a command touches, the slots that
  change owner with the member list, and the extraction of their keys. A slot is a natural
  number below \<open>NUM_SLOTS\<close>, a \<open>u16\<close> a 16-bit word where its bits matter.
\<close>

section \<open>Slots\<close>

definition NUM_SLOTS :: nat where
  "NUM_SLOTS = 16384"

definition crc16_bit :: "16 word \<Rightarrow> 16 word" where
  "crc16_bit crc =
     (if crc AND 0x8000 \<noteq> 0 then push_bit 1 crc XOR 0x1021 else push_bit 1 crc)"

definition crc16_byte :: "char \<Rightarrow> 16 word \<Rightarrow> 16 word" where
  "crc16_byte b crc = (crc16_bit ^^ 8) (crc XOR push_bit 8 (word_of_nat (code b)))"

definition crc16 :: "bytes \<Rightarrow> 16 word" where
  "crc16 bs = fold crc16_byte bs 0"

definition hash_tag :: "bytes \<Rightarrow> bytes" where
  "hash_tag key =
     (case position (\<lambda>b. b = CHR ''{'') key of
        None \<Rightarrow> key
      | Some open \<Rightarrow>
          (case position (\<lambda>b. b = CHR ''}'') (drop (open + 1) key) of
             None \<Rightarrow> key
           | Some close \<Rightarrow>
               (let tag = take close (drop (open + 1) key) in if tag \<noteq> [] then tag else key)))"

definition slot_for_key :: "bytes \<Rightarrow> nat" where
  "slot_for_key key = unat (crc16 (hash_tag key)) mod NUM_SLOTS"

section \<open>The slot table\<close>

record cluster_config =
  nodes :: "bytes list"
  my_index :: usize
  slot_to_node :: "usize list"

text \<open>
  The table for \<open>n\<close> nodes: \<open>chunks_mut(base)\<close> numbers the chunks in order, and the loop after it
  fills what lies behind \<open>base * n\<close>. A chunk size of zero panics (\<open>None\<close>).
\<close>

definition slot_table :: "nat \<Rightarrow> usize list option" where
  "slot_table n =
     (let base = NUM_SLOTS div n in
      if base = 0 then None
      else let chunks = map (\<lambda>slot. min (slot div base) (n - 1)) [0 ..< NUM_SLOTS];
               assigned = base * n
           in Some (take assigned chunks @ map (\<lambda>_. n - 1) (drop assigned chunks)))"

datatype config_error = NoNodes | NotMember bytes

text \<open>\<open>None\<close> is the panic, \<open>Inl\<close> the error that \<open>new\<close> returns.\<close>

definition cluster_new :: "bytes list \<Rightarrow> bytes \<Rightarrow> (config_error + cluster_config) option" where
  "cluster_new ns me =
     (let ns = remdups_adj (sort ns); n = length ns in
      if n = 0 then Some (Inl NoNodes)
      else case position (\<lambda>a. a = me) ns of
        None \<Rightarrow> Some (Inl (NotMember me))
      | Some i \<Rightarrow>
          (case slot_table n of
             None \<Rightarrow> None
           | Some t \<Rightarrow> Some (Inr \<lparr>nodes = ns, my_index = i, slot_to_node = t\<rparr>)))"

definition for_routing :: "bytes list \<Rightarrow> cluster_config option" where
  "for_routing ns =
     (let ns = remdups_adj (sort ns); n = max (length ns) 1 in
      case slot_table n of
        None \<Rightarrow> None
      | Some t \<Rightarrow> Some \<lparr>nodes = ns, my_index = 0, slot_to_node = t\<rparr>)"

definition my_addr :: "cluster_config \<Rightarrow> bytes" where
  "my_addr c = nodes c ! my_index c"

definition is_mine :: "cluster_config \<Rightarrow> nat \<Rightarrow> bool" where
  "is_mine c slot \<longleftrightarrow> slot_to_node c ! slot = my_index c"

definition node_for_slot :: "cluster_config \<Rightarrow> nat \<Rightarrow> bytes" where
  "node_for_slot c slot = nodes c ! (slot_to_node c ! slot)"

text \<open>The loop over the table with the start of the range that is open.\<close>

fun ranges_from :: "nat \<Rightarrow> nat \<Rightarrow> nat option \<Rightarrow> usize list \<Rightarrow> (nat \<times> nat) list" where
  "ranges_from i slot start [] = (case start of Some s \<Rightarrow> [(s, NUM_SLOTS - 1)] | None \<Rightarrow> [])"
| "ranges_from i slot start (owner # owners) =
     (if owner = i then
        ranges_from i (slot + 1) (case start of None \<Rightarrow> Some slot | Some s \<Rightarrow> Some s) owners
      else case start of
        Some s \<Rightarrow> (s, slot - 1) # ranges_from i (slot + 1) None owners
      | None \<Rightarrow> ranges_from i (slot + 1) None owners)"

definition slot_ranges_for :: "cluster_config \<Rightarrow> nat \<Rightarrow> (nat \<times> nat) list" where
  "slot_ranges_for c i = ranges_from i 0 None (slot_to_node c)"

definition my_slots :: "cluster_config \<Rightarrow> nat list" where
  "my_slots c = filter (\<lambda>s. slot_to_node c ! s = my_index c) [0 ..< NUM_SLOTS]"

text \<open>\<open>entry(k).or_default().push(v)\<close> on a map to lists.\<close>

definition push_entry :: "'k \<Rightarrow> 'v \<Rightarrow> ('k \<times> 'v list) list \<Rightarrow> ('k \<times> 'v list) list" where
  "push_entry k v m = AList.update k ((case map_of m k of Some vs \<Rightarrow> vs | None \<Rightarrow> []) @ [v]) m"

definition slots_to_send :: "cluster_config \<Rightarrow> cluster_config \<Rightarrow> (bytes \<times> nat list) list" where
  "slots_to_send c new_cfg =
     fold (\<lambda>slot sends.
         if slot_to_node c ! slot \<noteq> my_index c then sends
         else let new_owner = nodes new_cfg ! (slot_to_node new_cfg ! slot)
              in if new_owner \<noteq> my_addr c then push_entry new_owner slot sends else sends)
       [0 ..< NUM_SLOTS] []"

definition nodes_list :: "cluster_config \<Rightarrow> bytes" where
  "nodes_list c = join '','' (nodes c)"

section \<open>Addresses\<close>

definition node_id :: "bytes \<Rightarrow> bytes" where
  "node_id addr =
     (let d = show_nat (unat (crc16 addr)) in replicate (40 - length d) (CHR ''0'') @ d)"

text \<open>\<open>rsplitn(2, ':')\<close>: the text behind the last colon, and the text before it if there is one.\<close>

definition split_addr :: "bytes \<Rightarrow> bytes \<times> nat" where
  "split_addr addr =
     (let parts = split_on (CHR '':'') addr;
          port = (case parse_unsigned 16 (last parts) of Some p \<Rightarrow> p | None \<Rightarrow> 6379);
          host = (if length parts = 1 then ''127.0.0.1'' else join '':'' (butlast parts))
      in (host, port))"

section \<open>Replies\<close>

definition cluster_info :: "cluster_config \<Rightarrow> bytes" where
  "cluster_info c =
     ''cluster_enabled:1'' @ CRLF @ ''cluster_state:ok'' @ CRLF @
     ''cluster_slots_assigned:'' @ show_nat NUM_SLOTS @ CRLF @
     ''cluster_slots_ok:'' @ show_nat NUM_SLOTS @ CRLF @
     ''cluster_slots_pfail:0'' @ CRLF @ ''cluster_slots_fail:0'' @ CRLF @
     ''cluster_known_nodes:'' @ show_nat (length (nodes c)) @ CRLF @
     ''cluster_size:'' @ show_nat (length (nodes c)) @ CRLF @
     ''cluster_current_epoch:1'' @ CRLF @ ''cluster_my_epoch:1'' @ CRLF"

definition range_text :: "nat \<times> nat \<Rightarrow> bytes" where
  "range_text r = show_nat (fst r) @ ''-'' @ show_nat (snd r)"

definition cluster_nodes_text :: "cluster_config \<Rightarrow> bytes" where
  "cluster_nodes_text c =
     join [LF] (map (\<lambda>(i, addr).
       node_id addr @ '' '' @ addr @ ''@0 '' @
       (if i = my_index c then ''myself,master'' else ''master'') @ '' - 0 0 '' @ show_nat i @
       '' connected '' @ join '' '' (map range_text (slot_ranges_for c i)))
       (enumerate 0 (nodes c)))"

definition cluster_slots_frame :: "cluster_config \<Rightarrow> frame" where
  "cluster_slots_frame c =
     array (concat (map (\<lambda>(i, addr).
       map (\<lambda>(s, e). case split_addr addr of (host, port) \<Rightarrow>
           array [Integer (int s), Integer (int e),
             array [bulk_str host, Integer (int port), bulk_str (node_id addr)]])
         (slot_ranges_for c i))
       (enumerate 0 (nodes c))))"

definition cluster_shards_frame :: "cluster_config \<Rightarrow> frame" where
  "cluster_shards_frame c =
     array (map (\<lambda>(i, addr).
       case split_addr addr of (host, port) \<Rightarrow>
         array [bulk_str ''slots'',
           array (concat (map (\<lambda>(s, e). [Integer (int s), Integer (int e)]) (slot_ranges_for c i))),
           bulk_str ''nodes'',
           array [array [bulk_str ''id'', bulk_str (node_id addr), bulk_str ''endpoint'', bulk_str host,
             bulk_str ''ip'', bulk_str host, bulk_str ''port'', Integer (int port),
             bulk_str ''role'', bulk_str ''master'']]])
       (enumerate 0 (nodes c)))"

section \<open>Moving keys\<close>

type_synonym migrate_entry = "bytes \<times> store_value \<times> i64"

fun drain_keys :: "nat \<Rightarrow> bytes list \<Rightarrow> store \<Rightarrow> migrate_entry list \<times> store" where
  "drain_keys now [] s = ([], s)"
| "drain_keys now (k # ks) s =
     (case store_get now k s of
        (None, s1) \<Rightarrow> drain_keys now ks s1
      | (Some v, s1) \<Rightarrow>
          (let pttl = store_pttl now k s1 in
           if pttl = - 2 then drain_keys now ks s1
           else (case drain_keys now ks (snd (store_del [k] s1)) of
                   (es, s') \<Rightarrow> ((k, v, pttl) # es, s'))))"

definition drain_slots :: "nat \<Rightarrow> nat list \<Rightarrow> store \<Rightarrow> migrate_entry list \<times> store" where
  "drain_slots now slots s =
     drain_keys now (filter (\<lambda>k. slot_for_key k \<in> set slots) (all_keys now s)) s"

text \<open>\<open>fmt\<close> stands for \<open>format!("{score}")\<close>.\<close>

fun build_value_frame :: "(f64 \<Rightarrow> bytes) \<Rightarrow> bytes \<Rightarrow> store_value \<Rightarrow> i64 \<Rightarrow> frame" where
  "build_value_frame fmt k (VString b) pttl =
     Array (Some ([bulk_str ''SET'', bulk_str k, Bulk (Some b)] @
       (if pttl > 0 then [bulk_str ''PX'', bulk_str (show_int pttl)] else [])))"
| "build_value_frame fmt k (VList l) pttl =
     Array (Some ([bulk_str ''RPUSH'', bulk_str k] @ map (\<lambda>b. Bulk (Some b)) (to_vec l)))"
| "build_value_frame fmt k (VHash h) pttl =
     Array (Some ([bulk_str ''HSET'', bulk_str k] @
       concat (map (\<lambda>(f, v). [Bulk (Some f), Bulk (Some v)]) (all_pairs h))))"
| "build_value_frame fmt k (VSet t) pttl =
     Array (Some ([bulk_str ''SADD'', bulk_str k] @ map (\<lambda>b. Bulk (Some b)) (members t)))"
| "build_value_frame fmt k (VZSet z) pttl =
     Array (Some ([bulk_str ''ZADD'', bulk_str k] @
       concat (map (\<lambda>(m, score). [bulk_str (fmt score), Bulk (Some m)]) (all_with_scores z))))"

section \<open>The slots a command touches\<close>

datatype slot_class = Slot nat | CrossSlot | NoSlot

definition single_key_slot :: "frame list \<Rightarrow> nat \<Rightarrow> slot_class" where
  "single_key_slot args idx =
     (if idx < length args then
        (case args ! idx of Bulk (Some k) \<Rightarrow> Slot (slot_for_key k) | _ \<Rightarrow> NoSlot)
      else NoSlot)"

text \<open>The loop of \<open>all_same_slot\<close>: \<open>slot\<close> is the slot seen so far, \<open>skip\<close> counts down to the next key.\<close>

fun same_slot_loop :: "nat \<Rightarrow> nat \<Rightarrow> nat option \<Rightarrow> frame list \<Rightarrow> slot_class" where
  "same_slot_loop stride skip slot [] = (case slot of Some s \<Rightarrow> Slot s | None \<Rightarrow> NoSlot)"
| "same_slot_loop stride (Suc skip) slot (f # fs) = same_slot_loop stride skip slot fs"
| "same_slot_loop stride 0 slot (f # fs) =
     (case f of
        Bulk (Some k) \<Rightarrow>
          (let s = slot_for_key k in
           case slot of
             None \<Rightarrow> same_slot_loop stride (stride - 1) (Some s) fs
           | Some prev \<Rightarrow>
               if prev \<noteq> s then CrossSlot else same_slot_loop stride (stride - 1) (Some prev) fs)
      | _ \<Rightarrow> same_slot_loop stride (stride - 1) slot fs)"

definition all_same_slot :: "frame list \<Rightarrow> nat \<Rightarrow> nat \<Rightarrow> slot_class" where
  "all_same_slot args start stride = same_slot_loop stride start None args"

definition single_key_commands :: "bytes list" where
  "single_key_commands =
     [''GET'', ''SET'', ''SETNX'', ''GETSET'', ''APPEND'', ''STRLEN'',
      ''INCR'', ''INCRBY'', ''DECR'', ''DECRBY'',
      ''TYPE'', ''EXPIRE'', ''PEXPIRE'', ''TTL'', ''PTTL'', ''PERSIST'',
      ''LPUSH'', ''RPUSH'', ''LPOP'', ''RPOP'', ''LLEN'', ''LRANGE'', ''LINDEX'',
      ''LSET'', ''LINSERT'', ''LREM'', ''LTRIM'',
      ''HSET'', ''HMSET'', ''HGET'', ''HMGET'', ''HGETALL'', ''HDEL'',
      ''HLEN'', ''HEXISTS'', ''HKEYS'', ''HVALS'', ''HSETNX'', ''HINCRBY'', ''HINCRBYFLOAT'',
      ''SADD'', ''SMEMBERS'', ''SISMEMBER'', ''SREM'', ''SCARD'', ''SRANDMEMBER'', ''SPOP'',
      ''ZADD'', ''ZSCORE'', ''ZRANK'', ''ZREVRANK'', ''ZCARD'', ''ZCOUNT'',
      ''ZINCRBY'', ''ZREM'', ''ZRANGE'', ''ZREVRANGE'',
      ''ZRANGEBYSCORE'', ''ZREVRANGEBYSCORE'',
      ''ZPOPMIN'', ''ZPOPMAX'', ''ZREMRANGEBYRANK'', ''ZREMRANGEBYSCORE'']"

definition command_slot :: "bytes \<Rightarrow> frame list \<Rightarrow> slot_class" where
  "command_slot cmd args =
     (if cmd \<in> set single_key_commands then single_key_slot args 1
      else if cmd \<in> {''DEL'', ''UNLINK'', ''EXISTS'', ''MGET''} then all_same_slot args 1 1
      else if cmd \<in> {''MSET'', ''MSETNX''} then all_same_slot args 1 2
      else NoSlot)"

section \<open>Slots of keys\<close>

lemma slot_for_key_less: "slot_for_key k < NUM_SLOTS"
  by (simp add: slot_for_key_def NUM_SLOTS_def)

lemma position_append: "(\<forall>x \<in> set xs. \<not> p x) \<Longrightarrow> p y \<Longrightarrow> position p (xs @ y # ys) = Some (length xs)"
  by (induction xs) auto

text \<open>A key with a non-empty tag in its first pair of braces hashes as the tag alone.\<close>

lemma hash_tag_braces:
  assumes "CHR ''{'' \<notin> set pre" and "CHR ''}'' \<notin> set tag" and "tag \<noteq> []"
  shows "hash_tag (pre @ CHR ''{'' # tag @ CHR ''}'' # post) = tag"
proof -
  have "position (\<lambda>b. b = CHR ''{'') (pre @ CHR ''{'' # tag @ CHR ''}'' # post) = Some (length pre)"
    using assms(1) by (intro position_append) auto
  moreover have "position (\<lambda>b. b = CHR ''}'') (tag @ CHR ''}'' # post) = Some (length tag)"
    using assms(2) by (intro position_append) auto
  ultimately show ?thesis
    using assms(3) by (simp add: hash_tag_def Let_def)
qed

lemma hash_tag_plain: "CHR ''{'' \<notin> set k \<Longrightarrow> hash_tag k = k"
proof -
  assume "CHR ''{'' \<notin> set k"
  then have "position (\<lambda>b. b = CHR ''{'') k = None" by (auto simp: position_None)
  then show ?thesis by (simp add: hash_tag_def)
qed

section \<open>The table is total, even and the same on every node\<close>

lemma slot_table_eq:
  assumes "0 < n" "n \<le> NUM_SLOTS"
  shows "slot_table n = Some (map (\<lambda>s. min (s div (NUM_SLOTS div n)) (n - 1)) [0 ..< NUM_SLOTS])"
proof -
  let ?base = "NUM_SLOTS div n" and ?f = "\<lambda>s. min (s div (NUM_SLOTS div n)) (n - 1)"
  have base: "0 < ?base" using assms by (simp add: div_greater_zero_iff)
  have "map (\<lambda>_. n - 1) (drop (?base * n) (map ?f [0 ..< NUM_SLOTS])) = drop (?base * n) (map ?f [0 ..< NUM_SLOTS])"
  proof (rule nth_equalityI)
    fix i assume i: "i < length (map (\<lambda>_. n - 1) (drop (?base * n) (map ?f [0 ..< NUM_SLOTS])))"
    have "n \<le> (?base * n + i) div ?base" using base by simp
    then show "map (\<lambda>_. n - 1) (drop (?base * n) (map ?f [0 ..< NUM_SLOTS])) ! i
        = drop (?base * n) (map ?f [0 ..< NUM_SLOTS]) ! i"
      using i by simp
  qed simp
  then show ?thesis
    using base by (simp add: slot_table_def Let_def del: drop_map map_map) 
qed

lemma slot_table_owner:
  assumes "slot_table n = Some t" and "0 < n"
  shows "length t = NUM_SLOTS" and "s < NUM_SLOTS \<Longrightarrow> t ! s = min (s div (NUM_SLOTS div n)) (n - 1)"
    and "n \<le> NUM_SLOTS"
proof -
  show n: "n \<le> NUM_SLOTS"
    using assms by (auto simp: slot_table_def Let_def div_eq_0_iff split: if_splits)
  then show "length t = NUM_SLOTS" "s < NUM_SLOTS \<Longrightarrow> t ! s = min (s div (NUM_SLOTS div n)) (n - 1)"
    using slot_table_eq [OF assms(2) n] assms(1) by auto
qed

text \<open>Each node but the last owns the same number of slots, one contiguous block each.\<close>

lemma slot_block:
  assumes "slot_table n = Some t" and "0 < n" and "i < n"
  defines "base \<equiv> NUM_SLOTS div n"
  shows "{s. s < NUM_SLOTS \<and> t ! s = i} = {i * base ..< (if i = n - 1 then NUM_SLOTS else (i + 1) * base)}"
proof -
  note own = slot_table_owner [OF assms(1,2)]
  have t: "s < NUM_SLOTS \<Longrightarrow> t ! s = min (s div base) (n - 1)" for s
    using own(2) by (simp add: base_def)
  have base: "0 < base" using own(3) assms(2) by (simp add: base_def div_greater_zero_iff)
  have top: "base * n \<le> NUM_SLOTS" by (simp add: base_def div_times_less_eq_dividend mult.commute)
  have "s < NUM_SLOTS \<and> t ! s = i \<longleftrightarrow> i * base \<le> s \<and> s < (if i = n - 1 then NUM_SLOTS else (i + 1) * base)" for s
  proof (cases "i = n - 1")
    case True
    have "min (s div base) (n - 1) = n - 1 \<longleftrightarrow> n - 1 \<le> s div base" by (auto simp: min_def)
    also have "\<dots> \<longleftrightarrow> (n - 1) * base \<le> s" using base by (rule less_eq_div_iff_mult_less_eq)
    finally have "min (s div base) (n - 1) = n - 1 \<longleftrightarrow> (n - 1) * base \<le> s" .
    then show ?thesis using t [of s] True by auto
  next
    case False
    then have "min (s div base) (n - 1) = i \<longleftrightarrow> s div base = i" using assms(3) by auto
    also have "\<dots> \<longleftrightarrow> i \<le> s div base \<and> s div base < i + 1" by auto
    also have "\<dots> \<longleftrightarrow> i * base \<le> s \<and> s < (i + 1) * base"
      using base by (simp only: less_eq_div_iff_mult_less_eq div_less_iff_less_mult)
    finally have eq: "min (s div base) (n - 1) = i \<longleftrightarrow> i * base \<le> s \<and> s < (i + 1) * base" .
    have "(i + 1) * base \<le> n * base" using False assms(3) by (intro mult_right_mono) auto
    with top have "(i + 1) * base \<le> NUM_SLOTS" by (simp add: mult.commute)
    then have "s < (i + 1) * base \<Longrightarrow> s < NUM_SLOTS" by linarith
    with eq t [of s] False show ?thesis by metis
  qed
  then show ?thesis by (simp only: set_eq_iff mem_Collect_eq atLeastLessThan_iff simp_thms)
qed

lemma slot_share:
  assumes "slot_table n = Some t" and "0 < n" and "i < n"
  shows "card {s. s < NUM_SLOTS \<and> t ! s = i} =
    (if i = n - 1 then NUM_SLOTS - (n - 1) * (NUM_SLOTS div n) else NUM_SLOTS div n)"
  by (subst slot_block [OF assms]) simp

lemma sorted_distinct_adj: "sorted xs \<Longrightarrow> distinct_adj xs \<Longrightarrow> distinct (xs :: 'a :: linorder list)"
proof (induction xs rule: induct_list012)
  case (3 x y zs)
  then have "x < y" by auto
  with 3 show ?case by (auto simp: not_less [symmetric])
qed simp_all

lemma distinct_sort_dedup: "distinct (remdups_adj (sort (xs :: 'a :: linorder list)))"
  by (rule sorted_distinct_adj) simp_all

lemma sort_dedup_eq:
  assumes "set xs = set ys"
  shows "remdups_adj (sort xs) = remdups_adj (sort (ys :: 'a :: linorder list))"
  using assms by (intro sorted_distinct_set_unique distinct_sort_dedup) simp_all

text \<open>A configuration that \<open>new\<close> can return.\<close>

definition wf_config :: "cluster_config \<Rightarrow> bool" where
  "wf_config c \<longleftrightarrow> nodes c \<noteq> [] \<and> distinct (nodes c) \<and> sorted (nodes c) \<and> my_index c < length (nodes c) \<and>
     slot_table (length (nodes c)) = Some (slot_to_node c)"

lemma cluster_new_wf:
  assumes "cluster_new ns me = Some (Inr c)"
  shows "wf_config c" and "my_addr c = me" and "set (nodes c) = set ns"
proof -
  let ?ns = "remdups_adj (sort ns)"
  obtain i t where i: "?ns \<noteq> []" "position (\<lambda>a. a = me) ?ns = Some i" "slot_table (length ?ns) = Some t"
    "c = \<lparr>nodes = ?ns, my_index = i, slot_to_node = t\<rparr>"
    using assms by (auto simp: cluster_new_def Let_def split: if_splits option.splits)
  have "i < length ?ns" "?ns ! i = me" using position_Some [OF i(2)] by auto
  with i show "wf_config c" "my_addr c = me" "set (nodes c) = set ns"
    by (auto simp: wf_config_def my_addr_def distinct_sort_dedup)
qed

lemma cluster_new_defined:
  assumes "me \<in> set ns" and "card (set ns) \<le> NUM_SLOTS"
  shows "\<exists>c. cluster_new ns me = Some (Inr c)"
proof -
  let ?ns = "remdups_adj (sort ns)"
  have "length ?ns = card (set ns)"
    using distinct_card [OF distinct_sort_dedup, of ns] by simp
  moreover have "set ?ns \<noteq> {}" using assms(1) by auto
  then have "?ns \<noteq> []" by (metis list.set(1))
  moreover have "0 < length ?ns" using \<open>?ns \<noteq> []\<close> by blast
  ultimately have "slot_table (length ?ns) \<noteq> None"
    using assms(2) slot_table_eq [of "length ?ns"] by simp
  moreover have "position (\<lambda>a. a = me) ?ns \<noteq> None"
    using assms(1) by (simp add: position_None)
  ultimately show ?thesis
    using \<open>?ns \<noteq> []\<close> by (auto simp: cluster_new_def Let_def)
qed

lemma cluster_new_member:
  assumes "me \<in> set ns"
  shows "cluster_new ns me \<noteq> Some (Inl e)"
proof -
  have "position (\<lambda>a. a = me) (remdups_adj (sort ns)) \<noteq> None"
    using assms by (simp add: position_None)
  moreover have "set (remdups_adj (sort ns)) \<noteq> {}" using assms by auto
  then have "remdups_adj (sort ns) \<noteq> []" by (metis list.set(1))
  ultimately show ?thesis by (auto simp: cluster_new_def Let_def split: option.splits)
qed

lemma cluster_new_agree:
  assumes "cluster_new ns a = Some (Inr c)" and "cluster_new ns' b = Some (Inr c')" and "set ns = set ns'"
  shows "nodes c = nodes c'" and "slot_to_node c = slot_to_node c'"
  using assms sort_dedup_eq [OF assms(3)]
  by (auto simp: cluster_new_def Let_def split: if_splits option.splits)

lemma wf_configD:
  assumes "wf_config c"
  shows "length (slot_to_node c) = NUM_SLOTS" and "s < NUM_SLOTS \<Longrightarrow> slot_to_node c ! s < length (nodes c)"
  using assms slot_table_owner [of "length (nodes c)" "slot_to_node c"]
  by (auto simp: wf_config_def)

text \<open>Every slot has one owner, so exactly one member of a cluster answers for a key.\<close>

lemma one_owner:
  assumes "cluster_new ns a = Some (Inr c)" and "cluster_new ns' b = Some (Inr c')" and "set ns = set ns'"
    and "s < NUM_SLOTS"
  shows "node_for_slot c s \<in> set ns" and "node_for_slot c s = node_for_slot c' s"
    and "is_mine c s \<longleftrightarrow> node_for_slot c' s = a"
proof -
  note w = cluster_new_wf [OF assms(1)] and ag = cluster_new_agree [OF assms(1,2,3)]
  have o: "slot_to_node c ! s < length (nodes c)" using wf_configD(2) [OF w(1) assms(4)] .
  then have "nodes c ! (slot_to_node c ! s) \<in> set (nodes c)" by (rule nth_mem)
  then show "node_for_slot c s \<in> set ns" by (simp add: w(3) node_for_slot_def)
  show eq: "node_for_slot c s = node_for_slot c' s" by (simp add: node_for_slot_def ag)
  have "is_mine c s \<longleftrightarrow> node_for_slot c s = my_addr c"
    using o w(1) by (simp add: is_mine_def node_for_slot_def my_addr_def wf_config_def nth_eq_iff_index_eq)
  then show "is_mine c s \<longleftrightarrow> node_for_slot c' s = a" by (simp add: eq w(2))
qed

section \<open>Ranges\<close>

definition in_ranges :: "nat \<Rightarrow> (nat \<times> nat) list \<Rightarrow> bool" where
  "in_ranges x rs \<longleftrightarrow> (\<exists>(a, b) \<in> set rs. a \<le> x \<and> x \<le> b)"

lemma in_ranges_simps [simp]:
  "\<not> in_ranges x []" "in_ranges x ((a, b) # rs) \<longleftrightarrow> a \<le> x \<and> x \<le> b \<or> in_ranges x rs"
  by (simp_all add: in_ranges_def)

lemma ranges_from_spec:
  assumes "slot + length owners = NUM_SLOTS" and "\<And>s. start = Some s \<Longrightarrow> s < slot"
  shows "in_ranges x (ranges_from i slot start owners) \<longleftrightarrow>
    (\<exists>s. start = Some s \<and> s \<le> x \<and> x < slot) \<or>
    (slot \<le> x \<and> x < NUM_SLOTS \<and> owners ! (x - slot) = i)"
  using assms
proof (induction i slot start owners rule: ranges_from.induct)
  case (1 i slot start)
  then show ?case by (auto split: option.splits)
next
  case (2 i slot start owner owners)
  have nth: "(owner # owners) ! (x - slot) = (if x = slot then owner else owners ! (x - (slot + 1)))"
    if "slot \<le> x"
    using that by (cases "x = slot") (auto simp: nth_Cons')
  have slot: "slot < NUM_SLOTS" using "2.prems" by simp
  show ?case
  proof (cases "owner = i")
    case True
    let ?start = "case start of None \<Rightarrow> Some slot | Some s \<Rightarrow> Some s"
    have "in_ranges x (ranges_from i (slot + 1) ?start owners) \<longleftrightarrow>
      (\<exists>s. ?start = Some s \<and> s \<le> x \<and> x < slot + 1) \<or>
      (slot + 1 \<le> x \<and> x < NUM_SLOTS \<and> owners ! (x - (slot + 1)) = i)"
      using True "2.prems" by (intro "2.IH"(1)) (auto split: option.splits)
    then show ?thesis
      using True nth slot "2.prems"(2)
      by (cases "x = slot"; cases start) (auto dest: less_imp_le)
  next
    case False
    have IH: "in_ranges x (ranges_from i (slot + 1) None owners) \<longleftrightarrow>
      (slot + 1 \<le> x \<and> x < NUM_SLOTS \<and> owners ! (x - (slot + 1)) = i)"
      using "2.IH"(2,3) [OF False] "2.prems" by (cases start) auto
    show ?thesis
      using False nth slot IH "2.prems"(2)
      by (cases "x = slot"; cases start) auto
  qed
qed

lemma slot_ranges_for_spec:
  assumes "wf_config c"
  shows "in_ranges s (slot_ranges_for c i) \<longleftrightarrow> s < NUM_SLOTS \<and> slot_to_node c ! s = i"
  using ranges_from_spec [of 0 "slot_to_node c" None s i] wf_configD(1) [OF assms]
  by (simp add: slot_ranges_for_def)

section \<open>Slots that change owner\<close>

lemma push_entry_lookup:
  "map_of (push_entry k v m) k' =
     (if k' = k then Some ((case map_of m k of Some vs \<Rightarrow> vs | None \<Rightarrow> []) @ [v]) else map_of m k')"
  by (simp add: push_entry_def update_conv')

definition sent_to :: "(bytes \<times> nat list) list \<Rightarrow> bytes \<Rightarrow> nat list" where
  "sent_to m a = (case map_of m a of Some ss \<Rightarrow> ss | None \<Rightarrow> [])"

lemma slots_to_send_spec:
  "sent_to (slots_to_send c c') a =
     (if a = my_addr c then [] else filter (\<lambda>s. is_mine c s \<and> node_for_slot c' s = a) [0 ..< NUM_SLOTS])"
proof -
  let ?step = "\<lambda>slot sends. if slot_to_node c ! slot \<noteq> my_index c then sends
         else let new_owner = nodes c' ! (slot_to_node c' ! slot)
              in if new_owner \<noteq> my_addr c then push_entry new_owner slot sends else sends"
  have "sent_to (fold ?step slots m) a = sent_to m a @
      (if a = my_addr c then [] else filter (\<lambda>s. is_mine c s \<and> node_for_slot c' s = a) slots)" for slots m
  proof (induction slots arbitrary: m)
    case (Cons s slots)
    have "sent_to (?step s m) a = sent_to m a @
        (if a \<noteq> my_addr c \<and> is_mine c s \<and> node_for_slot c' s = a then [s] else [])"
      by (auto simp: sent_to_def push_entry_lookup is_mine_def node_for_slot_def Let_def)
    with Cons.IH [of "?step s m"] show ?case by simp
  qed simp
  from this [of "[0 ..< NUM_SLOTS]" "[]"] show ?thesis
    by (simp add: slots_to_send_def sent_to_def [of "[]"])
qed

section \<open>Draining\<close>

lemma lookup_del1: "lookup (snd (store_del [k] s)) k' = (if k' = k then None else lookup s k')"
  by (simp add: store_del_lookup)

text \<open>A key that is live and not at the last instant of its life.\<close>

definition drainable :: "nat \<Rightarrow> store \<Rightarrow> bytes \<Rightarrow> bool" where
  "drainable now s k \<longleftrightarrow> live now s k \<noteq> None \<and> store_pttl now k s \<noteq> - 2"

lemma live_lookup: "lookup s k = lookup s' k \<Longrightarrow> live now s k = live now s' k \<and> store_pttl now k s = store_pttl now k s'"
  by (simp add: live_def store_pttl_def)

lemma drain_keys_spec:
  assumes "distinct ks" and "\<forall>k \<in> set ks. live now s k \<noteq> None"
  shows "lookup (snd (drain_keys now ks s)) k' = (if k' \<in> set ks \<and> drainable now s k' then None else lookup s k')"
    and "fst (drain_keys now ks s) =
      map (\<lambda>k. (k, the (live now s k), store_pttl now k s)) (filter (drainable now s) ks)"
proof -
  have "lookup (snd (drain_keys now ks s)) k' = (if k' \<in> set ks \<and> drainable now s k' then None else lookup s k') \<and>
    fst (drain_keys now ks s) =
      map (\<lambda>k. (k, the (live now s k), store_pttl now k s)) (filter (drainable now s) ks)"
    using assms
  proof (induction ks arbitrary: s)
    case (Cons k ks)
    obtain v where v: "live now s k = Some v" using Cons.prems by auto
    then have get: "store_get now k s = (Some v, s)"
      by (auto simp: store_get_def live_def split: option.splits if_splits)
    show ?case
    proof (cases "store_pttl now k s = - 2")
      case True
      with get Cons v show ?thesis by (auto simp: drainable_def)
    next
      case False
      let ?s = "snd (store_del [k] s)"
      have same: "live now ?s j = live now s j" "store_pttl now j ?s = store_pttl now j s"
        "drainable now ?s j = drainable now s j" if "j \<in> set ks" for j
      proof -
        have "lookup ?s j = lookup s j" using that Cons.prems(1) by auto
        from live_lookup [OF this] show "live now ?s j = live now s j"
          "store_pttl now j ?s = store_pttl now j s" "drainable now ?s j = drainable now s j"
          by (auto simp only: drainable_def)
      qed
      have live: "\<forall>k \<in> set ks. live now ?s k \<noteq> None" using same Cons.prems by auto
      have "drainable now s k" using False v by (simp add: drainable_def)
      moreover have "filter (drainable now ?s) ks = filter (drainable now s) ks"
        using same by (intro filter_cong) auto
      ultimately show ?thesis
        using Cons.IH [OF _ live] Cons.prems get False v same
        by (auto simp: split_def lookup_del1 simp del: store_del.simps)
    qed
  qed simp
  then show "lookup (snd (drain_keys now ks s)) k' = (if k' \<in> set ks \<and> drainable now s k' then None else lookup s k')"
    "fst (drain_keys now ks s) =
      map (\<lambda>k. (k, the (live now s k), store_pttl now k s)) (filter (drainable now s) ks)" by blast+
qed

lemma drain_slots_spec:
  assumes "store_inv s"
  shows "lookup (snd (drain_slots now slots s)) k =
      (if slot_for_key k \<in> set slots \<and> drainable now s k then None else lookup s k)"
    and "set (fst (drain_slots now slots s)) =
      {(k, v, pttl) | k v pttl. slot_for_key k \<in> set slots \<and> live now s k = Some v \<and>
        pttl = store_pttl now k s \<and> pttl \<noteq> - 2}"
proof -
  let ?ks = "filter (\<lambda>k. slot_for_key k \<in> set slots) (all_keys now s)"
  have d: "distinct ?ks" using distinct_all_keys [OF assms] by simp
  have l: "\<forall>k \<in> set ?ks. live now s k \<noteq> None" using set_all_keys [OF assms] by auto
  note spec = drain_keys_spec [OF d l]
  show "lookup (snd (drain_slots now slots s)) k =
      (if slot_for_key k \<in> set slots \<and> drainable now s k then None else lookup s k)"
    using spec(1) [of k] set_all_keys [OF assms, of now] by (auto simp: drain_slots_def drainable_def)
  show "set (fst (drain_slots now slots s)) =
      {(k, v, pttl) | k v pttl. slot_for_key k \<in> set slots \<and> live now s k = Some v \<and>
        pttl = store_pttl now k s \<and> pttl \<noteq> - 2}"
    using spec(2) set_all_keys [OF assms, of now] by (auto simp: drain_slots_def drainable_def)
qed

section \<open>Routing of multi-key commands\<close>

text \<open>The keys of a multi-key command: the bulk strings at every \<open>stride\<close>-th place from \<open>start\<close> on.\<close>

fun strided :: "nat \<Rightarrow> nat \<Rightarrow> 'a list \<Rightarrow> 'a list" where
  "strided stride skip [] = []"
| "strided stride (Suc skip) (x # xs) = strided stride skip xs"
| "strided stride 0 (x # xs) = x # strided stride (stride - 1) xs"

fun bulk_of :: "frame \<Rightarrow> bytes option" where
  "bulk_of (Bulk (Some b)) = Some b"
| "bulk_of _ = None"

definition keys_at :: "nat \<Rightarrow> nat \<Rightarrow> frame list \<Rightarrow> bytes list" where
  "keys_at start stride args = List.map_filter bulk_of (strided stride start args)"

lemma same_slot_loop_spec:
  "same_slot_loop stride skip slot fs =
     (case (case slot of Some s \<Rightarrow> [s] | None \<Rightarrow> []) @ map slot_for_key (List.map_filter bulk_of (strided stride skip fs)) of
        [] \<Rightarrow> NoSlot
      | s # ss \<Rightarrow> if \<forall>t \<in> set ss. t = s then Slot s else CrossSlot)"
proof (induction stride skip slot fs rule: same_slot_loop.induct)
  case (3 stride slot f fs)
  show ?case
  proof (cases "bulk_of f")
    case None
    then have "same_slot_loop stride 0 slot (f # fs) = same_slot_loop stride (stride - 1) slot fs"
      by (cases f rule: bulk_of.cases) auto
    moreover have "same_slot_loop stride (stride - 1) slot fs =
     (case (case slot of Some s \<Rightarrow> [s] | None \<Rightarrow> []) @ map slot_for_key (List.map_filter bulk_of (strided stride (stride - 1) fs)) of
        [] \<Rightarrow> NoSlot
      | s # ss \<Rightarrow> if \<forall>t \<in> set ss. t = s then Slot s else CrossSlot)"
      using None "3.IH" by (cases f rule: bulk_of.cases) auto
    ultimately show ?thesis using None by (simp add: List.map_filter_simps)
  next
    case (Some k)
    then have f: "f = Bulk (Some k)" by (cases f rule: bulk_of.cases) auto
    show ?thesis
      using "3.IH" f by (auto simp: List.map_filter_simps Let_def split: option.splits)
  qed
qed (auto split: option.splits simp: List.map_filter_simps)

lemma all_same_slot_spec:
  "all_same_slot args start stride =
     (case map slot_for_key (keys_at start stride args) of
        [] \<Rightarrow> NoSlot
      | s # ss \<Rightarrow> if \<forall>t \<in> set ss. t = s then Slot s else CrossSlot)"
  by (simp add: all_same_slot_def keys_at_def same_slot_loop_spec)

end
