(* ===== verification/Health.thy ===== *)
theory Health
  imports Cluster
begin

text \<open>
  Failure detection of \<open>src/cluster/mod.rs\<close>: the health table, gossip, one round of the heartbeat
  task and the removal of a failed peer. The network is an argument: \<open>ping\<close> says which peers
  answer in time; the messages a node sends are kept in order in its outbox.
\<close>

section \<open>The table\<close>

definition FAIL_THRESHOLD :: nat where
  "FAIL_THRESHOLD = 3"

datatype node_state = Alive | Suspected | Failed

fun state_text :: "node_state \<Rightarrow> bytes" where
  "state_text Alive = ''alive''"
| "state_text Suspected = ''suspected''"
| "state_text Failed = ''failed''"

record node_health =
  nstate :: node_state
  missed :: nat
  last_seen :: nat

type_synonym health_table = "(bytes \<times> node_health) list"

definition default_health :: "nat \<Rightarrow> node_health" where
  "default_health now = \<lparr>nstate = Alive, missed = 0, last_seen = now\<rparr>"

definition health_new :: "nat \<Rightarrow> bytes list \<Rightarrow> health_table" where
  "health_new now peers = fold (\<lambda>p t. AList.update p (default_health now) t) peers []"

definition entry_or_default :: "nat \<Rightarrow> bytes \<Rightarrow> health_table \<Rightarrow> node_health" where
  "entry_or_default now a t = (case map_of t a of Some h \<Rightarrow> h | None \<Rightarrow> default_health now)"

definition mark_alive :: "nat \<Rightarrow> bytes \<Rightarrow> health_table \<Rightarrow> health_table" where
  "mark_alive now a t =
     AList.update a ((entry_or_default now a t)\<lparr>nstate := Alive, missed := 0, last_seen := now\<rparr>) t"

text \<open>The counter is a \<open>u32\<close>.\<close>

definition record_miss :: "nat \<Rightarrow> bytes \<Rightarrow> health_table \<Rightarrow> node_state \<times> health_table" where
  "record_miss now a t =
     (let h = entry_or_default now a t;
          m = (missed h + 1) mod 2 ^ 32;
          st = (if m \<ge> FAIL_THRESHOLD then Failed else Suspected)
      in (st, AList.update a (h\<lparr>missed := m, nstate := st\<rparr>) t))"

definition is_failed :: "bytes \<Rightarrow> health_table \<Rightarrow> bool" where
  "is_failed a t = (case map_of t a of Some h \<Rightarrow> nstate h = Failed | None \<Rightarrow> False)"

definition sync_nodes :: "nat \<Rightarrow> bytes list \<Rightarrow> health_table \<Rightarrow> health_table" where
  "sync_nodes now addrs t =
     filter (\<lambda>(a, h). a \<in> set addrs)
       (fold (\<lambda>a t. AList.update a (entry_or_default now a t) t) addrs t)"

fun worse :: "node_state \<Rightarrow> node_state \<Rightarrow> bool" where
  "worse Alive Suspected = True"
| "worse Alive Failed = True"
| "worse Suspected Failed = True"
| "worse _ _ = False"

definition apply_gossip :: "nat \<Rightarrow> (bytes \<times> node_state) list \<Rightarrow> health_table \<Rightarrow> health_table" where
  "apply_gossip now updates t =
     fold (\<lambda>(a, st) t.
         let h = entry_or_default now a t
         in AList.update a (if worse (nstate h) st then h\<lparr>nstate := st\<rparr> else h) t)
       updates t"

definition to_csv :: "health_table \<Rightarrow> bytes" where
  "to_csv t = join '','' (map (\<lambda>(a, h). a @ ''='' @ state_text (nstate h)) t)"

definition health_snapshot :: "health_table \<Rightarrow> (bytes \<times> node_state) list" where
  "health_snapshot t = map (\<lambda>(a, h). (a, nstate h)) t"

text \<open>The payload of \<open>CLUSTER GOSSIP\<close> as the receiver reads it.\<close>

definition state_of_text :: "bytes \<Rightarrow> node_state option" where
  "state_of_text s =
     (if s = ''alive'' then Some Alive
      else if s = ''suspected'' then Some Suspected
      else if s = ''failed'' then Some Failed
      else None)"

definition parse_gossip_part :: "bytes \<Rightarrow> (bytes \<times> node_state) option" where
  "parse_gossip_part part =
     (case split_on (CHR ''='') part of
        a # b # rest \<Rightarrow>
          map_option (Pair (trim a)) (state_of_text (trim (join ''='' (b # rest))))
      | _ \<Rightarrow> None)"

definition parse_gossip :: "bytes \<Rightarrow> (bytes \<times> node_state) list" where
  "parse_gossip payload = List.map_filter parse_gossip_part (split_on (CHR '','') payload)"

section \<open>Heartbeats\<close>

record cluster_member =
  config :: cluster_config
  health :: health_table
  outbox :: "(bytes \<times> frame) list"

definition send :: "bytes \<Rightarrow> frame \<Rightarrow> cluster_member \<Rightarrow> cluster_member" where
  "send a f m = m\<lparr>outbox := outbox m @ [(a, f)]\<rparr>"

definition sync_frame :: "bytes \<Rightarrow> frame" where
  "sync_frame csv = Array (Some [bulk_str ''CLUSTER'', bulk_str ''SYNC'', bulk_str csv])"

definition gossip_frame :: "bytes \<Rightarrow> frame" where
  "gossip_frame csv = Array (Some [bulk_str ''CLUSTER'', bulk_str ''GOSSIP'', bulk_str csv])"

text \<open>\<open>None\<close> is the panic of a member list with more nodes than slots.\<close>

definition auto_heal :: "bytes \<Rightarrow> bytes \<Rightarrow> cluster_member \<Rightarrow> cluster_member option" where
  "auto_heal failed_addr me m =
     (if failed_addr \<notin> set (nodes (config m)) then Some m
      else let old_nodes = nodes (config m);
               new_nodes = filter (\<lambda>a. a \<noteq> failed_addr) old_nodes
           in if new_nodes = [] then Some m
              else if me \<notin> set new_nodes then Some m
              else case cluster_new new_nodes me of
                None \<Rightarrow> None
              | Some (Inl e) \<Rightarrow> Some m
              | Some (Inr new_cfg) \<Rightarrow>
                  Some (fold (\<lambda>peer m.
                      if peer = me \<or> peer = failed_addr then m
                      else if is_failed peer (health m) then m
                      else send peer (sync_frame (join '','' new_nodes)) m)
                    old_nodes (m\<lparr>config := new_cfg\<rparr>)))"

definition heartbeat_peer :: "(bytes \<Rightarrow> bool) \<Rightarrow> nat \<Rightarrow> bytes \<Rightarrow> bytes \<Rightarrow> cluster_member \<Rightarrow> cluster_member option" where
  "heartbeat_peer ping now me peer m =
     (if peer = me then Some m
      else if is_failed peer (health m) then Some m
      else if ping peer then
        (let m' = m\<lparr>health := mark_alive now peer (health m)\<rparr>
         in Some (send peer (gossip_frame (to_csv (health m'))) m'))
      else
        (case record_miss now peer (health m) of (st, t) \<Rightarrow>
           (let m' = m\<lparr>health := t\<rparr> in if st = Failed then auto_heal peer me m' else Some m')))"

fun heartbeat_peers ::
  "(bytes \<Rightarrow> bool) \<Rightarrow> nat \<Rightarrow> bytes \<Rightarrow> bytes list \<Rightarrow> cluster_member \<Rightarrow> cluster_member option" where
  "heartbeat_peers ping now me [] m = Some m"
| "heartbeat_peers ping now me (p # ps) m =
     (case heartbeat_peer ping now me p m of
        None \<Rightarrow> None
      | Some m' \<Rightarrow> heartbeat_peers ping now me ps m')"

definition heartbeat_round :: "(bytes \<Rightarrow> bool) \<Rightarrow> nat \<Rightarrow> bytes \<Rightarrow> cluster_member \<Rightarrow> cluster_member option" where
  "heartbeat_round ping now me m =
     (let peers = nodes (config m)
      in heartbeat_peers ping now me peers (m\<lparr>health := sync_nodes now peers (health m)\<rparr>))"

section \<open>Laws of the table\<close>

definition state_of :: "health_table \<Rightarrow> bytes \<Rightarrow> node_state option" where
  "state_of t a = map_option nstate (map_of t a)"

fun severity :: "node_state \<Rightarrow> nat" where
  "severity Alive = 0" | "severity Suspected = 1" | "severity Failed = 2"

lemma severity_inj [simp]: "severity x = severity y \<longleftrightarrow> x = y"
  by (cases x; cases y) auto

lemma worse_iff: "worse x y \<longleftrightarrow> severity x < severity y"
  by (cases x; cases y) auto

lemma state_of_update: "state_of (AList.update a h t) b = (if b = a then Some (nstate h) else state_of t b)"
  by (simp add: state_of_def update_conv')

lemma is_failed_state: "is_failed a t \<longleftrightarrow> state_of t a = Some Failed"
  by (auto simp: is_failed_def state_of_def split: option.splits)

definition state_or_alive :: "health_table \<Rightarrow> bytes \<Rightarrow> node_state" where
  "state_or_alive t a = (case state_of t a of Some st \<Rightarrow> st | None \<Rightarrow> Alive)"

lemma entry_or_default_state: "nstate (entry_or_default now a t) = state_or_alive t a"
  by (simp add: entry_or_default_def state_or_alive_def state_of_def default_health_def split: option.split)

lemma Max_insert_max:
  "finite A \<Longrightarrow> Max (insert (max x y) A) = Max (insert x (insert y (A :: nat set)))"
  by (cases "A = {}") (simp_all add: max.assoc)

text \<open>Gossip joins what is known with what is told: a peer ends in the worst state heard of it.\<close>

lemma apply_gossip_severity:
  "severity (state_or_alive (apply_gossip now us t) a) =
     Max (insert (severity (state_or_alive t a)) {severity st | st. (a, st) \<in> set us})"
proof (induction us arbitrary: t)
  case (Cons u us)
  obtain b st where u: "u = (b, st)" by force
  let ?h = "entry_or_default now b t"
  let ?t = "AList.update b (if worse (nstate ?h) st then ?h\<lparr>nstate := st\<rparr> else ?h) t"
  have fin: "finite {severity st | st. (a, st) \<in> set us}"
    by (rule finite_subset [of _ "(severity \<circ> snd) ` set us"]) force+
  have first: "severity (state_or_alive ?t a) =
      (if a = b then max (severity (state_or_alive t a)) (severity st) else severity (state_or_alive t a))"
    by (auto simp: state_or_alive_def state_of_update worse_iff entry_or_default_state max_def)
  have "apply_gossip now (u # us) t = apply_gossip now us ?t"
    by (simp add: apply_gossip_def u Let_def)
  then have "severity (state_or_alive (apply_gossip now (u # us) t) a) =
      Max (insert (severity (state_or_alive ?t a)) {severity st | st. (a, st) \<in> set us})"
    by (simp add: Cons.IH)
  also have "\<dots> = Max (insert (severity (state_or_alive t a)) {severity st | st. (a, st) \<in> set (u # us)})"
  proof (cases "a = b")
    case True
    have "{severity st' | st'. (a, st') \<in> set (u # us)} = insert (severity st) {severity st | st. (a, st) \<in> set us}"
      using True u by auto
    moreover have "severity (state_or_alive ?t a) = max (severity (state_or_alive t a)) (severity st)"
      using first unfolding if_P [OF True] .
    ultimately show ?thesis
      by (simp only: Max_insert_max [OF fin])
  next
    case False
    then have "{severity st' | st'. (a, st') \<in> set (u # us)} = {severity st | st. (a, st) \<in> set us}"
      using u by auto
    with first show ?thesis unfolding if_not_P [OF False] by (simp only:)
  qed
  finally show ?case .
qed (simp add: apply_gossip_def)

text \<open>Misses in a row: two leave a peer suspected, the third fails it.\<close>

fun misses :: "nat \<Rightarrow> nat \<Rightarrow> bytes \<Rightarrow> health_table \<Rightarrow> health_table" where
  "misses 0 now a t = t"
| "misses (Suc n) now a t = snd (record_miss now a (misses n now a t))"

lemma misses_after_alive:
  assumes "n < 2 ^ 32"
  shows "map_of (misses n now a (mark_alive now a t)) a =
    Some \<lparr>nstate = (if n = 0 then Alive else if n < FAIL_THRESHOLD then Suspected else Failed),
          missed = n, last_seen = now\<rparr>"
  using assms
proof (induction n)
  case 0
  show ?case
    by (simp add: mark_alive_def update_conv' entry_or_default_def default_health_def split: option.split)
next
  case (Suc n)
  then show ?case
    by (simp add: record_miss_def Let_def update_conv' entry_or_default_def FAIL_THRESHOLD_def)
qed

section \<open>The gossip payload\<close>

lemma split_on_no_sep: "sep \<notin> set xs \<Longrightarrow> split_on sep xs = [xs]"
  by (induction xs) auto

lemma split_on_append: "sep \<notin> set xs \<Longrightarrow> split_on sep (xs @ sep # ys) = xs # split_on sep ys"
  by (induction xs) auto

lemma split_on_join:
  "ps \<noteq> [] \<Longrightarrow> (\<And>p. p \<in> set ps \<Longrightarrow> sep \<notin> set p) \<Longrightarrow> split_on sep (join [sep] ps) = ps"
  by (induction ps rule: induct_list012) (simp_all add: split_on_no_sep split_on_append)

definition plain_addr :: "bytes \<Rightarrow> bool" where
  "plain_addr a \<longleftrightarrow> CHR '','' \<notin> set a \<and> CHR ''='' \<notin> set a \<and> trim a = a"

lemma state_text_plain:
  "CHR '','' \<notin> set (state_text st)" "CHR ''='' \<notin> set (state_text st)"
  "state_of_text (state_text st) = Some st"
  by (cases st; simp add: state_of_text_def)+

lemma trim_state_text: "trim (state_text st) = state_text st"
  by (rule trim_visible) (cases st; auto)

lemma parse_gossip_part_csv:
  "plain_addr a \<Longrightarrow> parse_gossip_part (a @ CHR ''='' # state_text st) = Some (a, st)"
  by (simp add: parse_gossip_part_def plain_addr_def split_on_append split_on_no_sep state_text_plain trim_state_text)

lemma parse_gossip_csv:
  assumes "\<forall>(a, h) \<in> set t. plain_addr a"
  shows "parse_gossip (to_csv t) = health_snapshot t"
proof (cases "t = []")
  case True
  then show ?thesis by (simp add: to_csv_def health_snapshot_def) code_simp
next
  case False
  let ?parts = "map (\<lambda>(a, h). a @ ''='' @ state_text (nstate h)) t"
  have "split_on (CHR '','') (to_csv t) = ?parts"
    unfolding to_csv_def using False assms
    by (intro split_on_join) (auto simp: plain_addr_def state_text_plain)
  moreover have "List.map_filter parse_gossip_part ?parts = health_snapshot t"
    using assms unfolding health_snapshot_def
    by (induction t) (auto simp: List.map_filter_simps parse_gossip_part_csv)
  ultimately show ?thesis by (simp add: parse_gossip_def)
qed

section \<open>Heartbeat rounds\<close>

lemma auto_heal_health: "auto_heal f me m = Some m' \<Longrightarrow> health m' = health m"
proof -
  have "health (fold (\<lambda>peer m. if peer = me \<or> peer = f then m
        else if is_failed peer (health m) then m else send peer fr m) ps n) = health n" for ps n fr
    by (induction ps arbitrary: n) (auto simp: send_def)
  then show "auto_heal f me m = Some m' \<Longrightarrow> health m' = health m"
    by (auto simp: auto_heal_def Let_def split: if_splits option.splits sum.splits)
qed

text \<open>A failed peer is skipped, so no heartbeat brings it back.\<close>

lemma heartbeat_peer_failed:
  assumes "is_failed a (health m)" and "heartbeat_peer ping now me p m = Some m'"
  shows "is_failed a (health m')"
proof (cases "p = a")
  case True
  then show ?thesis using assms by (auto simp: heartbeat_peer_def split: if_splits)
next
  case False
  have miss: "is_failed a (snd (record_miss now p (health m)))"
    using assms(1) False by (simp add: record_miss_def Let_def is_failed_state state_of_update)
  have alive: "is_failed a (mark_alive now p (health m))"
    using assms(1) False by (simp add: mark_alive_def is_failed_state state_of_update)
  show ?thesis
    using assms miss alive auto_heal_health
    by (auto simp: heartbeat_peer_def Let_def send_def split_def split: if_splits)
qed

lemma heartbeat_peers_failed:
  "is_failed a (health m) \<Longrightarrow> heartbeat_peers ping now me ps m = Some m' \<Longrightarrow> is_failed a (health m')"
  by (induction ps arbitrary: m) (auto split: option.splits dest: heartbeat_peer_failed)

lemma sync_nodes_state:
  "state_of (sync_nodes now addrs t) a = (if a \<in> set addrs then Some (state_or_alive t a) else None)"
proof -
  have "state_of (fold (\<lambda>a t. AList.update a (entry_or_default now a t) t) as t) a =
      (if a \<in> set as then Some (state_or_alive t a) else state_of t a)" for as
    by (induction as arbitrary: t)
      (auto simp: state_of_update entry_or_default_state state_or_alive_def split: option.splits)
  moreover have "state_of (filter (\<lambda>(a, h). a \<in> set addrs) u) a = (if a \<in> set addrs then state_of u a else None)" for u
    by (induction u) (auto simp: state_of_def)
  ultimately show ?thesis by (simp add: sync_nodes_def)
qed

lemma heartbeat_round_failed:
  assumes "is_failed a (health m)" and "a \<in> set (nodes (config m))"
    and "heartbeat_round ping now me m = Some m'"
  shows "is_failed a (health m')"
proof -
  have "is_failed a (sync_nodes now (nodes (config m)) (health m))"
    using assms(1,2) by (simp add: is_failed_state sync_nodes_state state_or_alive_def)
  then show ?thesis
    using assms(3) heartbeat_peers_failed [of a "m\<lparr>health := sync_nodes now (nodes (config m)) (health m)\<rparr>"]
    by (simp add: heartbeat_round_def Let_def)
qed

text \<open>Healing takes exactly the failed peer out of the member list, and tells only the survivors.\<close>

lemma auto_heal_spec:
  assumes "f \<in> set (nodes (config m))" and "me \<in> set (nodes (config m))" and "me \<noteq> f"
    and "auto_heal f me m = Some m'"
  shows "set (nodes (config m')) = set (nodes (config m)) - {f}" and "wf_config (config m')"
    and "my_addr (config m') = me"
    and "\<forall>(a, g) \<in> set (outbox m'). (a, g) \<in> set (outbox m) \<or> a \<noteq> f \<and> a \<noteq> me \<and> \<not> is_failed a (health m)"
proof -
  let ?new = "filter (\<lambda>a. a \<noteq> f) (nodes (config m))"
  let ?tell = "\<lambda>peer m. if peer = me \<or> peer = f then m
    else if is_failed peer (health m) then m else send peer (sync_frame (join '','' ?new)) m"
  have me: "me \<in> set ?new" using assms by simp
  then have ne: "?new \<noteq> []" by (metis list.set(1) empty_iff)
  have eq: "auto_heal f me m = (case cluster_new ?new me of None \<Rightarrow> None | Some (Inl e) \<Rightarrow> Some m
      | Some (Inr c) \<Rightarrow> Some (fold ?tell (nodes (config m)) (m\<lparr>config := c\<rparr>)))"
    unfolding auto_heal_def Let_def using assms(1) me ne by (simp only: if_False not_not if_not_P simp_thms)
  obtain r where r: "cluster_new ?new me = Some r"
    using eq assms(4) by (cases "cluster_new ?new me") simp_all
  then obtain c where "r = Inr c" using cluster_new_member [OF me] by (cases r) auto
  with r have c: "cluster_new ?new me = Some (Inr c)" by simp
  have m': "m' = fold ?tell (nodes (config m)) (m\<lparr>config := c\<rparr>)"
    using eq assms(4) unfolding c by simp
  have fold: "config (fold (\<lambda>peer m. if peer = me \<or> peer = f then m
        else if is_failed peer (health m) then m else send peer fr m) ps n) = config n \<and>
      (\<forall>(a, g) \<in> set (outbox (fold (\<lambda>peer m. if peer = me \<or> peer = f then m
        else if is_failed peer (health m) then m else send peer fr m) ps n)).
        (a, g) \<in> set (outbox n) \<or> a \<noteq> f \<and> a \<noteq> me \<and> \<not> is_failed a (health n))" for ps n fr
  proof (induction ps arbitrary: n)
    case (Cons p ps)
    show ?case
      using Cons.IH [of n] Cons.IH [of "send p fr n"] by (auto simp: send_def)
  qed auto
  show "set (nodes (config m')) = set (nodes (config m)) - {f}" "wf_config (config m')"
    "my_addr (config m') = me"
    "\<forall>(a, g) \<in> set (outbox m'). (a, g) \<in> set (outbox m) \<or> a \<noteq> f \<and> a \<noteq> me \<and> \<not> is_failed a (health m)"
    using fold [where n = "m\<lparr>config := c\<rparr>"] cluster_new_wf [OF c] unfolding m' by auto
qed

end
