(* ===== verification/Observability.thy ===== *)
theory Observability
  imports Health
begin

text \<open>
  The counters of \<open>src/observability/mod.rs\<close>, the text they are exported as, and the reply of the
  metrics server to a request. The counters are \<open>u64\<close> (the number of open connections an \<open>i64\<close>)
  and wrap. The map of per-command counters is an association list; the clock is an argument.
\<close>

section \<open>Counters\<close>

record cmd_stats =
  ok_count :: nat
  err_count :: nat

record metrics =
  start_time :: nat
  mhost :: bytes
  mport :: nat
  connections_active :: i64
  connections_total :: nat
  commands_ok :: nat
  commands_err :: nat
  per_cmd :: "(bytes \<times> cmd_stats) list"

definition u64_add1 :: "nat \<Rightarrow> nat" where
  "u64_add1 n = (n + 1) mod 2 ^ 64"

definition stats_new :: cmd_stats where
  "stats_new = \<lparr>ok_count = 0, err_count = 0\<rparr>"

definition metrics_new :: "nat \<Rightarrow> bytes \<Rightarrow> nat \<Rightarrow> metrics" where
  "metrics_new now h p =
     \<lparr>start_time = now, mhost = h, mport = p, connections_active = 0, connections_total = 0,
      commands_ok = 0, commands_err = 0, per_cmd = []\<rparr>"

definition record_cmd :: "bytes \<Rightarrow> bool \<Rightarrow> metrics \<Rightarrow> metrics" where
  "record_cmd cmd is_err m =
     (let st = (case map_of (per_cmd m) cmd of Some x \<Rightarrow> x | None \<Rightarrow> stats_new) in
      if is_err
      then m\<lparr>commands_err := u64_add1 (commands_err m),
             per_cmd := AList.update cmd (st\<lparr>err_count := u64_add1 (err_count st)\<rparr>) (per_cmd m)\<rparr>
      else m\<lparr>commands_ok := u64_add1 (commands_ok m),
             per_cmd := AList.update cmd (st\<lparr>ok_count := u64_add1 (ok_count st)\<rparr>) (per_cmd m)\<rparr>)"

definition conn_open :: "metrics \<Rightarrow> metrics" where
  "conn_open m =
     m\<lparr>connections_active := i64_wrap (connections_active m + 1),
       connections_total := u64_add1 (connections_total m)\<rparr>"

definition conn_close :: "metrics \<Rightarrow> metrics" where
  "conn_close m = m\<lparr>connections_active := i64_wrap (connections_active m - 1)\<rparr>"

definition uptime_secs :: "nat \<Rightarrow> metrics \<Rightarrow> nat" where
  "uptime_secs now m = (now - start_time m) div 10 ^ 9"

definition total_commands :: "metrics \<Rightarrow> nat" where
  "total_commands m = (commands_ok m + commands_err m) mod 2 ^ 64"

definition total_connections :: "metrics \<Rightarrow> nat" where
  "total_connections m = connections_total m"

definition active_connections :: "metrics \<Rightarrow> i64" where
  "active_connections m = connections_active m"

section \<open>The exported text\<close>

abbreviation QUOTE :: char where "QUOTE \<equiv> CHR 0x22"

definition metric_block :: "bytes \<Rightarrow> bytes \<Rightarrow> bytes \<Rightarrow> bytes \<Rightarrow> bytes" where
  "metric_block kind name help val =
     ''# HELP '' @ name @ '' '' @ help @ [LF] @ ''# TYPE '' @ name @ '' '' @ kind @ [LF] @
     name @ '' '' @ val @ [LF, LF]"

definition labelled :: "bytes \<Rightarrow> (bytes \<times> bytes) list \<Rightarrow> bytes \<Rightarrow> bytes" where
  "labelled name labels val =
     name @ ''{'' @ join '','' (map (\<lambda>(l, v). l @ ''='' @ [QUOTE] @ v @ [QUOTE]) labels) @ ''} '' @ val @ [LF]"

definition slots_owned :: "cluster_config \<Rightarrow> nat" where
  "slots_owned c = sum_list (map (\<lambda>(s, e). e - s + 1) (slot_ranges_for c (my_index c)))"

definition cmd_lines :: "bytes \<times> cmd_stats \<Rightarrow> bytes" where
  "cmd_lines x = (case x of (cmd, st) \<Rightarrow>
     (if ok_count st > 0
      then labelled ''loony_cmd_total'' [(''cmd'', cmd), (''status'', ''ok'')] (show_nat (ok_count st)) else []) @
     (if err_count st > 0
      then labelled ''loony_cmd_total'' [(''cmd'', cmd), (''status'', ''err'')] (show_nat (err_count st)) else []))"

definition peer_block :: "bytes \<Rightarrow> bytes \<Rightarrow> node_state \<Rightarrow> (bytes \<times> node_state) list \<Rightarrow> bytes" where
  "peer_block name help st peers =
     ''# HELP '' @ name @ '' '' @ help @ [LF] @ ''# TYPE '' @ name @ '' gauge'' @ [LF] @
     concat (map (\<lambda>(a, x). labelled name [(''peer'', a)] (if x = st then ''1'' else ''0'')) peers) @ [LF]"

definition prometheus_text ::
  "nat \<Rightarrow> metrics \<Rightarrow> store \<Rightarrow> replication \<Rightarrow> cluster_config option \<Rightarrow> health_table option \<Rightarrow> bytes" where
  "prometheus_text now m s r c h =
     metric_block ''counter'' ''loony_uptime_seconds'' ''Seconds since server start'' (show_nat (uptime_secs now m)) @
     metric_block ''gauge'' ''loony_connections_active'' ''Currently active client connections''
       (show_int (connections_active m)) @
     metric_block ''counter'' ''loony_connections_total'' ''Total client connections accepted since start''
       (show_nat (connections_total m)) @
     ''# HELP loony_commands_total Commands processed, by status'' @ [LF] @
     ''# TYPE loony_commands_total counter'' @ [LF] @
     labelled ''loony_commands_total'' [(''status'', ''ok'')] (show_nat (commands_ok m)) @
     labelled ''loony_commands_total'' [(''status'', ''err'')] (show_nat (commands_err m)) @ [LF] @
     ''# HELP loony_cmd_total Commands processed per command type'' @ [LF] @
     ''# TYPE loony_cmd_total counter'' @ [LF] @
     concat (map cmd_lines (sort_key fst (per_cmd m))) @ [LF] @
     (case keyspace_info now s of (total_keys, keys_with_expiry) \<Rightarrow>
        metric_block ''gauge'' ''loony_keys_total'' ''Total keys in the store'' (show_nat total_keys) @
        metric_block ''gauge'' ''loony_keys_with_expiry_total'' ''Keys that have a TTL set'' (show_nat keys_with_expiry)) @
     metric_block ''counter'' ''loony_replication_commits_total'' ''Write commands committed on this node''
       (show_nat (commit_count r)) @
     (case c of
        None \<Rightarrow> []
      | Some cfg \<Rightarrow>
          metric_block ''gauge'' ''loony_cluster_slots_owned'' ''Hash slots owned by this node''
            (show_nat (slots_owned cfg)) @
          metric_block ''gauge'' ''loony_cluster_nodes_total'' ''Number of nodes in the cluster''
            (show_nat (length (nodes cfg)))) @
     (case h of
        None \<Rightarrow> []
      | Some t \<Rightarrow>
          (let peers = health_snapshot t in
           if peers = [] then []
           else peer_block ''loony_peer_alive'' ''Peer liveness: 1=alive, 0=suspected/failed'' Alive peers @
                peer_block ''loony_peer_failed'' ''Peer is in failed state: 1=failed'' Failed peers))"

definition is_ready :: "health_table option \<Rightarrow> bool" where
  "is_ready h =
     (case h of Some t \<Rightarrow> \<not> list_ex (\<lambda>(a, st). st = Failed) (health_snapshot t) | None \<Rightarrow> True)"

section \<open>The metrics server\<close>

definition request_path :: "bytes \<Rightarrow> bytes" where
  "request_path buf =
     (let request = (if is_utf8 buf then buf else [])
      in case split_whitespace (takeWhile (\<lambda>c. c \<noteq> LF) request) of
           _ # path # _ \<Rightarrow> path
         | _ \<Rightarrow> ''/'')"

definition http_text :: "nat \<Rightarrow> bytes \<Rightarrow> bytes \<Rightarrow> bytes \<Rightarrow> bytes" where
  "http_text status reason ct body =
     ''HTTP/1.1 '' @ show_nat status @ '' '' @ reason @ CRLF @
     ''Content-Type: '' @ ct @ CRLF @
     ''Content-Length: '' @ show_nat (length body) @ CRLF @
     ''Connection: close'' @ CRLF @ CRLF @ body"

definition status_json :: "bytes \<Rightarrow> bytes" where
  "status_json w = ''{'' @ [QUOTE] @ ''status'' @ [QUOTE] @ '':'' @ [QUOTE] @ w @ [QUOTE] @ ''}'' @ [LF]"

definition http_response ::
  "nat \<Rightarrow> metrics \<Rightarrow> store \<Rightarrow> replication \<Rightarrow> cluster_config option \<Rightarrow> health_table option \<Rightarrow> bytes \<Rightarrow> bytes" where
  "http_response now m s r c h buf =
     (let path = request_path buf in
      if path = ''/metrics'' then
        http_text 200 ''OK'' ''text/plain; version=0.0.4; charset=utf-8'' (prometheus_text now m s r c h)
      else if path = ''/health'' then http_text 200 ''OK'' ''application/json'' (status_json ''ok'')
      else if path = ''/ready'' then
        (if is_ready h then http_text 200 ''OK'' ''application/json'' (status_json ''ok'')
         else http_text 503 ''Service Unavailable'' ''application/json'' (status_json ''degraded''))
      else http_text 404 ''Not Found'' ''text/plain'' (''not found'' @ [LF]))"

section \<open>Laws\<close>

text \<open>The totals are the sums of the per-command counters, as \<open>u64\<close>.\<close>

definition metrics_inv :: "metrics \<Rightarrow> bool" where
  "metrics_inv m \<longleftrightarrow> distinct (map fst (per_cmd m)) \<and>
     commands_ok m = sum_list (map (ok_count \<circ> snd) (per_cmd m)) mod 2 ^ 64 \<and>
     commands_err m = sum_list (map (err_count \<circ> snd) (per_cmd m)) mod 2 ^ 64"

lemma metrics_inv_new: "metrics_inv (metrics_new now h p)"
  by (simp add: metrics_inv_def metrics_new_def)

lemma sum_update:
  fixes f :: "'v \<Rightarrow> nat"
  shows "distinct (map fst al) \<Longrightarrow>
    sum_list (map (f \<circ> snd) (AList.update k v al)) + (case map_of al k of Some x \<Rightarrow> f x | None \<Rightarrow> 0) =
    sum_list (map (f \<circ> snd) al) + f v"
proof (induction al)
  case (Cons p al)
  obtain a b where p: "p = (a, b)" by fastforce
  show ?case
  proof (cases "a = k")
    case True
    with Cons.prems p have "map_of al k = None" by (auto simp: map_of_eq_None_iff)
    with True p show ?thesis by simp
  qed (use Cons p in simp)
qed simp

lemma u64_step:
  fixes x y c :: nat
  assumes "x + c = y + u64_add1 c"
  shows "x mod 2 ^ 64 = u64_add1 (y mod 2 ^ 64)"
proof -
  let ?q = "2 ^ 64 * ((c + 1) div 2 ^ 64)"
  have "c + 1 = ?q + u64_add1 c" unfolding u64_add1_def by (rule mult_div_mod_eq [symmetric])
  with assms have "x + ?q = y + 1" by linarith
  then have "(x + ?q) mod 2 ^ 64 = (y + 1) mod 2 ^ 64" by simp
  then show ?thesis unfolding u64_add1_def by (simp add: mod_simps)
qed

lemma record_cmd_inv:
  assumes "metrics_inv m"
  shows "metrics_inv (record_cmd cmd is_err m)"
proof -
  let ?st = "case map_of (per_cmd m) cmd of Some x \<Rightarrow> x | None \<Rightarrow> stats_new"
  have d: "distinct (map fst (per_cmd m))"
    and oks: "commands_ok m = sum_list (map (ok_count \<circ> snd) (per_cmd m)) mod 2 ^ 64"
    and errs: "commands_err m = sum_list (map (err_count \<circ> snd) (per_cmd m)) mod 2 ^ 64"
    using assms by (simp_all add: metrics_inv_def)
  have st: "(case map_of (per_cmd m) cmd of Some x \<Rightarrow> ok_count x | None \<Rightarrow> 0) = ok_count ?st"
    "(case map_of (per_cmd m) cmd of Some x \<Rightarrow> err_count x | None \<Rightarrow> 0) = err_count ?st"
    by (simp_all add: stats_new_def split: option.split)
  note sums = sum_update [OF d, of ok_count cmd] sum_update [OF d, of err_count cmd]
  show ?thesis
  proof (cases is_err)
    case True
    then show ?thesis
      using d oks errs sums(1) [of "?st\<lparr>err_count := u64_add1 (err_count ?st)\<rparr>"]
        u64_step [OF sums(2) [of "?st\<lparr>err_count := u64_add1 (err_count ?st)\<rparr>", unfolded st, simplified]]
      by (simp add: metrics_inv_def record_cmd_def Let_def distinct_update st)
  next
    case False
    then show ?thesis
      using d oks errs sums(2) [of "?st\<lparr>ok_count := u64_add1 (ok_count ?st)\<rparr>"]
        u64_step [OF sums(1) [of "?st\<lparr>ok_count := u64_add1 (ok_count ?st)\<rparr>", unfolded st, simplified]]
      by (simp add: metrics_inv_def record_cmd_def Let_def distinct_update st)
  qed
qed

lemma conn_inv: "metrics_inv (conn_open m) = metrics_inv m" "metrics_inv (conn_close m) = metrics_inv m"
  by (simp_all add: metrics_inv_def conn_open_def conn_close_def)

end
