(* ===== verification/Raft.thy ===== *)
theory Raft
  imports Resp_Protocol
begin

text \<open>
  The consensus node of \<open>src/consensus/mod.rs\<close>: its state, the handlers of the event loop and the
  encoding of the messages. Terms and log indexes (\<open>u64\<close>) are natural numbers. The clock \<open>now\<close>
  (milliseconds) and the random election timeout \<open>ms\<close> are arguments of the handlers that read
  them. A message a handler sends from a spawned task is part of its result; the pending
  proposals map a log index to the client that waits for it. The shared \<open>leader_id\<close>, which the
  source writes from a spawned task, is written at once.
\<close>

section \<open>State and messages\<close>

definition HEARTBEAT_MS :: nat where
  "HEARTBEAT_MS = 50"

record log_entry =
  entry_term :: nat
  command :: bytes

datatype role = Follower | Candidate | Leader

datatype raft_rpc =
    RequestVote (rpc_term: nat) (candidate_id: bytes) (rpc_last_index: nat) (rpc_last_term: nat)
  | RequestVoteResp (rpc_term: nat) (vote_granted: bool)
  | AppendEntries (rpc_term: nat) (rpc_leader: bytes) (prev_log_index: nat) (prev_log_term: nat)
      (rpc_entries: "log_entry list") (leader_commit: nat)
  | AppendEntriesResp (rpc_term: nat) (success: bool) (resp_match: nat)

record raft_node =
  node_name :: bytes
  peers :: "bytes list"
  current_term :: nat
  voted_for :: "bytes option"
  log :: "log_entry list"
  commit_index :: nat
  last_applied :: nat
  next_index :: "(bytes \<times> nat) list"
  match_index :: "(bytes \<times> nat) list"
  nrole :: role
  votes_received :: nat
  pending :: "(nat \<times> nat) list"
  leader_flag :: bool
  leader_id :: "bytes option"
  election_deadline :: nat
  last_heartbeat_sent :: nat

definition start_raft :: "nat \<Rightarrow> nat \<Rightarrow> bytes \<Rightarrow> bytes list \<Rightarrow> raft_node" where
  "start_raft now ms me ps =
     \<lparr>node_name = me, peers = ps, current_term = 0, voted_for = None,
      log = [\<lparr>entry_term = 0, command = []\<rparr>], commit_index = 0, last_applied = 0,
      next_index = [], match_index = [], nrole = Follower, votes_received = 0, pending = [],
      leader_flag = False, leader_id = None, election_deadline = now + ms, last_heartbeat_sent = now\<rparr>"

section \<open>Messages on the wire\<close>

definition bulk_num :: "nat \<Rightarrow> frame" where
  "bulk_num n = bulk_str (show_nat n)"

definition bulk_flag :: "bool \<Rightarrow> frame" where
  "bulk_flag b = bulk_str (if b then ''1'' else ''0'')"

fun rpc_to_frame :: "raft_rpc \<Rightarrow> frame" where
  "rpc_to_frame (RequestVote t c li lt) =
     array [bulk_str ''RAFT_REQVOTE'', bulk_num t, bulk_str c, bulk_num li, bulk_num lt]"
| "rpc_to_frame (RequestVoteResp t g) =
     array [bulk_str ''RAFT_VOTERESP'', bulk_num t, bulk_flag g]"
| "rpc_to_frame (AppendEntries t l pi pt es lc) =
     array ([bulk_str ''RAFT_APPEND'', bulk_num t, bulk_str l, bulk_num pi, bulk_num pt, bulk_num lc] @
       concat (map (\<lambda>e. [bulk_num (entry_term e), Bulk (Some (command e))]) es))"
| "rpc_to_frame (AppendEntriesResp t s m) =
     array [bulk_str ''RAFT_APPENDRESP'', bulk_num t, bulk_flag s, bulk_num m]"

definition raft_bulk_str :: "frame list \<Rightarrow> nat \<Rightarrow> bytes option" where
  "raft_bulk_str args i =
     (if i < length args then
        (case args ! i of Bulk (Some b) \<Rightarrow> Some (from_utf8_lossy b) | _ \<Rightarrow> None)
      else None)"

definition parse_u64 :: "frame list \<Rightarrow> nat \<Rightarrow> nat option" where
  "parse_u64 args i =
     (case raft_bulk_str args i of None \<Rightarrow> None | Some s \<Rightarrow> parse_unsigned 64 (trim s))"

text \<open>The loop over the pairs of an \<open>AppendEntries\<close>, on the arguments from the first pair on.\<close>

fun parse_entries :: "frame list \<Rightarrow> log_entry list option" where
  "parse_entries (t # c # rest) =
     (case parse_u64 [t] 0 of
        None \<Rightarrow> None
      | Some n \<Rightarrow>
          (case c of
             Bulk (Some b) \<Rightarrow>
               (case parse_entries rest of
                  None \<Rightarrow> None
                | Some es \<Rightarrow> Some (\<lparr>entry_term = n, command = b\<rparr> # es))
           | _ \<Rightarrow> None))"
| "parse_entries _ = Some []"

definition frame_to_rpc :: "frame \<Rightarrow> raft_rpc option" where
  "frame_to_rpc f =
     (case f of
        Array (Some args) \<Rightarrow>
          (case raft_bulk_str args 0 of
             None \<Rightarrow> None
           | Some tag \<Rightarrow>
               if tag = ''RAFT_REQVOTE'' then
                 (case (parse_u64 args 1, raft_bulk_str args 2, parse_u64 args 3, parse_u64 args 4) of
                    (Some t, Some c, Some li, Some lt) \<Rightarrow> Some (RequestVote t c li lt)
                  | _ \<Rightarrow> None)
               else if tag = ''RAFT_VOTERESP'' then
                 (case (parse_u64 args 1, raft_bulk_str args 2) of
                    (Some t, Some g) \<Rightarrow> Some (RequestVoteResp t (g = ''1''))
                  | _ \<Rightarrow> None)
               else if tag = ''RAFT_APPEND'' then
                 (case (parse_u64 args 1, raft_bulk_str args 2, parse_u64 args 3, parse_u64 args 4,
                        parse_u64 args 5, parse_entries (drop 6 args)) of
                    (Some t, Some l, Some pi, Some pt, Some lc, Some es) \<Rightarrow>
                      Some (AppendEntries t l pi pt es lc)
                  | _ \<Rightarrow> None)
               else if tag = ''RAFT_APPENDRESP'' then
                 (case (parse_u64 args 1, raft_bulk_str args 2, parse_u64 args 3) of
                    (Some t, Some s, Some m) \<Rightarrow> Some (AppendEntriesResp t (s = ''1'') m)
                  | _ \<Rightarrow> None)
               else None)
      | _ \<Rightarrow> None)"

section \<open>Handlers\<close>

definition quorum :: "raft_node \<Rightarrow> nat" where
  "quorum n = (length (peers n) + 1) div 2 + 1"

definition last_log_index :: "raft_node \<Rightarrow> nat" where
  "last_log_index n = length (log n) - 1"

definition last_log_term :: "raft_node \<Rightarrow> nat" where
  "last_log_term n = (if log n = [] then 0 else entry_term (last (log n)))"

definition log_term_at :: "raft_node \<Rightarrow> nat \<Rightarrow> nat" where
  "log_term_at n i = (if i < length (log n) then entry_term (log n ! i) else 0)"

definition reset_election_timeout :: "nat \<Rightarrow> nat \<Rightarrow> raft_node \<Rightarrow> raft_node" where
  "reset_election_timeout now ms n = n\<lparr>election_deadline := now + ms\<rparr>"

definition step_down :: "nat \<Rightarrow> nat \<Rightarrow> nat \<Rightarrow> raft_node \<Rightarrow> raft_node" where
  "step_down now ms t n =
     (let n = (if t > current_term n then n\<lparr>current_term := t, voted_for := None\<rparr> else n)
      in reset_election_timeout now ms (n\<lparr>nrole := Follower, leader_flag := False\<rparr>))"

definition set_leader :: "bytes \<Rightarrow> raft_node \<Rightarrow> raft_node" where
  "set_leader l n = n\<lparr>leader_id := Some l\<rparr>"

definition start_election :: "nat \<Rightarrow> nat \<Rightarrow> raft_node \<Rightarrow> (bytes \<times> raft_rpc) list \<times> raft_node" where
  "start_election now ms n =
     (let n = reset_election_timeout now ms
            (n\<lparr>current_term := current_term n + 1, nrole := Candidate,
               voted_for := Some (node_name n), votes_received := 1\<rparr>);
          rpc = RequestVote (current_term n) (node_name n) (last_log_index n) (last_log_term n)
      in (map (\<lambda>p. (p, rpc)) (peers n), n))"

text \<open>\<open>Instant::now() - 1 s\<close>; the clock is at least that old.\<close>

definition become_leader :: "nat \<Rightarrow> raft_node \<Rightarrow> raft_node" where
  "become_leader now n =
     (let n = set_leader (node_name n) (n\<lparr>nrole := Leader, leader_flag := True\<rparr>);
          nxt = last_log_index n + 1
      in n\<lparr>next_index := fold (\<lambda>p m. AList.update p nxt m) (peers n) (next_index n),
           match_index := fold (\<lambda>p m. AList.update p 0 m) (peers n) (match_index n),
           last_heartbeat_sent := now - 1000\<rparr>)"

definition handle_vote_response :: "nat \<Rightarrow> nat \<Rightarrow> raft_rpc \<Rightarrow> raft_node \<Rightarrow> raft_node" where
  "handle_vote_response now ms resp n =
     (case resp of
        RequestVoteResp t granted \<Rightarrow>
          if t > current_term n then step_down now ms t n
          else if nrole n \<noteq> Candidate \<or> t < current_term n then n
          else if granted then
            (let n = n\<lparr>votes_received := votes_received n + 1\<rparr>
             in if votes_received n \<ge> quorum n then become_leader now n else n)
          else n
      | _ \<Rightarrow> n)"

definition send_append_entries_to :: "raft_node \<Rightarrow> bytes \<Rightarrow> bytes \<times> raft_rpc" where
  "send_append_entries_to n p =
     (let nxt = (case map_of (next_index n) p of Some i \<Rightarrow> i | None \<Rightarrow> 1);
          prev_index = nxt - 1;
          entries = (if nxt \<le> length (log n) - 1 then drop nxt (log n) else [])
      in (p, AppendEntries (current_term n) (node_name n) prev_index (log_term_at n prev_index)
            entries (commit_index n)))"

definition send_heartbeats :: "nat \<Rightarrow> raft_node \<Rightarrow> (bytes \<times> raft_rpc) list \<times> raft_node" where
  "send_heartbeats now n =
     (if now - last_heartbeat_sent n < HEARTBEAT_MS then ([], n)
      else let n = n\<lparr>last_heartbeat_sent := now\<rparr>
           in (map (send_append_entries_to n) (peers n), n))"

definition try_advance_commit :: "raft_node \<Rightarrow> raft_node" where
  "try_advance_commit n =
     (case find (\<lambda>i. log_term_at n i = current_term n \<and>
                quorum n \<le> 1 + length (filter (\<lambda>(p, m). m \<ge> i) (match_index n)))
             (rev [commit_index n + 1 ..< last_log_index n + 1]) of
        Some i \<Rightarrow> n\<lparr>commit_index := i\<rparr>
      | None \<Rightarrow> n)"

definition handle_append_response :: "nat \<Rightarrow> nat \<Rightarrow> bytes \<Rightarrow> raft_rpc \<Rightarrow> raft_node \<Rightarrow> raft_node" where
  "handle_append_response now ms p resp n =
     (case resp of
        AppendEntriesResp t ok match_idx \<Rightarrow>
          if t > current_term n then step_down now ms t n
          else if nrole n \<noteq> Leader then n
          else if ok then
            try_advance_commit (n\<lparr>next_index := AList.update p (match_idx + 1) (next_index n),
              match_index := AList.update p match_idx (match_index n)\<rparr>)
          else
            (let nxt = (case map_of (next_index n) p of Some i \<Rightarrow> i | None \<Rightarrow> 1)
             in n\<lparr>next_index := AList.update p (if nxt > 1 then nxt - 1 else nxt) (next_index n)\<rparr>)
      | _ \<Rightarrow> n)"

definition handle_request_vote ::
  "nat \<Rightarrow> nat \<Rightarrow> nat \<Rightarrow> bytes \<Rightarrow> nat \<Rightarrow> nat \<Rightarrow> raft_node \<Rightarrow> raft_rpc \<times> raft_node" where
  "handle_request_vote now ms t cand li lt n =
     (let n = (if t > current_term n then step_down now ms t n else n);
          grant = (t \<ge> current_term n \<and>
            (voted_for n = None \<or> voted_for n = Some cand) \<and>
            (lt > last_log_term n \<or> lt = last_log_term n \<and> li \<ge> last_log_index n));
          n = (if grant then reset_election_timeout now ms (n\<lparr>voted_for := Some cand\<rparr>) else n)
      in (RequestVoteResp (current_term n) grant, n))"

text \<open>The two loops over the entries of a message: cut the log at the first conflict, then add what is missing.\<close>

fun truncate_conflict :: "nat \<Rightarrow> log_entry list \<Rightarrow> log_entry list \<Rightarrow> log_entry list" where
  "truncate_conflict idx [] lg = lg"
| "truncate_conflict idx (e # es) lg =
     (if idx < length lg \<and> entry_term (lg ! idx) \<noteq> entry_term e then take idx lg
      else truncate_conflict (idx + 1) es lg)"

fun push_missing :: "nat \<Rightarrow> log_entry list \<Rightarrow> log_entry list \<Rightarrow> log_entry list" where
  "push_missing idx [] lg = lg"
| "push_missing idx (e # es) lg =
     push_missing (idx + 1) es (if idx \<ge> length lg then lg @ [e] else lg)"

definition merge_entries :: "nat \<Rightarrow> log_entry list \<Rightarrow> log_entry list \<Rightarrow> log_entry list" where
  "merge_entries prev_index es lg =
     (if es = [] then lg
      else let insert_at = prev_index + 1;
               lg = (if insert_at < length lg then truncate_conflict insert_at es lg else lg)
           in push_missing insert_at es lg)"

definition handle_append_entries ::
  "nat \<Rightarrow> nat \<Rightarrow> nat \<Rightarrow> bytes \<Rightarrow> nat \<Rightarrow> nat \<Rightarrow> log_entry list \<Rightarrow> nat \<Rightarrow> raft_node \<Rightarrow> raft_rpc \<times> raft_node" where
  "handle_append_entries now ms t l prev_index prev_term es lc n =
     (if t < current_term n then (AppendEntriesResp (current_term n) False 0, n)
      else
        let n = set_leader l (step_down now ms t n) in
        if prev_index > 0 \<and>
           (prev_index \<ge> length (log n) \<or> entry_term (log n ! prev_index) \<noteq> prev_term)
        then (AppendEntriesResp (current_term n) False 0, n)
        else
          let n = n\<lparr>log := merge_entries prev_index es (log n)\<rparr>;
              n = (if lc > commit_index n then n\<lparr>commit_index := min lc (last_log_index n)\<rparr> else n)
          in (AppendEntriesResp (current_term n) True (last_log_index n), n))"

definition append_proposal :: "nat \<Rightarrow> bytes \<Rightarrow> raft_node \<Rightarrow> (bytes \<times> raft_rpc) list \<times> raft_node" where
  "append_proposal client cmd n =
     (let index = length (log n);
          n = n\<lparr>log := log n @ [\<lparr>entry_term = current_term n, command = cmd\<rparr>],
                pending := AList.update index client (pending n)\<rparr>
      in (map (send_append_entries_to n) (peers n), n))"

text \<open>
  The loop that applies committed entries with the state machine's function; its results are
  the replies to the waiting clients, the new node and the new state. \<open>None\<close> is the panic of an
  index beyond the log.
\<close>

function apply_committed ::
  "(frame \<Rightarrow> 's \<Rightarrow> frame \<times> 's) \<Rightarrow> raft_node \<Rightarrow> 's \<Rightarrow> ((nat \<times> frame) list \<times> raft_node \<times> 's) option" where
  "apply_committed f n s =
     (if last_applied n < commit_index n then
        let i = last_applied n + 1 in
        if length (log n) \<le> i then None
        else
          (case (case parse_frame (command (log n ! i)) of
                   Inr (Some (fr, _)) \<Rightarrow> f fr s
                 | _ \<Rightarrow> (Error ''ERR corrupt log entry'', s)) of
             (resp, s') \<Rightarrow>
               (let reply = (case map_of (pending n) i of Some c \<Rightarrow> [(c, resp)] | None \<Rightarrow> []);
                    n' = n\<lparr>last_applied := i, pending := AList.delete i (pending n)\<rparr>
                in case apply_committed f n' s' of
                     None \<Rightarrow> None
                   | Some (rs, n'', s'') \<Rightarrow> Some (reply @ rs, n'', s'')))
      else Some ([], n, s))"
  by pat_completeness auto
termination
  by (relation "measure (\<lambda>(f, n, s). commit_index n - last_applied n)") auto

declare apply_committed.simps [simp del]

end
