(* ===== verification/Command_Cluster.thy ===== *)
theory Command_Cluster
  imports Command_Collections Observability Raft
begin

text \<open>
  The commands of \<open>src/commands/mod.rs\<close> that concern the server and the cluster: \<open>CLUSTER\<close> with its
  subcommands, \<open>MIGRATE\<close>, \<open>INFO\<close> and \<open>DEBUG\<close>, and the requests to other nodes of \<open>src/cluster/mod.rs\<close>.
  The context is the record \<open>ctx\<close>; the requests sent to other nodes are kept in order in \<open>sent\<close>.
  A panic is \<open>None\<close>.
\<close>

section \<open>The context\<close>

record raft_handle =
  raft_is_leader :: bool
  raft_leader :: "bytes option"

record ctx =
  cdb :: db
  repl :: replication
  raft :: "raft_handle option"
  cluster :: "cluster_config option"
  chealth :: "health_table option"
  cmetrics :: "metrics option"
  is_replica_replay :: bool
  sent :: "(bytes \<times> frame) list"

abbreviation ctx_store :: "ctx \<Rightarrow> store" where
  "ctx_store c \<equiv> kv (cdb c)"

definition with_store :: "store \<Rightarrow> ctx \<Rightarrow> ctx" where
  "with_store s c = c\<lparr>cdb := (cdb c)\<lparr>kv := s\<rparr>\<rparr>"

section \<open>Requests to other nodes\<close>

definition send_internal :: "env \<Rightarrow> bytes \<Rightarrow> frame \<Rightarrow> ctx \<Rightarrow> frame \<times> ctx" where
  "send_internal e addr f c =
     ((case env_call e addr f of
         Answer resp \<Rightarrow> resp
       | Failure err \<Rightarrow> Error (''ERR internal RPC to '' @ addr @ '' failed: '' @ err)
       | Timeout \<Rightarrow> Error (''ERR internal RPC to '' @ addr @ '' timed out'')),
      c\<lparr>sent := sent c @ [(addr, f)]\<rparr>)"

definition proxy_to :: "env \<Rightarrow> bytes \<Rightarrow> frame \<Rightarrow> ctx \<Rightarrow> frame \<times> ctx" where
  "proxy_to e addr f c =
     ((case env_call e addr f of
         Answer resp \<Rightarrow> resp
       | Failure err \<Rightarrow> Error (''ERR cluster proxy failed: '' @ err)
       | Timeout \<Rightarrow> Error (''ERR cluster proxy timeout to '' @ addr)),
      c\<lparr>sent := sent c @ [(addr, f)]\<rparr>)"

text \<open>
  One connection for all entries: an entry counts when any reply came, and the first failure ends
  the loop with the result 0. The first component of the loop is \<open>None\<close> then.
\<close>

fun push_loop :: "env \<Rightarrow> bytes \<Rightarrow> migrate_entry list \<Rightarrow> usize \<Rightarrow> ctx \<Rightarrow> usize option \<times> ctx" where
  "push_loop e addr [] n c = (Some n, c)"
| "push_loop e addr ((k, v, pttl) # es) n c =
     (let f = build_value_frame (env_fmt e) k v pttl;
          c' = c\<lparr>sent := sent c @ [(addr, f)]\<rparr>
      in case env_call e addr f of
           Answer _ \<Rightarrow> push_loop e addr es (n + 1) c'
         | _ \<Rightarrow> (None, c'))"

definition push_entries_to :: "env \<Rightarrow> bytes \<Rightarrow> migrate_entry list \<Rightarrow> ctx \<Rightarrow> usize \<times> ctx" where
  "push_entries_to e addr es c =
     (if es = [] then (0, c)
      else case push_loop e addr es 0 c of
        (Some n, c') \<Rightarrow> (n, c')
      | (None, c') \<Rightarrow> (0, c'))"

text \<open>The loop over the targets: drain the slots, push the entries, count what was drained.\<close>

fun move_slots :: "env \<Rightarrow> (bytes \<times> nat list) list \<Rightarrow> usize \<Rightarrow> ctx \<Rightarrow> usize \<times> ctx" where
  "move_slots e [] n c = (n, c)"
| "move_slots e ((target, slots) # rest) n c =
     (case drain_slots (env_now e) slots (ctx_store c) of (entries, s) \<Rightarrow>
        move_slots e rest (n + length entries) (snd (push_entries_to e target entries (with_store s c))))"

fun send_all :: "env \<Rightarrow> frame \<Rightarrow> bytes list \<Rightarrow> ctx \<Rightarrow> ctx" where
  "send_all e f [] c = c"
| "send_all e f (a # as) c = send_all e f as (snd (send_internal e a f c))"

section \<open>CLUSTER\<close>

definition cluster_keyslot :: "frame list \<Rightarrow> frame" where
  "cluster_keyslot args =
     (if length args < 3 then wrong_num_args ''cluster|keyslot''
      else case bulk_at args 2 of
        Some k \<Rightarrow> Integer (int (slot_for_key k))
      | None \<Rightarrow> wrong_num_args ''cluster|keyslot'')"

definition cluster_health :: "ctx \<Rightarrow> frame" where
  "cluster_health c =
     (case chealth c of
        None \<Rightarrow> bulk_str ''cluster health monitoring not enabled''
      | Some t \<Rightarrow>
          bulk_str (join CRLF (map (\<lambda>(a, st). a @ '' '' @ state_text st) (sort_key fst (health_snapshot t)))))"

definition cluster_gossip :: "env \<Rightarrow> frame list \<Rightarrow> ctx \<Rightarrow> frame \<times> ctx" where
  "cluster_gossip e args c =
     (case bulk_as_str args 2 of
        None \<Rightarrow> (wrong_num_args ''cluster|gossip'', c)
      | Some payload \<Rightarrow>
          (frame_ok, c\<lparr>chealth := map_option (apply_gossip (env_now e) (parse_gossip payload)) (chealth c)\<rparr>))"

text \<open>
  \<open>ClusterConfig::new(..).unwrap()\<close> for the old and the new member list, then the migration of the
  slots this node gives up, then the new configuration. \<open>MEET\<close> and \<open>SYNC\<close> end this way.
\<close>

definition rebalance :: "env \<Rightarrow> bytes list \<Rightarrow> bytes list \<Rightarrow> bytes \<Rightarrow> ctx \<Rightarrow> (frame \<times> ctx) option" where
  "rebalance e old_nodes new_nodes me c =
     (case (cluster_new old_nodes me, cluster_new new_nodes me) of
        (Some (Inr old_cfg), Some (Inr new_cfg)) \<Rightarrow>
          Some (frame_ok, (snd (move_slots e (slots_to_send old_cfg new_cfg) 0 c))\<lparr>cluster := Some new_cfg\<rparr>)
      | _ \<Rightarrow> None)"

definition cluster_meet :: "env \<Rightarrow> frame list \<Rightarrow> ctx \<Rightarrow> (frame \<times> ctx) option" where
  "cluster_meet e args c =
     (if length args < 4 then Some (wrong_num_args ''cluster|meet'', c)
      else case bulk_as_str args 2 of
        None \<Rightarrow> Some (wrong_num_args ''cluster|meet'', c)
      | Some host \<Rightarrow>
          (case Option.bind (bulk_as_str args 3) (parse_unsigned 16) of
             None \<Rightarrow> Some (Error ''ERR invalid port'', c)
           | Some port \<Rightarrow>
               (let new_addr = host @ '':'' @ show_nat port in
                case cluster c of
                  None \<Rightarrow> Some (Error ''ERR cluster mode not enabled'', c)
                | Some cfg \<Rightarrow>
                    if new_addr \<in> set (nodes cfg) then Some (Error ''ERR node already in cluster'', c)
                    else
                      (let old_nodes = nodes cfg;
                           new_nodes = remdups_adj (sort (old_nodes @ [new_addr]));
                           f = sync_frame (join '','' new_nodes);
                           c' = send_all e f
                             (new_addr # filter (\<lambda>p. p \<noteq> my_addr cfg) old_nodes) c
                       in rebalance e old_nodes new_nodes (my_addr cfg) c'))))"

definition drain_frame :: "bytes \<Rightarrow> frame" where
  "drain_frame csv = Array (Some [bulk_str ''CLUSTER'', bulk_str ''DRAIN'', bulk_str csv])"

definition cluster_forget :: "env \<Rightarrow> frame list \<Rightarrow> ctx \<Rightarrow> (frame \<times> ctx) option" where
  "cluster_forget e args c =
     (if length args < 3 then Some (wrong_num_args ''cluster|forget'', c)
      else case bulk_as_str args 2 of
        None \<Rightarrow> Some (wrong_num_args ''cluster|forget'', c)
      | Some id_arg \<Rightarrow>
          (case cluster c of
             None \<Rightarrow> Some (Error ''ERR cluster mode not enabled'', c)
           | Some cfg \<Rightarrow>
               (case find (\<lambda>a. node_id a = id_arg \<or> a = id_arg) (nodes cfg) of
                  None \<Rightarrow> Some (Error (''ERR unknown node id `'' @ id_arg @ ''`''), c)
                | Some leaving \<Rightarrow>
                    if leaving = my_addr cfg then Some (Error ''ERR cannot FORGET self'', c)
                    else
                      (let old_nodes = nodes cfg; me = my_addr cfg;
                           new_nodes = filter (\<lambda>a. a \<noteq> leaving) old_nodes;
                           csv = join '','' new_nodes
                       in case cluster_new new_nodes me of
                            Some (Inr new_cfg) \<Rightarrow>
                              (let c' = send_all e (sync_frame csv)
                                     (filter (\<lambda>p. p \<noteq> me \<and> p \<noteq> leaving) old_nodes)
                                     (c\<lparr>cluster := Some new_cfg\<rparr>)
                               in case send_internal e leaving (drain_frame csv) c' of (resp, c'') \<Rightarrow>
                                    (case resp of
                                       Error err \<Rightarrow> Some (Error (''ERR DRAIN failed: '' @ err), c'')
                                     | _ \<Rightarrow> Some (frame_ok, c'')))
                          | _ \<Rightarrow> None))))"

definition split_nodes :: "bytes \<Rightarrow> bytes list" where
  "split_nodes csv = filter (\<lambda>a. a \<noteq> []) (map trim (split_on (CHR '','') csv))"

definition cluster_sync :: "env \<Rightarrow> frame list \<Rightarrow> ctx \<Rightarrow> (frame \<times> ctx) option" where
  "cluster_sync e args c =
     (case bulk_as_str args 2 of
        None \<Rightarrow> Some (wrong_num_args ''cluster|sync'', c)
      | Some csv \<Rightarrow>
          (let new_nodes = split_nodes csv in
           case cluster c of
             None \<Rightarrow> Some (Error ''ERR cluster mode not enabled'', c)
           | Some cfg \<Rightarrow>
               if my_addr cfg \<notin> set new_nodes
               then Some (Error ''ERR this node is not in the new node list'', c)
               else rebalance e (nodes cfg) new_nodes (my_addr cfg) c))"

text \<open>\<open>node_for_slot\<close> on an empty member list is an index out of range.\<close>

definition cluster_drain :: "env \<Rightarrow> frame list \<Rightarrow> ctx \<Rightarrow> (frame \<times> ctx) option" where
  "cluster_drain e args c =
     (case bulk_as_str args 2 of
        None \<Rightarrow> Some (wrong_num_args ''cluster|drain'', c)
      | Some csv \<Rightarrow>
          (case cluster c of
             None \<Rightarrow> Some (Error ''ERR cluster mode not enabled'', c)
           | Some cfg \<Rightarrow>
               (case for_routing (split_nodes csv) of
                  None \<Rightarrow> None
                | Some routing \<Rightarrow>
                    if nodes routing = [] \<and> my_slots cfg \<noteq> [] then None
                    else
                      (let by_target = fold (\<lambda>slot m.
                             let owner = node_for_slot routing slot
                             in if owner \<noteq> my_addr cfg then push_entry owner slot m else m)
                           (my_slots cfg) []
                       in case move_slots e by_target 0 c of (moved, c') \<Rightarrow> Some (int_reply moved, c')))))"

definition cmd_cluster :: "env \<Rightarrow> frame list \<Rightarrow> ctx \<Rightarrow> (frame \<times> ctx) option" where
  "cmd_cluster e args c =
     (let sub = (case bulk_as_str args 1 of Some w \<Rightarrow> to_uppercase w | None \<Rightarrow> []) in
      if sub = ''INFO'' then
        Some (bulk_str (case cluster c of
            Some cfg \<Rightarrow> cluster_info cfg
          | None \<Rightarrow> ''cluster_enabled:0'' @ CRLF @ ''cluster_state:ok'' @ CRLF), c)
      else if sub = ''NODES'' then
        Some (bulk_str (case cluster c of Some cfg \<Rightarrow> cluster_nodes_text cfg | None \<Rightarrow> []), c)
      else if sub = ''SLOTS'' then
        Some ((case cluster c of Some cfg \<Rightarrow> cluster_slots_frame cfg | None \<Rightarrow> empty_array), c)
      else if sub = ''SHARDS'' then
        Some ((case cluster c of Some cfg \<Rightarrow> cluster_shards_frame cfg | None \<Rightarrow> empty_array), c)
      else if sub = ''MYID'' then
        Some (bulk_str (case cluster c of Some cfg \<Rightarrow> node_id (my_addr cfg) | None \<Rightarrow> []), c)
      else if sub = ''KEYSLOT'' then Some (cluster_keyslot args, c)
      else if sub = ''RESET'' then Some (frame_ok, c)
      else if sub = ''HEALTH'' then Some (cluster_health c, c)
      else if sub = ''GOSSIP'' then Some (cluster_gossip e args c)
      else if sub = ''MEET'' then cluster_meet e args c
      else if sub = ''FORGET'' then cluster_forget e args c
      else if sub = ''SYNC'' then cluster_sync e args c
      else if sub = ''DRAIN'' then cluster_drain e args c
      else Some (Error (''ERR unknown CLUSTER subcommand `'' @ sub @ ''`''), c))"

section \<open>MIGRATE\<close>

definition cmd_migrate :: "env \<Rightarrow> frame list \<Rightarrow> ctx \<Rightarrow> frame \<times> ctx" where
  "cmd_migrate e args c =
     (if length args < 6 then (wrong_num_args ''migrate'', c)
      else case bulk_as_str args 1 of
        None \<Rightarrow> (wrong_num_args ''migrate'', c)
      | Some host \<Rightarrow>
          (case Option.bind (bulk_as_str args 2) (parse_unsigned 16) of
             None \<Rightarrow> (Error ''ERR invalid port'', c)
           | Some port \<Rightarrow>
               (case bulk_as_str args 3 of
                  None \<Rightarrow> (wrong_num_args ''migrate'', c)
                | Some k \<Rightarrow>
                    (let copy = list_ex (\<lambda>f. map_option to_ascii_uppercase (arg_bytes f) = Some ''COPY'') (drop 6 args);
                         target = host @ '':'' @ show_nat port
                     in case store_get (env_now e) k (ctx_store c) of
                          (None, s) \<Rightarrow> (bulk_str ''NOKEY'', with_store s c)
                        | (Some v, s) \<Rightarrow>
                            (let f = build_value_frame (env_fmt e) k v (store_pttl (env_now e) k s)
                             in case send_internal e target f (with_store s c) of (resp, c') \<Rightarrow>
                                  (case resp of
                                     SimpleString w \<Rightarrow>
                                       if w = ''OK''
                                       then (frame_ok,
                                             if copy then c' else with_store (snd (store_del [k] (ctx_store c'))) c')
                                       else (Error ''ERR unexpected response from migration target'', c')
                                   | Error err \<Rightarrow> (Error (''ERR target: '' @ err), c')
                                   | _ \<Rightarrow> (Error ''ERR unexpected response from migration target'', c')))))))"

section \<open>INFO and DEBUG\<close>

definition info_server :: "env \<Rightarrow> ctx \<Rightarrow> bytes" where
  "info_server e c =
     ''# Server'' @ CRLF @ ''redis_version:7.0.0-loony'' @ CRLF @
     (case cmetrics c of
        None \<Rightarrow> []
      | Some m \<Rightarrow>
          ''tcp_port:'' @ show_nat (mport m) @ CRLF @
          ''uptime_in_seconds:'' @ show_nat (uptime_secs (env_now e) m) @ CRLF @
          ''uptime_in_days:'' @ show_nat (uptime_secs (env_now e) m div 86400) @ CRLF) @
     ''os:Linux'' @ CRLF @ ''arch_bits:64'' @ CRLF @ ''executable:loony-redis'' @ CRLF @ CRLF"

definition info_stats :: "ctx \<Rightarrow> bytes" where
  "info_stats c =
     ''# Stats'' @ CRLF @
     (case cmetrics c of
        None \<Rightarrow> []
      | Some m \<Rightarrow>
          ''total_commands_processed:'' @ show_nat (total_commands m) @ CRLF @
          ''total_connections_received:'' @ show_nat (total_connections m) @ CRLF @
          ''connected_clients:'' @ show_int (active_connections m) @ CRLF) @
     CRLF"

definition info_replication :: "ctx \<Rightarrow> bytes" where
  "info_replication c =
     ''# Replication'' @ CRLF @
     (if is_leader (repl c) then ''role:master'' else ''role:replica'') @ CRLF @
     (case leader_addr (repl c) of
        None \<Rightarrow> []
      | Some addr \<Rightarrow>
          (let parts = split_on (CHR '':'') addr
           in ''master_host:'' @ hd parts @ CRLF @
              ''master_port:'' @ (if length parts > 1 then parts ! 1 else ''0'') @ CRLF)) @
     ''master_repl_offset:'' @ show_nat (commit_count (repl c)) @ CRLF @ CRLF"

definition info_cluster :: "ctx \<Rightarrow> bytes" where
  "info_cluster c =
     ''# Cluster'' @ CRLF @
     (case cluster c of
        Some cfg \<Rightarrow>
          ''cluster_enabled:1'' @ CRLF @
          ''cluster_my_id:'' @ node_id (my_addr cfg) @ CRLF @
          ''cluster_known_nodes:'' @ show_nat (length (nodes cfg)) @ CRLF @
          ''cluster_slots_owned:'' @ show_nat (slots_owned cfg) @ CRLF
      | None \<Rightarrow> ''cluster_enabled:0'' @ CRLF) @
     CRLF"

definition info_keyspace :: "env \<Rightarrow> ctx \<Rightarrow> bytes" where
  "info_keyspace e c =
     ''# Keyspace'' @ CRLF @
     (case keyspace_info (env_now e) (ctx_store c) of (keys, expires) \<Rightarrow>
        if keys > 0
        then ''db0:keys='' @ show_nat keys @ '',expires='' @ show_nat expires @ '',avg_ttl=0'' @ CRLF
        else []) @
     CRLF"

definition cmd_info :: "env \<Rightarrow> frame list \<Rightarrow> ctx \<Rightarrow> frame" where
  "cmd_info e args c =
     (let sec = (case bulk_as_str args 1 of Some w \<Rightarrow> to_uppercase w | None \<Rightarrow> ''ALL'');
          want = (\<lambda>name. sec = ''ALL'' \<or> sec = ''DEFAULT'' \<or> sec = name)
      in Bulk (Some (
           (if want ''SERVER'' then info_server e c else []) @
           (if want ''STATS'' then info_stats c else []) @
           (if want ''REPLICATION'' then info_replication c else []) @
           (if want ''CLUSTER'' then info_cluster c else []) @
           (if want ''KEYSPACE'' then info_keyspace e c else []))))"

text \<open>\<open>Duration::from_secs_f64\<close> panics on a negative number, on NaN and from \<open>2^64\<close> seconds on.\<close>

definition sleep_panics :: "f64 \<Rightarrow> bool" where
  "sleep_panics x \<longleftrightarrow> is_nan x \<or> f64_lt x f64_zero \<or> f64_le (word_of_nat (1087 * 2 ^ 52)) x"

definition debug_cluster :: "cluster_config \<Rightarrow> bytes" where
  "debug_cluster cfg =
     concat (map (\<lambda>(i, node).
       node @ (if i = my_index cfg then '' *'' else []) @ '' slots:['' @
       join '','' (map range_text (slot_ranges_for cfg i)) @ '']'' @ [LF])
       (enumerate 0 (nodes cfg)))"

definition debug_health :: "health_table \<Rightarrow> bytes" where
  "debug_health t =
     (let s = concat (map (\<lambda>(a, st). a @ '' '' @ state_text st @ [LF]) (health_snapshot t))
      in if s = [] then ''no peers'' @ [LF] else s)"

definition cmd_debug :: "env \<Rightarrow> frame list \<Rightarrow> ctx \<Rightarrow> frame option" where
  "cmd_debug e args c =
     (case map_option to_uppercase (bulk_as_str args 1) of
        None \<Rightarrow> Some (wrong_num_args ''debug'')
      | Some sub \<Rightarrow>
          if sub = ''SLEEP'' then
            (let secs = (case Option.bind (bulk_as_str args 2) parse_f64 of Some x \<Rightarrow> x | None \<Rightarrow> f64_zero)
             in if sleep_panics secs then None else Some frame_ok)
          else if sub = ''OBJECT'' then
            Some (case bulk_as_str args 2 of
                None \<Rightarrow> Error ''ERR syntax error''
              | Some k \<Rightarrow>
                  (case debug_object (env_now e) k (ctx_store c) of
                     Some info \<Rightarrow> Bulk (Some info)
                   | None \<Rightarrow> Error ''ERR no such key''))
          else if sub = ''CLUSTER'' then
            Some (Bulk (Some (case cluster c of Some cfg \<Rightarrow> debug_cluster cfg | None \<Rightarrow> ''cluster not enabled'')))
          else if sub = ''HEALTH'' then
            Some (Bulk (Some (case chealth c of Some t \<Rightarrow> debug_health t | None \<Rightarrow> ''cluster not enabled'')))
          else if sub = ''RELOAD'' \<or> sub = ''LOADAOF'' \<or> sub = ''JMAP'' then Some frame_ok
          else Some (Error (''ERR unknown debug sub-command '' @ [CHR 0x27] @ sub @ [CHR 0x27])))"

end
