(* ===== verification/Commands.thy ===== *)
theory Commands
  imports Command_Cluster
begin

text \<open>
  \<open>execute\<close> and \<open>dispatch\<close> of \<open>src/commands/mod.rs\<close>. The match of \<open>dispatch\<close> on the command name is the
  table \<open>dispatch_table\<close>, one pair per pattern in the order of the source; the three wrappers put a
  command over the data into the context. With a Raft handle a write is handed to the consensus
  node: its reply is \<open>env_propose\<close>, and the store changes when that node applies the entry
  (\<open>apply_committed\<close>).
\<close>

section \<open>Names\<close>

definition WRITE_COMMANDS :: "bytes list" where
  "WRITE_COMMANDS =
     [''SET'', ''MSET'', ''SETNX'', ''GETSET'', ''APPEND'',
      ''INCR'', ''INCRBY'', ''DECR'', ''DECRBY'',
      ''DEL'',
      ''LPUSH'', ''RPUSH'', ''LPOP'', ''RPOP'', ''LSET'', ''LINSERT'', ''LREM'', ''LTRIM'', ''LMOVE'',
      ''HSET'', ''HMSET'', ''HDEL'', ''HINCRBY'', ''HINCRBYFLOAT'', ''HSETNX'',
      ''SADD'', ''SREM'', ''SMOVE'', ''SPOP'', ''SUNIONSTORE'', ''SINTERSTORE'', ''SDIFFSTORE'',
      ''ZADD'', ''ZREM'', ''ZINCRBY'', ''ZPOPMIN'', ''ZPOPMAX'',
      ''ZREMRANGEBYRANK'', ''ZREMRANGEBYSCORE'',
      ''EXPIRE'', ''PEXPIRE'', ''PERSIST'',
      ''FLUSHDB'', ''FLUSHALL'']"

definition is_write :: "bytes \<Rightarrow> bool" where
  "is_write cmd \<longleftrightarrow> cmd \<in> set WRITE_COMMANDS"

text \<open>The name is upper-cased in a buffer of 32 bytes; a name that is not UTF-8 becomes empty.\<close>

definition command_name :: "frame list \<Rightarrow> bytes option" where
  "command_name args =
     (case bulk_at args 0 of
        None \<Rightarrow> None
      | Some cmd \<Rightarrow> (let up = to_ascii_uppercase (take 32 cmd) in Some (if is_utf8 up then up else [])))"

section \<open>Dispatch\<close>

type_synonym handler = "env \<Rightarrow> frame list \<Rightarrow> ctx \<Rightarrow> (frame \<times> ctx) option"

definition answers :: "(env \<Rightarrow> frame list \<Rightarrow> db \<Rightarrow> frame) \<Rightarrow> handler" where
  "answers f e args c = Some (f e args (cdb c), c)"

definition updates :: "(env \<Rightarrow> frame list \<Rightarrow> db \<Rightarrow> frame \<times> db) \<Rightarrow> handler" where
  "updates f e args c = (case f e args (cdb c) of (r, d) \<Rightarrow> Some (r, c\<lparr>cdb := d\<rparr>))"

definition attempts :: "(env \<Rightarrow> frame list \<Rightarrow> db \<Rightarrow> (frame \<times> db) option) \<Rightarrow> handler" where
  "attempts f e args c =
     (case f e args (cdb c) of None \<Rightarrow> None | Some (r, d) \<Rightarrow> Some (r, c\<lparr>cdb := d\<rparr>))"

definition server_table :: "(bytes \<times> handler) list" where
  "server_table =
     [(''PING'', answers (\<lambda>e args d. cmd_ping args)),
      (''ECHO'', answers (\<lambda>e args d. cmd_echo args)),
      (''QUIT'', answers (\<lambda>e args d. frame_ok)),
      (''SELECT'', answers (\<lambda>e args d. frame_ok)),
      (''CLIENT'', answers (\<lambda>e args d. frame_ok)),
      (''COMMAND'', answers (\<lambda>e args d. empty_array)),
      (''CONFIG'', answers (\<lambda>e args d. empty_array)),
      (''CLUSTER'', cmd_cluster),
      (''MIGRATE'', \<lambda>e args c. Some (cmd_migrate e args c)),
      (''INFO'', \<lambda>e args c. Some (cmd_info e args c, c)),
      (''DEBUG'', \<lambda>e args c. map_option (\<lambda>r. (r, c)) (cmd_debug e args c))]"

definition key_table :: "(bytes \<times> handler) list" where
  "key_table =
     [(''DEL'', updates (\<lambda>e. cmd_del)),
      (''EXISTS'', answers cmd_exists),
      (''TYPE'', answers cmd_type),
      (''EXPIRE'', attempts cmd_expire),
      (''PEXPIRE'', attempts cmd_pexpire),
      (''TTL'', answers cmd_ttl),
      (''PTTL'', answers cmd_pttl),
      (''PERSIST'', updates (\<lambda>e. cmd_persist)),
      (''KEYS'', answers cmd_keys),
      (''DBSIZE'', answers (\<lambda>e args d. int_reply (keys_count (kv d)))),
      (''FLUSHDB'', updates (\<lambda>e args d. (frame_ok, d\<lparr>kv := flush (kv d)\<rparr>))),
      (''FLUSHALL'', updates (\<lambda>e args d. (frame_ok, d\<lparr>kv := flush (kv d)\<rparr>)))]"

definition string_table :: "(bytes \<times> handler) list" where
  "string_table =
     [(''GET'', updates cmd_get),
      (''SET'', attempts cmd_set),
      (''MGET'', updates cmd_mget),
      (''MSET'', updates (\<lambda>e. cmd_mset)),
      (''STRLEN'', updates cmd_strlen),
      (''APPEND'', updates (\<lambda>e. cmd_append)),
      (''INCR'', updates (\<lambda>e. cmd_incrby 1)),
      (''DECR'', updates (\<lambda>e. cmd_incrby (- 1))),
      (''INCRBY'', updates (\<lambda>e. cmd_incrby_by 1)),
      (''DECRBY'', updates (\<lambda>e. cmd_incrby_by (- 1))),
      (''GETSET'', updates cmd_getset),
      (''SETNX'', updates cmd_setnx)]"

definition list_table :: "(bytes \<times> handler) list" where
  "list_table =
     [(''LPUSH'', updates (\<lambda>e. cmd_lpush)),
      (''RPUSH'', updates (\<lambda>e. cmd_rpush)),
      (''LPOP'', updates (\<lambda>e. cmd_lpop)),
      (''RPOP'', updates (\<lambda>e. cmd_rpop)),
      (''LLEN'', answers (\<lambda>e. cmd_llen)),
      (''LRANGE'', answers (\<lambda>e. cmd_lrange)),
      (''LINDEX'', answers (\<lambda>e. cmd_lindex)),
      (''LSET'', updates (\<lambda>e. cmd_lset)),
      (''LINSERT'', updates (\<lambda>e. cmd_linsert)),
      (''LREM'', updates (\<lambda>e. cmd_lrem)),
      (''LTRIM'', updates (\<lambda>e. cmd_ltrim)),
      (''LMOVE'', updates (\<lambda>e. cmd_lmove))]"

definition hash_table :: "(bytes \<times> handler) list" where
  "hash_table =
     [(''HSET'', updates (\<lambda>e. cmd_hset)),
      (''HMSET'', updates (\<lambda>e. cmd_hset)),
      (''HGET'', answers (\<lambda>e. cmd_hget)),
      (''HMGET'', answers (\<lambda>e. cmd_hmget)),
      (''HGETALL'', answers (\<lambda>e. cmd_hgetall)),
      (''HDEL'', updates (\<lambda>e. cmd_hdel)),
      (''HLEN'', answers (\<lambda>e. cmd_hlen)),
      (''HEXISTS'', answers (\<lambda>e. cmd_hexists)),
      (''HKEYS'', answers (\<lambda>e. cmd_hkeys)),
      (''HVALS'', answers (\<lambda>e. cmd_hvals)),
      (''HSETNX'', updates (\<lambda>e. cmd_hsetnx)),
      (''HINCRBY'', updates (\<lambda>e. cmd_hincrby)),
      (''HINCRBYFLOAT'', updates cmd_hincrbyfloat)]"

definition set_table :: "(bytes \<times> handler) list" where
  "set_table =
     [(''SADD'', updates (\<lambda>e. cmd_sadd)),
      (''SMEMBERS'', answers (\<lambda>e. cmd_smembers)),
      (''SISMEMBER'', answers (\<lambda>e. cmd_sismember)),
      (''SREM'', updates (\<lambda>e. cmd_srem)),
      (''SCARD'', answers (\<lambda>e. cmd_scard)),
      (''SMOVE'', updates (\<lambda>e. cmd_smove)),
      (''SRANDMEMBER'', answers cmd_srandmember),
      (''SPOP'', updates cmd_spop),
      (''SUNION'', answers (\<lambda>e. cmd_sunion)),
      (''SINTER'', answers (\<lambda>e. cmd_sinter)),
      (''SDIFF'', answers (\<lambda>e. cmd_sdiff)),
      (''SUNIONSTORE'', updates (\<lambda>e. cmd_sunionstore)),
      (''SINTERSTORE'', updates (\<lambda>e. cmd_sinterstore)),
      (''SDIFFSTORE'', updates (\<lambda>e. cmd_sdiffstore))]"

definition zset_table :: "(bytes \<times> handler) list" where
  "zset_table =
     [(''ZADD'', updates (\<lambda>e. cmd_zadd)),
      (''ZSCORE'', answers cmd_zscore),
      (''ZRANK'', answers (\<lambda>e. cmd_zrank)),
      (''ZREVRANK'', answers (\<lambda>e. cmd_zrevrank)),
      (''ZCARD'', answers (\<lambda>e. cmd_zcard)),
      (''ZCOUNT'', answers (\<lambda>e. cmd_zcount)),
      (''ZINCRBY'', updates cmd_zincrby),
      (''ZREM'', updates (\<lambda>e. cmd_zrem)),
      (''ZRANGE'', answers cmd_zrange),
      (''ZREVRANGE'', answers cmd_zrevrange),
      (''ZRANGEBYSCORE'', answers cmd_zrangebyscore),
      (''ZREVRANGEBYSCORE'', answers cmd_zrevrangebyscore),
      (''ZPOPMIN'', updates cmd_zpopmin),
      (''ZPOPMAX'', updates cmd_zpopmax),
      (''ZREMRANGEBYRANK'', updates (\<lambda>e. cmd_zremrangebyrank)),
      (''ZREMRANGEBYSCORE'', updates (\<lambda>e. cmd_zremrangebyscore))]"

definition dispatch_table :: "(bytes \<times> handler) list" where
  "dispatch_table =
     server_table @ key_table @ string_table @ list_table @ hash_table @ set_table @ zset_table"

definition dispatch :: "bytes \<Rightarrow> handler" where
  "dispatch cmd e args c =
     (case map_of dispatch_table cmd of
        Some h \<Rightarrow> h e args c
      | None \<Rightarrow> Some (Error (''ERR unknown command `'' @ cmd @ ''`''), c))"

section \<open>Execute\<close>

fun is_error :: "frame \<Rightarrow> bool" where
  "is_error (Error _) = True"
| "is_error _ = False"

definition moved_reply :: "raft_handle \<Rightarrow> frame" where
  "moved_reply h = Error (''MOVED '' @ (case raft_leader h of Some l \<Rightarrow> l | None \<Rightarrow> []))"

definition readonly_error :: frame where
  "readonly_error =
     Error (''READONLY You can'' @ [CHR 0x27] @ ''t write against a read only replica.'')"

definition crossslot_error :: frame where
  "crossslot_error =
     Error (''CROSSSLOT Keys in request don'' @ [CHR 0x27] @ ''t hash to the same slot'')"

text \<open>Where the cluster sends a command: an error, another node, or nowhere.\<close>

definition routing :: "cluster_config \<Rightarrow> bytes \<Rightarrow> frame list \<Rightarrow> (frame + bytes) option" where
  "routing cfg cmd args =
     (case command_slot cmd args of
        CrossSlot \<Rightarrow> Some (Inl crossslot_error)
      | Slot s \<Rightarrow> if \<not> is_mine cfg s then Some (Inr (node_for_slot cfg s)) else None
      | NoSlot \<Rightarrow> None)"

text \<open>The last part: the READONLY check, the command itself, the counters and the broadcast.\<close>

definition run_local :: "env \<Rightarrow> bytes \<Rightarrow> frame list \<Rightarrow> ctx \<Rightarrow> (frame \<times> ctx) option" where
  "run_local e cmd args c =
     (if is_write cmd \<and> \<not> is_replica_replay c \<and> \<not> is_leader (repl c) then Some (readonly_error, c)
      else case dispatch cmd e args c of
        None \<Rightarrow> None
      | Some (resp, c1) \<Rightarrow>
          (let c2 = c1\<lparr>cmetrics := map_option (record_cmd cmd (is_error resp)) (cmetrics c1)\<rparr>
           in Some (resp,
                if is_write cmd \<and> \<not> is_replica_replay c2 \<and> is_leader (repl c2) \<and> raft c2 = None \<and> \<not> is_error resp
                then c2\<lparr>repl := broadcast (serialize_frame (Array (Some args))) (repl c2)\<rparr>
                else c2)))"

definition execute :: "env \<Rightarrow> frame \<Rightarrow> ctx \<Rightarrow> (frame \<times> ctx) option" where
  "execute e f c =
     (case f of
        Array (Some args) \<Rightarrow>
          if args = [] then Some (Error ''ERR empty command'', c)
          else case command_name args of
            None \<Rightarrow> Some (Error ''ERR invalid command name'', c)
          | Some cmd \<Rightarrow>
              (case (if is_write cmd \<and> \<not> is_replica_replay c then raft c else None) of
                 Some h \<Rightarrow>
                   Some (if \<not> raft_is_leader h then moved_reply h
                         else env_propose e (serialize_frame (Array (Some args))), c)
               | None \<Rightarrow>
                   (case (if \<not> is_replica_replay c \<and> cmd \<noteq> ''CLUSTER''
                          then Option.bind (cluster c) (\<lambda>cfg. routing cfg cmd args) else None) of
                      Some (Inl err) \<Rightarrow> Some (err, c)
                    | Some (Inr target) \<Rightarrow> Some (proxy_to e target (Array (Some args)) c)
                    | None \<Rightarrow> run_local e cmd args c))
      | _ \<Rightarrow> Some (Error ''ERR invalid command format'', c))"

text \<open>
  The context of a replay (start-up, a replica, the Raft log), and the loop over its frames;
  \<open>ev i\<close> is the environment (the clock in it) of the \<open>i\<close>-th command.
\<close>

definition replay_ctx :: "store \<Rightarrow> replication \<Rightarrow> ctx" where
  "replay_ctx s r =
     \<lparr>cdb = \<lparr>kv = s, journal = None\<rparr>, repl = r, raft = None, cluster = None, chealth = None,
      cmetrics = None, is_replica_replay = True, sent = []\<rparr>"

fun execute_all :: "(nat \<Rightarrow> env) \<Rightarrow> frame list \<Rightarrow> ctx \<Rightarrow> ctx option" where
  "execute_all ev [] c = Some c"
| "execute_all ev (f # fs) c =
     (case execute (ev 0) f c of None \<Rightarrow> None | Some (r, c') \<Rightarrow> execute_all (\<lambda>i. ev (Suc i)) fs c')"

end
