(* ===== verification/Command_Laws.thy ===== *)
theory Command_Laws
  imports Commands
begin

text \<open>
  What holds of every command. The locale \<open>command_contract\<close> states a relation between the context
  before and after a command; its lemma extends the relation from the entries of the dispatch
  table to \<open>execute\<close> and to a whole run. It is interpreted for the invariant of the store, for the
  view of a reader, and for the append-only file.
\<close>

section \<open>From the table to a run\<close>

definition abides :: "(env \<Rightarrow> db \<Rightarrow> db \<Rightarrow> bool) \<Rightarrow> handler \<Rightarrow> bool" where
  "abides R h \<longleftrightarrow> (\<forall>e args c r c'. h e args c = Some (r, c') \<longrightarrow> R e (cdb c) (cdb c'))"

lemma abides_answers: "(\<And>e d. R e d d) \<Longrightarrow> abides R (answers f)"
  by (simp add: abides_def answers_def)

lemma abides_updates: "(\<And>e args d. R e d (snd (f e args d))) \<Longrightarrow> abides R (updates f)"
  by (auto simp: abides_def updates_def split: prod.splits) (metis snd_conv)

lemma abides_attempts:
  "(\<And>e args d r d'. f e args d = Some (r, d') \<Longrightarrow> R e d d') \<Longrightarrow> abides R (attempts f)"
  by (auto simp: abides_def attempts_def split: option.splits)

text \<open>A call of \<open>execute\<close> leaves the data alone or runs one entry of the table.\<close>

lemma run_local_effect:
  "run_local e cmd args c = Some (resp, c') \<Longrightarrow>
     c' = c \<or> (\<exists>r1 c1. dispatch cmd e args c = Some (r1, c1) \<and> cdb c' = cdb c1)"
  by (auto simp: run_local_def Let_def split: option.splits if_splits)

lemma execute_effect:
  assumes "execute e f c = Some (resp, c')"
  obtains (same) "cdb c' = cdb c"
    | (ran) args cmd r1 c1 where "f = Array (Some args)" "command_name args = Some cmd"
        "dispatch cmd e args c = Some (r1, c1)" "cdb c' = cdb c1"
proof -
  have "cdb c' = cdb c \<or> (\<exists>args cmd. f = Array (Some args) \<and> command_name args = Some cmd \<and>
      run_local e cmd args c = Some (resp, c'))"
    using assms
    by (auto simp: execute_def proxy_to_def split: frame.splits option.splits sum.splits if_splits)
  with that show thesis using run_local_effect by metis
qed

locale command_contract =
  fixes R :: "env \<Rightarrow> db \<Rightarrow> db \<Rightarrow> bool"
    and covers :: "bytes \<Rightarrow> bool"
  assumes R_refl: "R e d d"
    and R_handler: "(cmd, h) \<in> set dispatch_table \<Longrightarrow> covers cmd \<Longrightarrow> abides R h"
begin

lemma dispatch_R:
  assumes "covers cmd" and "dispatch cmd e args c = Some (resp, c')"
  shows "R e (cdb c) (cdb c')"
proof (cases "map_of dispatch_table cmd")
  case None
  with assms(2) R_refl show ?thesis by (simp add: dispatch_def)
next
  case (Some h)
  then have "abides R h" using assms(1) by (intro R_handler map_of_SomeD)
  with assms(2) Some show ?thesis by (simp add: dispatch_def abides_def)
qed

lemma execute_R:
  assumes "execute e f c = Some (resp, c')"
    and "\<And>args cmd. f = Array (Some args) \<Longrightarrow> command_name args = Some cmd \<Longrightarrow> covers cmd"
  shows "R e (cdb c) (cdb c')"
  using assms(1)
proof (cases rule: execute_effect)
  case same
  then show ?thesis by (simp add: R_refl)
next
  case (ran args cmd r1 c1)
  with dispatch_R [OF assms(2) [OF ran(1,2)] ran(3)] show ?thesis by simp
qed

lemma execute_all_R:
  assumes "\<And>cmd. covers cmd"
  shows "execute_all ev fs c = Some c' \<Longrightarrow> (\<lambda>d d'. \<exists>i. R (ev i) d d')\<^sup>*\<^sup>* (cdb c) (cdb c')"
proof (induction fs arbitrary: c ev)
  case (Cons f fs)
  then obtain r c1 where x: "execute (ev 0) f c = Some (r, c1)" "execute_all (\<lambda>i. ev (Suc i)) fs c1 = Some c'"
    by (auto split: option.splits)
  have "(\<lambda>d d'. \<exists>i. R (ev (Suc i)) d d')\<^sup>*\<^sup>* (cdb c1) (cdb c')" by (rule Cons.IH [OF x(2)])
  then have "(\<lambda>d d'. \<exists>i. R (ev i) d d')\<^sup>*\<^sup>* (cdb c1) (cdb c')" by (rule rtranclp_mono [THEN predicate2D, rotated]) auto
  with execute_R [OF x(1) assms] show ?case by (blast intro: converse_rtranclp_into_rtranclp)
qed simp

end

section \<open>The invariant of the store\<close>

definition rand_ok :: "env \<Rightarrow> bool" where
  "rand_ok e \<longleftrightarrow> (\<forall>xs. mset (env_shuffle e xs) = mset xs)"

lemma kv_logged [simp]: "kv (logged f d) = kv d"
  by (simp add: logged_def)

lemma store_op_inv:
  assumes "store_inv (kv d)" and "\<And>s. store_inv s \<Longrightarrow> store_inv (snd (f s))"
  shows "store_inv (kv (snd (store_op out f d)))"
  using assms(2) [OF assms(1)] by (simp add: store_op_def case_prod_unfold)

lemma logged_op_inv:
  assumes "store_inv (kv d)" and "\<And>s. store_inv s \<Longrightarrow> store_inv (snd (f s))"
  shows "store_inv (kv (snd (logged_op out logs lg f d)))"
  using assms(2) [OF assms(1)] by (simp add: logged_op_def case_prod_unfold split: sum.split)

lemma store_inv_flush: "store_inv (flush s)"
  by (simp add: store_inv_def flush_def)

lemma store_inv_put_string: "store_inv s \<Longrightarrow> store_inv (put k \<lparr>entry_value = VString v, expires_at = x\<rparr> s)"
  by (rule store_inv_put) simp_all

lemma key_cmds_inv:
  assumes "store_inv (kv d)"
  shows "store_inv (kv (snd (cmd_del args d)))" "store_inv (kv (snd (cmd_persist args d)))"
    "expire_with u name e args d = Some (r, d') \<Longrightarrow> store_inv (kv d')"
  using assms
  by (auto simp: cmd_del_def cmd_persist_def expire_with_def Let_def case_prod_unfold split: option.splits if_splits
      intro: store_inv_del store_inv_persist store_inv_expire)

lemma mget_items_inv: "store_inv s \<Longrightarrow> store_inv (snd (mget_items now fs s))"
  by (induction fs arbitrary: s) (auto simp: case_prod_unfold store_inv_get split: option.splits)

lemma mset_pairs_inv: "store_inv (kv d) \<Longrightarrow> store_inv (kv (mset_pairs fs d))"
  by (induction fs arbitrary: d rule: induct_list012) (auto simp: store_inv_put_string split: option.splits)

lemma string_cmds_inv:
  assumes "store_inv (kv d)"
  shows "store_inv (kv (snd (cmd_get e args d)))" "store_inv (kv (snd (cmd_mget e args d)))"
    "store_inv (kv (snd (cmd_mset args d)))" "store_inv (kv (snd (cmd_strlen e args d)))"
    "store_inv (kv (snd (cmd_append args d)))" "store_inv (kv (snd (cmd_incrby i args d)))"
    "store_inv (kv (snd (cmd_incrby_by i args d)))" "store_inv (kv (snd (cmd_getset e args d)))"
    "store_inv (kv (snd (cmd_setnx e args d)))"
  using assms
  by (auto simp: cmd_get_def cmd_mget_def cmd_mset_def cmd_strlen_def cmd_append_def cmd_incrby_def
      cmd_incrby_by_def cmd_getset_def cmd_setnx_def Let_def case_prod_unfold split: option.splits
      intro: store_inv_get mget_items_inv mset_pairs_inv logged_op_inv store_inv_string_ops
        store_inv_getset store_inv_put_string)

lemma cmd_set_inv:
  assumes "store_inv (kv d)" and "cmd_set e args d = Some (r, d')"
  shows "store_inv (kv d')"
  using assms
  by (auto simp: cmd_set_def Let_def case_prod_unfold split: option.splits if_splits
      intro: store_inv_set [where v = "VString v" for v])

lemma list_cmds_inv:
  assumes "store_inv (kv d)"
  shows "store_inv (kv (snd (cmd_lpush args d)))" "store_inv (kv (snd (cmd_rpush args d)))"
    "store_inv (kv (snd (cmd_lpop args d)))" "store_inv (kv (snd (cmd_rpop args d)))"
    "store_inv (kv (snd (cmd_lset args d)))" "store_inv (kv (snd (cmd_linsert args d)))"
    "store_inv (kv (snd (cmd_lrem args d)))" "store_inv (kv (snd (cmd_ltrim args d)))"
    "store_inv (kv (snd (cmd_lmove args d)))"
  using assms
  by (auto simp: cmd_lpush_def cmd_rpush_def cmd_lpop_def cmd_rpop_def cmd_lset_def cmd_linsert_def
      cmd_lrem_def cmd_ltrim_def cmd_lmove_def Let_def split: option.splits
      intro: logged_op_inv store_op_inv store_inv_list_ops store_inv_lmove)

lemma hset_pairs_inv: "store_inv (kv d) \<Longrightarrow> store_inv (kv (snd (hset_pairs k n fs d)))"
  by (induction fs arbitrary: n d rule: induct_list012)
    (auto simp: case_prod_unfold store_inv_hash_ops split: option.splits sum.splits)

lemma hash_cmds_inv:
  assumes "store_inv (kv d)"
  shows "store_inv (kv (snd (cmd_hset args d)))" "store_inv (kv (snd (cmd_hdel args d)))"
    "store_inv (kv (snd (cmd_hsetnx args d)))" "store_inv (kv (snd (cmd_hincrby args d)))"
    "store_inv (kv (snd (cmd_hincrbyfloat e args d)))"
  using assms
  by (auto simp: cmd_hset_def cmd_hdel_def cmd_hsetnx_def cmd_hincrby_def cmd_hincrbyfloat_def
      split: option.splits intro: hset_pairs_inv store_op_inv store_inv_hash_ops)

lemma set_cmds_inv:
  assumes "store_inv (kv d)"
  shows "store_inv (kv (snd (cmd_sadd args d)))" "store_inv (kv (snd (cmd_srem args d)))"
    "store_inv (kv (snd (cmd_smove args d)))" "store_inv (kv (snd (cmd_sunionstore args d)))"
    "store_inv (kv (snd (cmd_sinterstore args d)))" "store_inv (kv (snd (cmd_sdiffstore args d)))"
    "rand_ok e \<Longrightarrow> store_inv (kv (snd (cmd_spop e args d)))"
  using assms
  by (auto simp: cmd_sadd_def cmd_srem_def cmd_smove_def cmd_sunionstore_def cmd_sinterstore_def
      cmd_sdiffstore_def cmd_spop_def rand_ok_def Let_def split: option.splits
      intro: logged_op_inv store_op_inv store_inv_set_ops store_inv_smove store_inv_setstore store_inv_spop)

lemma zadd_pairs_inv: "store_inv s \<Longrightarrow> store_inv (snd (zadd_pairs k opts fs cnt s))"
  by (induction fs arbitrary: cnt s rule: induct_list012)
    (auto simp: case_prod_unfold store_inv_zset_ops split: option.splits sum.splits prod.splits)

lemma zset_cmds_inv:
  assumes "store_inv (kv d)"
  shows "store_inv (kv (snd (cmd_zadd args d)))" "store_inv (kv (snd (cmd_zincrby e args d)))"
    "store_inv (kv (snd (cmd_zrem args d)))" "store_inv (kv (snd (cmd_zpopmin e args d)))"
    "store_inv (kv (snd (cmd_zpopmax e args d)))" "store_inv (kv (snd (cmd_zremrangebyrank args d)))"
    "store_inv (kv (snd (cmd_zremrangebyscore args d)))"
  using assms
  by (auto simp: cmd_zadd_def cmd_zincrby_def cmd_zrem_def cmd_zpopmin_def cmd_zpopmax_def
      cmd_zremrangebyrank_def cmd_zremrangebyscore_def Let_def case_prod_unfold
      split: option.splits sum.splits intro: store_op_inv store_inv_zset_ops zadd_pairs_inv)

text \<open>Requests to other nodes leave the data alone; moving slots only drains them.\<close>

lemma cdb_send [simp]:
  "cdb (snd (send_internal e a f c)) = cdb c" "cdb (snd (proxy_to e a f c)) = cdb c"
  by (simp_all add: send_internal_def proxy_to_def)

lemma cdb_send_all [simp]: "cdb (send_all e f as c) = cdb c"
  by (induction as arbitrary: c) simp_all

lemma cdb_push_loop: "cdb (snd (push_loop e a es n c)) = cdb c"
  by (induction e a es n c rule: push_loop.induct) (auto simp: Let_def split: call_result.splits)

lemma cdb_push [simp]: "cdb (snd (push_entries_to e a es c)) = cdb c"
  using cdb_push_loop [of e a es 0 c] by (auto simp: push_entries_to_def split: prod.splits option.splits)

lemma with_store_simps [simp]:
  "ctx_store (with_store s c) = s" "journal (cdb (with_store s c)) = journal (cdb c)"
  by (simp_all add: with_store_def)

lemma drain_keys_inv: "store_inv s \<Longrightarrow> store_inv (snd (drain_keys now ks s))"
proof (induction ks arbitrary: s)
  case (Cons k ks)
  have "store_inv (snd (store_get now k s))" using Cons.prems by (rule store_inv_get)
  then show ?case
    using Cons.IH store_inv_del [of "snd (store_get now k s)" "[k]"]
    by (auto simp: Let_def split: prod.splits option.splits) (metis snd_conv)+
qed simp

lemma move_slots_inv: "store_inv (ctx_store c) \<Longrightarrow> store_inv (ctx_store (snd (move_slots e ts n c)))"
  by (induction e ts n c rule: move_slots.induct)
    (auto simp: case_prod_unfold drain_slots_def drain_keys_inv)

lemma move_slots_journal: "journal (cdb (snd (move_slots e ts n c))) = journal (cdb c)"
  by (induction e ts n c rule: move_slots.induct) (auto simp: case_prod_unfold)

text \<open>What \<open>CLUSTER\<close> does to the data is to move slots.\<close>

definition moves :: "env \<Rightarrow> ctx \<Rightarrow> ctx \<Rightarrow> bool" where
  "moves e c c' \<longleftrightarrow> (\<exists>ts n c0. cdb c0 = cdb c \<and> cdb c' = cdb (snd (move_slots e ts n c0)))"

lemma moves_same: "cdb c' = cdb c \<Longrightarrow> moves e c c'"
  unfolding moves_def by (rule exI [of _ "[]"]) auto

lemma moves_move: "cdb c0 = cdb c \<Longrightarrow> cdb c' = cdb (snd (move_slots e ts n c0)) \<Longrightarrow> moves e c c'"
  unfolding moves_def by blast

lemma rebalance_moves:
  assumes "rebalance e old new me c0 = Some (r, c')" and "cdb c0 = cdb c"
  shows "moves e c c'"
proof -
  obtain cfg cfg' where "c' = (snd (move_slots e (slots_to_send cfg cfg') 0 c0))\<lparr>cluster := Some cfg'\<rparr>"
    using assms(1) by (auto simp: rebalance_def split: option.splits sum.splits)
  then show ?thesis by (intro moves_move [OF assms(2), where ts = "slots_to_send cfg cfg'" and n = 0]) simp
qed

lemma cluster_meet_moves: "cluster_meet e args c = Some (r, c') \<Longrightarrow> moves e c c'"
  by (auto simp: cluster_meet_def Let_def moves_same split: option.splits if_splits
      elim!: rebalance_moves)

lemma cluster_sync_moves: "cluster_sync e args c = Some (r, c') \<Longrightarrow> moves e c c'"
  by (auto simp: cluster_sync_def Let_def moves_same split: option.splits if_splits elim!: rebalance_moves)

lemma cluster_drain_moves: "cluster_drain e args c = Some (r, c') \<Longrightarrow> moves e c c'"
  by (auto simp: cluster_drain_def Let_def moves_same case_prod_unfold split: option.splits if_splits
      intro: moves_move)

lemma cluster_forget_moves:
  assumes "cluster_forget e args c = Some (r, c')"
  shows "moves e c c'"
proof (rule moves_same)
  show "cdb c' = cdb c"
    using assms
    by (auto simp: cluster_forget_def Let_def send_internal_def split: option.splits sum.splits if_splits frame.splits)
qed

lemma cmd_cluster_moves:
  assumes "cmd_cluster e args c = Some (r, c')"
  shows "moves e c c'"
proof -
  have "cmd_cluster e args c \<in> {cluster_meet e args c, cluster_forget e args c, cluster_sync e args c,
      cluster_drain e args c} \<or> cdb c' = cdb c"
    using assms by (auto simp: cmd_cluster_def cluster_gossip_def Let_def split: if_splits option.splits)
  with assms show ?thesis
    using cluster_meet_moves cluster_forget_moves cluster_sync_moves cluster_drain_moves moves_same
    by (metis empty_iff insert_iff)
qed

lemma moves_inv: "moves e c c' \<Longrightarrow> store_inv (ctx_store c) \<Longrightarrow> store_inv (ctx_store c')"
  by (auto simp: moves_def move_slots_inv)

lemma moves_journal: "moves e c c' \<Longrightarrow> journal (cdb c') = journal (cdb c)"
  by (auto simp: moves_def move_slots_journal)

lemma cmd_migrate_inv: "store_inv (ctx_store c) \<Longrightarrow> store_inv (ctx_store (snd (cmd_migrate e args c)))"
  by (auto simp: cmd_migrate_def Let_def send_internal_def case_prod_unfold store_inv_get store_inv_remove
      split: option.splits frame.splits)


definition keeps_inv :: "env \<Rightarrow> db \<Rightarrow> db \<Rightarrow> bool" where
  "keeps_inv e d d' \<longleftrightarrow> (rand_ok e \<longrightarrow> store_inv (kv d) \<longrightarrow> store_inv (kv d'))"

lemma keeps_inv_refl: "keeps_inv e d d"
  by (simp add: keeps_inv_def)

lemma inv_server_table: "(cmd, h) \<in> set server_table \<Longrightarrow> abides keeps_inv h"
  by (auto simp: server_table_def intro: abides_answers keeps_inv_refl)
    (auto simp: abides_def keeps_inv_def dest: cmd_cluster_moves moves_inv, metis cmd_migrate_inv snd_conv)

lemma inv_key_table: "(cmd, h) \<in> set key_table \<Longrightarrow> abides keeps_inv h"
  by (auto simp: key_table_def keeps_inv_def cmd_expire_def cmd_pexpire_def key_cmds_inv(1,2) store_inv_flush
      intro!: abides_answers abides_updates abides_attempts intro: key_cmds_inv(3))

lemma inv_string_table: "(cmd, h) \<in> set string_table \<Longrightarrow> abides keeps_inv h"
  by (auto simp: string_table_def keeps_inv_def string_cmds_inv
      intro!: abides_updates abides_attempts intro: cmd_set_inv)

lemma inv_collection_tables:
  "(cmd, h) \<in> set (list_table @ hash_table @ set_table @ zset_table) \<Longrightarrow> abides keeps_inv h"
  by (auto simp: list_table_def hash_table_def set_table_def zset_table_def keeps_inv_def
      list_cmds_inv hash_cmds_inv set_cmds_inv zset_cmds_inv intro!: abides_answers abides_updates)

interpretation inv: command_contract keeps_inv "\<lambda>_. True"
proof
  show "abides keeps_inv h" if "(cmd, h) \<in> set dispatch_table" for cmd h
    using that inv_server_table inv_key_table inv_string_table inv_collection_tables
    unfolding dispatch_table_def by (metis Un_iff set_append)
qed (simp_all add: keeps_inv_def)

section \<open>The append-only file\<close>

text \<open>A command appends whole commands to the file, and to a missing file nothing.\<close>

definition journal_grows :: "env \<Rightarrow> db \<Rightarrow> db \<Rightarrow> bool" where
  "journal_grows e d d' \<longleftrightarrow> (\<exists>ws. journal d' = map_option (fold write_resp ws) (journal d))"

lemmas log_defs = log_set_def log_del_def log_list_push_def log_hset_def log_sadd_def log_generic_def

lemma journal_same: "journal d' = journal d \<Longrightarrow> journal_grows e d d'"
  unfolding journal_grows_def by (rule exI [of _ "[]"]) (simp add: option.map_id0)

lemma journal_grows_trans:
  assumes "journal_grows e d1 d2" and "journal_grows e d2 d3"
  shows "journal_grows e d1 d3"
proof -
  from assms obtain ws ws' where "journal d2 = map_option (fold write_resp ws) (journal d1)"
    "journal d3 = map_option (fold write_resp ws') (journal d2)"
    by (auto simp: journal_grows_def)
  then have "journal d3 = map_option (fold write_resp (ws @ ws')) (journal d1)"
    by (cases "journal d1") simp_all
  then show ?thesis unfolding journal_grows_def by blast
qed

lemma logged_grows:
  "journal d' = map_option (write_resp ps) (journal d) \<Longrightarrow> journal_grows e d d'"
  unfolding journal_grows_def by (rule exI [of _ "[ps]"]) simp

lemma logged_step:
  "journal_grows e (logged (write_resp ps) (d\<lparr>kv := s\<rparr>)) d' \<Longrightarrow> journal_grows e d d'"
  by (rule journal_grows_trans [OF logged_grows [of _ ps]]) (simp_all add: logged_def)

lemma journal_store_op: "journal (snd (store_op out f d)) = journal d"
  by (simp add: store_op_def case_prod_unfold)

lemma logged_op_grows: "journal_grows e d (snd (logged_op out logs (write_resp ps) f d))"
  by (auto simp: logged_op_def logged_def case_prod_unfold split: sum.split
      intro: journal_same logged_grows)

lemma mset_pairs_grows: "journal_grows e d (mset_pairs fs d)"
proof (induction fs arbitrary: d rule: induct_list012)
  case (3 kf vf rest)
  note IH = "3.IH"(1)
  show ?case by (auto simp: log_set_def IH logged_step [OF IH] split: option.split)
qed (simp_all add: journal_same)

lemma hset_pairs_grows: "journal_grows e d (snd (hset_pairs k n fs d))"
proof (induction fs arbitrary: n d rule: induct_list012)
  case (3 ff vf rest)
  note IH = "3.IH"(1)
  show ?case
    by (auto simp: log_hset_def IH logged_step [OF IH] case_prod_unfold journal_same split: option.split sum.split)
qed (simp_all add: journal_same)

lemma key_cmds_grow:
  "journal_grows e d (snd (cmd_del args d))" "journal (snd (cmd_persist args d)) = journal d"
  "expire_with u name e args d = Some (r, d') \<Longrightarrow> journal d' = journal d"
  by (auto simp: cmd_del_def cmd_persist_def expire_with_def Let_def case_prod_unfold log_defs logged_def
      split: option.splits if_splits intro: journal_same logged_grows)

lemma string_cmds_grow:
  "journal (snd (cmd_get e args d)) = journal d" "journal (snd (cmd_mget e args d)) = journal d"
  "journal_grows e d (snd (cmd_mset args d))" "journal (snd (cmd_strlen e args d)) = journal d"
  "journal_grows e d (snd (cmd_append args d))" "journal_grows e d (snd (cmd_incrby i args d))"
  "journal_grows e d (snd (cmd_incrby_by i args d))" "journal_grows e d (snd (cmd_getset e args d))"
  "journal_grows e d (snd (cmd_setnx e args d))"
  by (auto simp: cmd_get_def cmd_mget_def cmd_mset_def cmd_strlen_def cmd_append_def cmd_incrby_def
      cmd_incrby_by_def cmd_getset_def cmd_setnx_def Let_def case_prod_unfold log_defs logged_op_grows
      mset_pairs_grows split: option.split intro: journal_same)
    (auto simp: logged_def intro: logged_grows)

lemma cmd_set_grows: "cmd_set e args d = Some (r, d') \<Longrightarrow> journal_grows e d d'"
  by (auto simp: cmd_set_def Let_def case_prod_unfold log_defs logged_def
      split: option.splits if_splits intro: journal_same logged_grows)

lemma collection_cmds_grow:
  "journal_grows e d (snd (cmd_lpush args d))" "journal_grows e d (snd (cmd_rpush args d))"
  "journal_grows e d (snd (cmd_hset args d))" "journal_grows e d (snd (cmd_sadd args d))"
  "journal_grows e d (snd (cmd_zadd args d))"
  by (auto simp: cmd_lpush_def cmd_rpush_def cmd_hset_def cmd_sadd_def Let_def log_defs
      logged_op_grows hset_pairs_grows split: option.split intro: journal_same)
    (auto simp: cmd_zadd_def Let_def log_defs logged_def case_prod_unfold
      split: option.split sum.split intro: journal_same logged_grows)

lemma collection_cmds_same:
  "journal (snd (cmd_lpop args d)) = journal d" "journal (snd (cmd_rpop args d)) = journal d"
  "journal (snd (cmd_lset args d)) = journal d" "journal (snd (cmd_linsert args d)) = journal d"
  "journal (snd (cmd_lrem args d)) = journal d" "journal (snd (cmd_ltrim args d)) = journal d"
  "journal (snd (cmd_lmove args d)) = journal d" "journal (snd (cmd_hdel args d)) = journal d"
  "journal (snd (cmd_hsetnx args d)) = journal d" "journal (snd (cmd_hincrby args d)) = journal d"
  "journal (snd (cmd_hincrbyfloat e args d)) = journal d" "journal (snd (cmd_srem args d)) = journal d"
  "journal (snd (cmd_smove args d)) = journal d" "journal (snd (cmd_spop e args d)) = journal d"
  "journal (snd (cmd_sunionstore args d)) = journal d" "journal (snd (cmd_sinterstore args d)) = journal d"
  "journal (snd (cmd_sdiffstore args d)) = journal d" "journal (snd (cmd_zincrby e args d)) = journal d"
  "journal (snd (cmd_zrem args d)) = journal d" "journal (snd (cmd_zpopmin e args d)) = journal d"
  "journal (snd (cmd_zpopmax e args d)) = journal d" "journal (snd (cmd_zremrangebyrank args d)) = journal d"
  "journal (snd (cmd_zremrangebyscore args d)) = journal d"
  by (simp_all add: cmd_lpop_def cmd_rpop_def cmd_lset_def cmd_linsert_def cmd_lrem_def cmd_ltrim_def
      cmd_lmove_def cmd_hdel_def cmd_hsetnx_def cmd_hincrby_def cmd_hincrbyfloat_def cmd_srem_def
      cmd_smove_def cmd_spop_def cmd_sunionstore_def cmd_sinterstore_def cmd_sdiffstore_def
      cmd_zincrby_def cmd_zrem_def cmd_zpopmin_def cmd_zpopmax_def cmd_zremrangebyrank_def
      cmd_zremrangebyscore_def Let_def journal_store_op split: option.split)

lemma cmd_migrate_journal: "journal (cdb (snd (cmd_migrate e args c))) = journal (cdb c)"
  by (auto simp: cmd_migrate_def Let_def send_internal_def case_prod_unfold split: option.splits frame.splits)

lemma grow_server_table: "(cmd, h) \<in> set server_table \<Longrightarrow> abides journal_grows h"
  by (auto simp: server_table_def intro: abides_answers journal_same)
    (auto simp: abides_def intro!: journal_same dest: cmd_cluster_moves moves_journal,
      metis cmd_migrate_journal snd_conv)

lemma grow_data_tables:
  "(cmd, h) \<in> set (key_table @ string_table @ list_table @ hash_table @ set_table @ zset_table) \<Longrightarrow>
     abides journal_grows h"
  by (auto simp: key_table_def string_table_def list_table_def hash_table_def set_table_def zset_table_def
      cmd_expire_def cmd_pexpire_def key_cmds_grow(1,2) string_cmds_grow collection_cmds_grow
      collection_cmds_same journal_same
      intro!: abides_answers abides_updates abides_attempts
      intro: cmd_set_grows journal_same [OF key_cmds_grow(3)])

interpretation aof: command_contract journal_grows "\<lambda>_. True"
proof
  show "abides journal_grows h" if "(cmd, h) \<in> set dispatch_table" for cmd h
    using that grow_server_table grow_data_tables unfolding dispatch_table_def by (metis Un_iff set_append)
qed (auto intro: journal_same journal_grows_trans)

section \<open>Commands that only read\<close>

text \<open>
  A command outside \<open>WRITE_COMMANDS\<close>, other than \<open>MIGRATE\<close> and \<open>CLUSTER\<close>, leaves every key as a reader
  sees it from then on; it may drop entries that have expired.
\<close>

definition same_view :: "env \<Rightarrow> db \<Rightarrow> db \<Rightarrow> bool" where
  "same_view e d d' \<longleftrightarrow> journal d' = journal d \<and> (\<forall>t \<ge> env_now e. live t (kv d') = live t (kv d))"

lemma mget_items_view: "now \<le> t \<Longrightarrow> live t (snd (mget_items now fs s)) = live t s"
  by (induction fs arbitrary: s) (auto simp: case_prod_unfold live_after_get split: option.splits)

lemma read_cmds_view:
  "same_view e d (snd (cmd_get e args d))" "same_view e d (snd (cmd_strlen e args d))"
  "same_view e d (snd (cmd_mget e args d))"
  by (auto simp: same_view_def cmd_get_def cmd_strlen_def cmd_mget_def case_prod_unfold live_after_get
      mget_items_view split: option.split)

definition only_reads :: "bytes \<Rightarrow> bool" where
  "only_reads cmd \<longleftrightarrow> \<not> is_write cmd \<and> cmd \<notin> {''MIGRATE'', ''CLUSTER''}"

lemma same_view_refl: "same_view e d d"
  by (simp add: same_view_def)

lemma is_write_names [simp]:
  "is_write ''DEL''" "is_write ''EXPIRE''" "is_write ''PEXPIRE''" "is_write ''PERSIST''"
    "is_write ''FLUSHDB''" "is_write ''FLUSHALL''" "is_write ''SET''" "is_write ''MSET''"
    "is_write ''APPEND''" "is_write ''INCR''" "is_write ''DECR''" "is_write ''INCRBY''"
    "is_write ''DECRBY''" "is_write ''GETSET''" "is_write ''SETNX''" "is_write ''LPUSH''"
    "is_write ''RPUSH''" "is_write ''LPOP''" "is_write ''RPOP''" "is_write ''LSET''"
    "is_write ''LINSERT''" "is_write ''LREM''" "is_write ''LTRIM''" "is_write ''LMOVE''"
    "is_write ''HSET''" "is_write ''HMSET''" "is_write ''HDEL''" "is_write ''HSETNX''"
    "is_write ''HINCRBY''" "is_write ''HINCRBYFLOAT''" "is_write ''SADD''" "is_write ''SREM''"
    "is_write ''SMOVE''" "is_write ''SPOP''" "is_write ''SUNIONSTORE''" "is_write ''SINTERSTORE''"
    "is_write ''SDIFFSTORE''" "is_write ''ZADD''" "is_write ''ZINCRBY''" "is_write ''ZREM''"
    "is_write ''ZPOPMIN''" "is_write ''ZPOPMAX''" "is_write ''ZREMRANGEBYRANK''"
    "is_write ''ZREMRANGEBYSCORE''"
  by code_simp+

lemma view_tables:
  "list_all (\<lambda>(cmd, h). only_reads cmd \<longrightarrow> abides same_view h)
     (key_table @ string_table @ list_table @ hash_table @ set_table @ zset_table)"
  by (simp add: key_table_def string_table_def list_table_def hash_table_def set_table_def zset_table_def
      only_reads_def abides_answers [OF same_view_refl] abides_updates [where R = same_view] read_cmds_view)

lemma view_server_table:
  "list_all (\<lambda>(cmd, h). only_reads cmd \<longrightarrow> abides same_view h) server_table"
  by (simp add: server_table_def only_reads_def abides_answers [OF same_view_refl])
    (auto simp: abides_def same_view_refl)

interpretation view: command_contract same_view only_reads
proof
  show "abides same_view h" if "(cmd, h) \<in> set dispatch_table" "only_reads cmd" for cmd h
    using that view_server_table view_tables unfolding dispatch_table_def list_all_iff by fastforce
qed (auto simp: same_view_def)

end
