(* ===== verification/Replay.thy ===== *)
theory Replay
  imports Command_Laws
begin

text \<open>
  What is sent or logged as commands is executed again elsewhere: the snapshot on a replica, the
  moved entries on another node, the append-only file at start-up. This theory shows what such
  a replay rebuilds.
\<close>

section \<open>Executing a command in a replay\<close>

lemma command_name_plain:
  "to_ascii_uppercase (take 32 nm) = nm \<Longrightarrow> is_utf8 nm \<Longrightarrow> command_name (Bulk (Some nm) # args) = Some nm"
  by (simp add: command_name_def bulk_at_def arg_bytes_def)

lemma command_names [simp]:
  "command_name (Bulk (Some ''SET'') # args) = Some ''SET''"
  "command_name (Bulk (Some ''DEL'') # args) = Some ''DEL''"
  "command_name (Bulk (Some ''APPEND'') # args) = Some ''APPEND''"
  "command_name (Bulk (Some ''INCR'') # args) = Some ''INCR''"
  "command_name (Bulk (Some ''DECR'') # args) = Some ''DECR''"
  "command_name (Bulk (Some ''INCRBY'') # args) = Some ''INCRBY''"
  "command_name (Bulk (Some ''DECRBY'') # args) = Some ''DECRBY''"
  "command_name (Bulk (Some ''LPUSH'') # args) = Some ''LPUSH''"
  "command_name (Bulk (Some ''RPUSH'') # args) = Some ''RPUSH''"
  "command_name (Bulk (Some ''HSET'') # args) = Some ''HSET''"
  "command_name (Bulk (Some ''SADD'') # args) = Some ''SADD''"
  "command_name (Bulk (Some ''ZADD'') # args) = Some ''ZADD''"
  by (rule command_name_plain, code_simp, code_simp)+

lemmas table_defs = dispatch_table_def server_table_def key_table_def string_table_def list_table_def
  hash_table_def set_table_def zset_table_def

lemma dispatch_entries [simp]:
  "map_of dispatch_table ''SET'' = Some (attempts cmd_set)"
  "map_of dispatch_table ''DEL'' = Some (updates (\<lambda>e. cmd_del))"
  "map_of dispatch_table ''APPEND'' = Some (updates (\<lambda>e. cmd_append))"
  "map_of dispatch_table ''INCR'' = Some (updates (\<lambda>e. cmd_incrby 1))"
  "map_of dispatch_table ''DECR'' = Some (updates (\<lambda>e. cmd_incrby (- 1)))"
  "map_of dispatch_table ''INCRBY'' = Some (updates (\<lambda>e. cmd_incrby_by 1))"
  "map_of dispatch_table ''DECRBY'' = Some (updates (\<lambda>e. cmd_incrby_by (- 1)))"
  "map_of dispatch_table ''LPUSH'' = Some (updates (\<lambda>e. cmd_lpush))"
  "map_of dispatch_table ''RPUSH'' = Some (updates (\<lambda>e. cmd_rpush))"
  "map_of dispatch_table ''HSET'' = Some (updates (\<lambda>e. cmd_hset))"
  "map_of dispatch_table ''SADD'' = Some (updates (\<lambda>e. cmd_sadd))"
  "map_of dispatch_table ''ZADD'' = Some (updates (\<lambda>e. cmd_zadd))"
  by (simp_all add: table_defs)

definition replays :: "ctx \<Rightarrow> bool" where
  "replays c \<longleftrightarrow> is_replica_replay c \<and> cmetrics c = None"

lemma execute_attempts:
  assumes "command_name args = Some nm" and "map_of dispatch_table nm = Some (attempts g)" and "replays c"
  shows "execute e (Array (Some args)) c = map_option (\<lambda>(r, d). (r, c\<lparr>cdb := d\<rparr>)) (g e args (cdb c))"
proof -
  have "args \<noteq> []" using assms(1) by (auto simp: command_name_def bulk_at_def)
  with assms show ?thesis
    by (cases "g e args (cdb c)")
      (auto simp: execute_def run_local_def dispatch_def attempts_def replays_def split: prod.splits)
qed

lemma execute_updates:
  assumes "command_name args = Some nm" and "map_of dispatch_table nm = Some (updates g)" and "replays c"
  shows "execute e (Array (Some args)) c =
    Some (fst (g e args (cdb c)), c\<lparr>cdb := snd (g e args (cdb c))\<rparr>)"
proof -
  have "args \<noteq> []" using assms(1) by (auto simp: command_name_def bulk_at_def)
  with assms show ?thesis
    by (auto simp: execute_def run_local_def dispatch_def updates_def replays_def split: prod.splits)
qed

lemma replays_ctx [simp]: "replays (replay_ctx s r)"
  by (simp add: replays_def replay_ctx_def)

lemma replay_ctx_simps [simp]:
  "cdb (replay_ctx s r) = \<lparr>kv = s, journal = None\<rparr>"
  "(replay_ctx s r)\<lparr>cdb := \<lparr>kv = s', journal = None\<rparr>\<rparr> = replay_ctx s' r"
  by (simp_all add: replay_ctx_def)

lemma arg_simps [simp]:
  "arg_bytes (Bulk (Some b)) = Some b" "arg_bytes (bulk_str b) = Some b"
  "arg_str (Bulk (Some b)) = Some (from_utf8_lossy b)" "arg_str (bulk_str b) = Some (from_utf8_lossy b)"
  by (simp_all add: arg_bytes_def arg_str_def bulk_str_def)

lemma bulk_at_simps [simp]:
  "bulk_at [] i = None" "bulk_at (f # fs) 0 = arg_bytes f" "bulk_at (f # fs) (Suc i) = bulk_at fs i"
  "bulk_at (f # fs) (numeral n) = bulk_at fs (numeral n - 1)"
  by (simp_all add: bulk_at_def nth_Cons')

lemma map_filter_bulks [simp]: "List.map_filter arg_bytes (map (\<lambda>b. Bulk (Some b)) bs) = bs"
  by (induction bs) (simp_all add: List.map_filter_simps)

lemma logged_none [simp]: "journal d = None \<Longrightarrow> logged f d = d"
  by (simp add: logged_def)

section \<open>Values up to their encoding\<close>

fun value_sim :: "store_value \<Rightarrow> store_value \<Rightarrow> bool" where
  "value_sim (VString b) (VString b') \<longleftrightarrow> b' = b"
| "value_sim (VList l) (VList l') \<longleftrightarrow> to_vec l' = to_vec l"
| "value_sim (VHash h) (VHash h') \<longleftrightarrow> hash_lookup h' = hash_lookup h"
| "value_sim (VSet t) (VSet t') \<longleftrightarrow> set_elems t' = set_elems t"
| "value_sim (VZSet z) (VZSet z') \<longleftrightarrow> zscore z' = zscore z"
| "value_sim _ _ \<longleftrightarrow> False"

text \<open>
  \<open>rebuilt k v s s'\<close>: from \<open>s\<close>, which lacks the key, to \<open>s'\<close>, which has it with the value and no expiry.
\<close>

definition rebuilt :: "bytes \<Rightarrow> store_value \<Rightarrow> store \<Rightarrow> store \<Rightarrow> bool" where
  "rebuilt k v s s' \<longleftrightarrow>
     (\<exists>v'. lookup s' k = Some \<lparr>entry_value = v', expires_at = None\<rparr> \<and> value_sim v v') \<and>
     (\<forall>k'. k' \<noteq> k \<longrightarrow> lookup s' k' = lookup s k') \<and> store_inv s'"

text \<open>What the printed score is read back as: needed of the scores that are there.\<close>

definition scores_print :: "(f64 \<Rightarrow> bytes) \<Rightarrow> store_value \<Rightarrow> bool" where
  "scores_print fmt v \<longleftrightarrow> (\<forall>z. v = VZSet z \<longrightarrow> (\<forall>(m, x) \<in> set (scores z).
     \<not> is_nan x \<and> is_utf8 (fmt x) \<and> parse_f64 (fmt x) = Some x))"

lemma hset_loop:
  assumes "hash_at k s = Some m" and "store_inv s" and "expiry k s = None"
  shows "\<exists>s' n'. hset_pairs k n (concat (map (\<lambda>(f, v). [Bulk (Some f), Bulk (Some v)]) ps)) \<lparr>kv = s, journal = None\<rparr> =
      (int_reply n', \<lparr>kv = s', journal = None\<rparr>) \<and>
    hash_at k s' = Some (m ++ map_of (rev ps)) \<and> store_inv s' \<and> expiry k s' = None \<and>
    (ps \<noteq> [] \<longrightarrow> lookup s' k \<noteq> None) \<and> (\<forall>k'. k' \<noteq> k \<longrightarrow> lookup s' k' = lookup s k')"
  using assms
proof (induction ps arbitrary: s m n)
  case (Cons p ps)
  obtain f v where p: "p = (f, v)" by fastforce
  obtain h where h: "contents as_hash hash_new k s = Some h" using Cons.prems(1) by (auto simp: hash_at_def)
  let ?s = "snd (store_hset k f v s)"
  note spec = hset_spec [OF Cons.prems(1,2), of f v]
  have ex: "lookup ?s k = Some \<lparr>entry_value = VHash (snd (hset f v h)), expires_at = None\<rparr>"
    by (simp add: store_hset_def case_prod_unfold hashes.upd_hit(3) [OF h] Cons.prems(3))
  then have ex': "expiry k ?s = None" "lookup ?s k \<noteq> None" by (simp_all add: expiry_def)
  have frame: "k' \<noteq> k \<Longrightarrow> lookup ?s k' = lookup s k'" for k'
    by (simp add: store_hset_def hashes.upd_frame)
  obtain s' n' where IH: "hset_pairs k (n + (if m f = None then 1 else 0))
        (concat (map (\<lambda>(f, v). [Bulk (Some f), Bulk (Some v)]) ps)) \<lparr>kv = ?s, journal = None\<rparr> =
      (int_reply n', \<lparr>kv = s', journal = None\<rparr>)"
    and r: "hash_at k s' = Some (m(f \<mapsto> v) ++ map_of (rev ps))" "store_inv s'" "expiry k s' = None"
      "ps \<noteq> [] \<longrightarrow> lookup s' k \<noteq> None" "\<forall>k'. k' \<noteq> k \<longrightarrow> lookup s' k' = lookup ?s k'"
    using Cons.IH [OF spec(2) store_inv_hash_ops(1) [OF Cons.prems(2)] ex'(1)] by blast
  have "lookup s' k \<noteq> None"
    using r(4) ex'(2) IH by (cases ps) auto
  then show ?case
    using IH r spec(1) frame p by (auto simp: case_prod_unfold surj_pair split: sum.split)
qed auto

lemma zadd_loop:
  fixes opts
  assumes opts: "\<not> opt_nx opts" "\<not> opt_xx opts" "\<not> opt_gt opts" "\<not> opt_lt opts"
    and "zset_at k s = Some m" and "store_inv s" and "expiry k s = None"
    and "\<forall>(b, x) \<in> set ps. \<not> is_nan x \<and> is_utf8 (fmt x) \<and> parse_f64 (fmt x) = Some x"
    and "distinct (map fst ps)" and "fst ` set ps \<inter> dom m = {}"
  shows "\<exists>s' cnt'. zadd_pairs k opts (concat (map (\<lambda>(b, x). [bulk_str (fmt x), Bulk (Some b)]) ps)) cnt s = (Inr cnt', s') \<and>
    zset_at k s' = Some (m ++ map_of ps) \<and> store_inv s' \<and> expiry k s' = None \<and>
    (ps \<noteq> [] \<longrightarrow> lookup s' k \<noteq> None) \<and> (\<forall>k'. k' \<noteq> k \<longrightarrow> lookup s' k' = lookup s k')"
  using assms(5-)
proof (induction ps arbitrary: s m cnt)
  case (Cons p ps)
  obtain b x where p: "p = (b, x)" by fastforce
  obtain z where z: "contents as_zset zset_new k s = Some z" using Cons.prems(1) by (auto simp: zset_at_def)
  let ?s = "snd (store_zadd k x b False False False False s)"
  have x: "\<not> is_nan x" "from_utf8_lossy (fmt x) = fmt x" "parse_f64 (fmt x) = Some x"
    using Cons.prems(4) p by (auto simp: from_utf8_lossy_id)
  have mb: "m b = None" using Cons.prems(6) p by auto
  have at: "zset_at k ?s = Some (m(b \<mapsto> x))"
    using zadd_spec [OF Cons.prems(1,2), of x b False False False False] x(1) mb by (simp add: zadd_score_def)
  have ex: "lookup ?s k = Some \<lparr>entry_value = VZSet (snd (zadd x b False False False False z)), expires_at = None\<rparr>"
    by (simp add: store_zadd_def case_prod_unfold zsets.upd_hit(3) [OF z] Cons.prems(3))
  then have ex': "expiry k ?s = None" "lookup ?s k \<noteq> None" by (simp_all add: expiry_def)
  have frame: "k' \<noteq> k \<Longrightarrow> lookup ?s k' = lookup s k'" for k'
    by (simp add: store_zadd_def zsets.upd_frame)
  obtain a c where r: "fst (store_zadd k x b False False False False s) = Inr (a, c)"
    by (simp add: store_zadd_def case_prod_unfold zsets.upd_hit(1) [OF z]) (metis surj_pair)
  obtain added changed where cnt: "cnt = (added, changed)" by fastforce
  have "\<exists>s' cnt'. zadd_pairs k opts (concat (map (\<lambda>(b, x). [bulk_str (fmt x), Bulk (Some b)]) ps)) (added + a, changed + c) ?s
      = (Inr cnt', s') \<and>
    zset_at k s' = Some (m(b \<mapsto> x) ++ map_of ps) \<and> store_inv s' \<and> expiry k s' = None \<and>
    (ps \<noteq> [] \<longrightarrow> lookup s' k \<noteq> None) \<and> (\<forall>k'. k' \<noteq> k \<longrightarrow> lookup s' k' = lookup ?s k')"
  proof (intro Cons.IH at ex' store_inv_zset_ops)
    have "b \<notin> fst ` set ps" "fst ` set ps \<inter> dom m = {}" using Cons.prems(5,6) p by auto
    then show "fst ` set ps \<inter> dom (m(b \<mapsto> x)) = {}" by (simp add: Int_insert_right)
  qed (use Cons.prems p in auto)
  then obtain s' cnt' where IH: "zadd_pairs k opts (concat (map (\<lambda>(b, x). [bulk_str (fmt x), Bulk (Some b)]) ps)) (added + a, changed + c) ?s
      = (Inr cnt', s')"
    and s': "zset_at k s' = Some (m(b \<mapsto> x) ++ map_of ps)" "store_inv s'" "expiry k s' = None"
      "ps \<noteq> [] \<longrightarrow> lookup s' k \<noteq> None" "\<forall>k'. k' \<noteq> k \<longrightarrow> lookup s' k' = lookup ?s k'"
    by blast
  have some: "lookup s' k \<noteq> None" using s'(4) ex'(2) IH by (cases ps) auto
  have eq: "m(b \<mapsto> x) ++ map_of ps = m ++ map_of (p # ps)"
    using Cons.prems(5) p by (auto simp: fun_eq_iff map_add_def split: option.split dest: map_of_SomeD)
      (metis fst_conv image_eqI map_of_SomeD)
  have run: "zadd_pairs k opts (concat (map (\<lambda>(b, x). [bulk_str (fmt x), Bulk (Some b)]) (p # ps))) cnt s = (Inr cnt', s')"
    using p cnt x IH r opts by (simp add: case_prod_unfold)
  show ?case
    using run s'(1) [unfolded eq] s'(2,3) some s'(5) frame by metis
qed simp

lemma not_a_flag:
  assumes "parse_f64 w = Some x"
  shows "w \<notin> {''NX'', ''XX'', ''GT'', ''LT'', ''CH''}"
proof
  assume "w \<in> {''NX'', ''XX'', ''GT'', ''LT'', ''CH''}"
  moreover have "parse_f64 ''NX'' = None" "parse_f64 ''XX'' = None" "parse_f64 ''GT'' = None"
    "parse_f64 ''LT'' = None" "parse_f64 ''CH'' = None"
    by code_simp+
  ultimately show False using assms by auto
qed

lemma value_sim_hash: "hash_at k s' = Some (hash_lookup h) \<Longrightarrow> lookup s' k = Some e \<Longrightarrow> value_sim (VHash h) (entry_value e)"
  by (cases "entry_value e") (auto simp: hash_at_def contents_def)

lemma value_sim_list: "list_at k s' = Some (to_vec l) \<Longrightarrow> lookup s' k = Some e \<Longrightarrow> value_sim (VList l) (entry_value e)"
  by (cases "entry_value e") (auto simp: list_at_def contents_def)

lemma value_sim_set: "set_at k s' = Some (set_elems t) \<Longrightarrow> lookup s' k = Some e \<Longrightarrow> value_sim (VSet t) (entry_value e)"
  by (cases "entry_value e") (auto simp: set_at_def contents_def)

lemma value_sim_zset: "zset_at k s' = Some (zscore z) \<Longrightarrow> lookup s' k = Some e \<Longrightarrow> value_sim (VZSet z) (entry_value e)"
  by (cases "entry_value e") (auto simp: zset_at_def contents_def)

lemma rebuiltI:
  assumes "lookup s' k \<noteq> None" and "expiry k s' = None" and "store_inv s'"
    and "\<forall>k'. k' \<noteq> k \<longrightarrow> lookup s' k' = lookup s k'"
    and "\<And>e. lookup s' k = Some e \<Longrightarrow> value_sim v (entry_value e)"
  shows "rebuilt k v s s'"
proof -
  obtain e where e: "lookup s' k = Some e" using assms(1) by blast
  with assms(2) have "e = \<lparr>entry_value = entry_value e, expires_at = None\<rparr>" by (simp add: expiry_def)
  with e assms(3-) show ?thesis unfolding rebuilt_def by metis
qed

lemma absent_at:
  assumes "lookup s k = None"
  shows "list_at k s = Some []" "hash_at k s = Some Map.empty" "set_at k s = Some {}" "zset_at k s = Some Map.empty"
    "expiry k s = None"
  using assms
  by (simp_all add: list_at_def hash_at_def set_at_def zset_at_def contents_def expiry_def map_simps
      zset_new_def zscore_fun)

section \<open>Rebuilding one key\<close>

lemma rebuild_string:
  assumes "store_inv s"
  shows "rebuilt k (VString b) s (put k \<lparr>entry_value = VString b, expires_at = None\<rparr> s)"
  using assms by (auto simp: rebuilt_def intro: store_inv_put_string)

lemma rebuild_list:
  assumes "lookup s k = None" and "store_inv s"
  shows "rebuilt k (VList l) s (snd (rpush k (to_vec l) s))" and "\<exists>n. fst (rpush k (to_vec l) s) = Inr n"
proof -
  have c: "contents as_list list_new k s = Some list_new" using assms(1) by (simp add: contents_def)
  show "rebuilt k (VList l) s (snd (rpush k (to_vec l) s))"
  proof (rule rebuiltI)
    show "lookup (snd (rpush k (to_vec l) s)) k \<noteq> None" "expiry k (snd (rpush k (to_vec l) s)) = None"
      by (simp_all add: rpush_def Let_def expiry_def lists.upd_hit(3) [OF c] assms(1))
    show "\<forall>k'. k' \<noteq> k \<longrightarrow> lookup (snd (rpush k (to_vec l) s)) k' = lookup s k'"
      by (simp add: rpush_def lists.upd_frame)
    show "value_sim (VList l) (entry_value e)" if "lookup (snd (rpush k (to_vec l) s)) k = Some e" for e
      using push_spec(4) [OF absent_at(1) [OF assms(1)], of "to_vec l"] that by (simp add: value_sim_list)
  qed (rule store_inv_list_ops(2) [OF assms(2)])
  show "\<exists>n. fst (rpush k (to_vec l) s) = Inr n" using push_spec(3) [OF absent_at(1) [OF assms(1)]] by simp
qed

lemma rebuild_set:
  assumes "lookup s k = None" and "store_inv s"
  shows "rebuilt k (VSet t) s (snd (store_sadd k (members t) s))" and "\<exists>n. fst (store_sadd k (members t) s) = Inr n"
proof -
  have c: "contents as_set set_new k s = Some set_new" using assms(1) by (simp add: contents_def)
  have m: "set (members t) = set_elems t" by (cases t) (simp_all add: set_elems_def)
  note spec = sadd_spec [OF absent_at(3) [OF assms(1)] assms(2), of "members t"]
  show "rebuilt k (VSet t) s (snd (store_sadd k (members t) s))"
  proof (rule rebuiltI)
    show "lookup (snd (store_sadd k (members t) s)) k \<noteq> None" "expiry k (snd (store_sadd k (members t) s)) = None"
      by (simp_all add: store_sadd_def expiry_def sets.upd_hit(3) [OF c] assms(1))
    show "\<forall>k'. k' \<noteq> k \<longrightarrow> lookup (snd (store_sadd k (members t) s)) k' = lookup s k'"
      by (simp add: store_sadd_def sets.upd_frame)
    show "value_sim (VSet t) (entry_value e)" if "lookup (snd (store_sadd k (members t) s)) k = Some e" for e
      using spec(2) that m by (simp add: value_sim_set)
  qed (rule store_inv_set_ops(1) [OF assms(2)])
  show "\<exists>n. fst (store_sadd k (members t) s) = Inr n" using spec(1) by simp
qed

lemma rebuild_hash:
  assumes "lookup s k = None" and "store_inv s" and "hash_inv h" and "all_pairs h \<noteq> []"
  obtains n s' where "hset_pairs k 0 (concat (map (\<lambda>(f, v). [Bulk (Some f), Bulk (Some v)]) (all_pairs h)))
      \<lparr>kv = s, journal = None\<rparr> = (int_reply n, \<lparr>kv = s', journal = None\<rparr>)"
    and "rebuilt k (VHash h) s s'"
proof -
  obtain s' n where run: "hset_pairs k 0 (concat (map (\<lambda>(f, v). [Bulk (Some f), Bulk (Some v)]) (all_pairs h)))
      \<lparr>kv = s, journal = None\<rparr> = (int_reply n, \<lparr>kv = s', journal = None\<rparr>)"
    and s': "hash_at k s' = Some (Map.empty ++ map_of (rev (all_pairs h)))" "store_inv s'" "expiry k s' = None"
      "all_pairs h \<noteq> [] \<longrightarrow> lookup s' k \<noteq> None" "\<forall>k'. k' \<noteq> k \<longrightarrow> lookup s' k' = lookup s k'"
    using hset_loop [OF absent_at(2) [OF assms(1)] assms(2) absent_at(5) [OF assms(1)], of 0 "all_pairs h"] by blast
  have "map_of (rev (all_pairs h)) = hash_lookup h"
    using assms(3) map_of_inject_set [of "rev (all_pairs h)" "all_pairs h"]
    by (simp add: hash_inv_def hash_lookup_def rev_map [symmetric])
  with s' assms(4) have "rebuilt k (VHash h) s s'"
    by (intro rebuiltI) (auto simp: value_sim_hash)
  with run that show ?thesis by blast
qed

lemma rebuild_zset:
  assumes "lookup s k = None" and "store_inv s" and "zset_inv z" and "all_with_scores z \<noteq> []"
    and "scores_print fmt (VZSet z)" and "\<not> opt_nx opts" "\<not> opt_xx opts" "\<not> opt_gt opts" "\<not> opt_lt opts"
  obtains cnt s' where "zadd_pairs k opts (concat (map (\<lambda>(b, x). [bulk_str (fmt x), Bulk (Some b)]) (all_with_scores z))) (0, 0) s
      = (Inr cnt, s')"
    and "rebuilt k (VZSet z) s s'"
proof -
  have pr: "\<forall>(b, x) \<in> set (all_with_scores z). \<not> is_nan x \<and> is_utf8 (fmt x) \<and> parse_f64 (fmt x) = Some x"
    using assms(5) by (simp add: scores_print_def set_all_with_scores [OF assms(3)])
  obtain s' cnt where run: "zadd_pairs k opts (concat (map (\<lambda>(b, x). [bulk_str (fmt x), Bulk (Some b)]) (all_with_scores z))) (0, 0) s
      = (Inr cnt, s')"
    and s': "zset_at k s' = Some (Map.empty ++ map_of (all_with_scores z))" "store_inv s'" "expiry k s' = None"
      "all_with_scores z \<noteq> [] \<longrightarrow> lookup s' k \<noteq> None" "\<forall>k'. k' \<noteq> k \<longrightarrow> lookup s' k' = lookup s k'"
    using zadd_loop [OF assms(6-9) absent_at(4) [OF assms(1)] assms(2) absent_at(5) [OF assms(1)] pr
        distinct_all_with_scores [OF assms(3)], of "(0, 0)"] by auto
  have "map_of (all_with_scores z) = zscore z" by (simp add: map_of_all_with_scores [OF assms(3)] zscore_fun)
  with s' assms(4) have "rebuilt k (VZSet z) s s'" by (intro rebuiltI) (auto simp: value_sim_zset)
  with run that show ?thesis by blast
qed

lemma replay_hash:
  assumes "lookup s k = None" "store_inv s" "is_utf8 k" "hash_inv h" and snap: "snapshot_of k (VHash h) = Some en"
  obtains r s' where "execute e (snapshot_frame fmt en) (replay_ctx s rp) = Some (r, replay_ctx s' rp)"
    and "rebuilt k (VHash h) s s'"
proof -
  have ne: "all_pairs h \<noteq> []" and en: "en = SnHash k (all_pairs h)"
    using snap by (auto simp: hash_is_empty_def split: if_splits)
  obtain n s' where run: "hset_pairs k 0 (concat (map (\<lambda>(f, v). [Bulk (Some f), Bulk (Some v)]) (all_pairs h)))
      \<lparr>kv = s, journal = None\<rparr> = (int_reply n, \<lparr>kv = s', journal = None\<rparr>)" and s': "rebuilt k (VHash h) s s'"
    using rebuild_hash [OF assms(1,2,4) ne] by blast
  have len: "length (concat (map (\<lambda>(f, v). [Bulk (Some f), Bulk (Some v)]) ps)) = 2 * length ps"
    for ps :: "(bytes \<times> bytes) list"
    by (induction ps) auto
  have "execute e (snapshot_frame fmt en) (replay_ctx s rp) = Some (int_reply n, replay_ctx s' rp)"
    using ne assms(3) run len [of "all_pairs h"]
    by (simp add: en array_def bulk_str_def execute_updates [where nm = "''HSET''"] cmd_hset_def bulk_as_str_def
        from_utf8_lossy_id)
  with s' that show ?thesis by blast
qed

lemma replay_zset:
  assumes "lookup s k = None" "store_inv s" "is_utf8 k" and z: "zset_inv z"
    and pr: "scores_print fmt (VZSet z)" and snap: "snapshot_of k (VZSet z) = Some en"
  obtains r s' where "execute e (snapshot_frame fmt en) (replay_ctx s rp) = Some (r, replay_ctx s' rp)"
    and "rebuilt k (VZSet z) s s'"
proof -
  have ne: "all_with_scores z \<noteq> []" and en: "en = SnZSet k (all_with_scores z)"
    using snap length_all_with_scores [OF z] by (auto simp: zset_is_empty_def zset_len_def split: if_splits)
  let ?opts = "\<lparr>opt_nx = False, opt_xx = False, opt_gt = False, opt_lt = False, opt_ch = False\<rparr>"
  let ?args = "concat (map (\<lambda>(b, x). [bulk_str (fmt x), Bulk (Some b)]) (all_with_scores z))"
  obtain cnt s' where run: "zadd_pairs k ?opts ?args (0, 0) s = (Inr cnt, s')" and s': "rebuilt k (VZSet z) s s'"
    using rebuild_zset [OF assms(1,2) z ne, of fmt ?opts] pr by auto
  obtain b x ps where ps: "all_with_scores z = (b, x) # ps" using ne by (metis list.exhaust surj_pair)
  have "(b, x) \<in> set (scores z)" using ps set_all_with_scores [OF z] by (metis list.set_intros(1))
  then have x: "is_utf8 (fmt x)" "parse_f64 (fmt x) = Some x" using pr by (auto simp: scores_print_def)
  have flags: "zadd_flags ?args ?opts = (?opts, ?args)"
    using ps not_a_flag [OF x(2)] x(1) by (auto simp: Let_def from_utf8_lossy_id)
  have "execute e (snapshot_frame fmt en) (replay_ctx s rp) = Some (int_reply (fst cnt), replay_ctx s' rp)"
    using assms(3) run flags ps
    by (simp add: en array_def bulk_str_def execute_updates [where nm = "''ZADD''"] cmd_zadd_def bulk_as_str_def
        from_utf8_lossy_id case_prod_unfold)
  with s' that show ?thesis by blast
qed

lemma replay_value:
  assumes absent: "lookup s k = None" and inv: "store_inv s" and k: "is_utf8 k" and v: "value_inv v"
    and pr: "scores_print fmt v" and snap: "snapshot_of k v = Some en"
  obtains r s' where "execute e (snapshot_frame fmt en) (replay_ctx s rp) = Some (r, replay_ctx s' rp)"
    and "rebuilt k v s s'"
proof (cases v)
  case (VString b)
  have "execute e (snapshot_frame fmt en) (replay_ctx s rp) =
      Some (frame_ok, replay_ctx (put k \<lparr>entry_value = VString b, expires_at = None\<rparr> s) rp)"
    using snap [symmetric] VString k
    by (simp add: array_def bulk_str_def execute_attempts [where nm = "''SET''"] cmd_set_def bulk_as_str_def
        from_utf8_lossy_id store_set_def)
  with rebuild_string [OF inv] VString that show ?thesis by blast
next
  case (VList l)
  obtain n where n: "fst (rpush k (to_vec l) s) = Inr n" using rebuild_list(2) [OF absent inv] by blast
  have ne: "to_vec l \<noteq> []" and en: "en = SnList k (to_vec l)"
    using snap VList by (auto simp: list_is_empty_iff split: if_splits)
  have "execute e (snapshot_frame fmt en) (replay_ctx s rp) =
      Some (int_reply n, replay_ctx (snd (rpush k (to_vec l) s)) rp)"
    using ne k n
    by (cases "to_vec l")
      (simp_all add: en array_def bulk_str_def execute_updates [where nm = "''RPUSH''"] cmd_rpush_def bulk_as_str_def
        from_utf8_lossy_id logged_op_def case_prod_unfold)
  with rebuild_list(1) [OF absent inv] VList that show ?thesis by blast
next
  case (VHash h)
  have "hash_inv h" "snapshot_of k (VHash h) = Some en" using v snap VHash by simp_all
  then show ?thesis by (rule replay_hash [OF absent inv k]) (use VHash that in blast)
next
  case (VSet t)
  obtain n where n: "fst (store_sadd k (members t) s) = Inr n" using rebuild_set(2) [OF absent inv] by blast
  have ne: "members t \<noteq> []" and en: "en = SnSet k (members t)"
    using snap VSet by (cases t; auto simp: set_is_empty_def split: if_splits)+
  have "execute e (snapshot_frame fmt en) (replay_ctx s rp) =
      Some (int_reply n, replay_ctx (snd (store_sadd k (members t) s)) rp)"
    using ne k n
    by (cases "members t")
      (simp_all add: en array_def bulk_str_def execute_updates [where nm = "''SADD''"] cmd_sadd_def bulk_as_str_def
        from_utf8_lossy_id logged_op_def case_prod_unfold Let_def)
  with rebuild_set(1) [OF absent inv] VSet that show ?thesis by blast
next
  case (VZSet z)
  have "zset_inv z" "scores_print fmt (VZSet z)" "snapshot_of k (VZSet z) = Some en" using v pr snap VZSet by simp_all
  then show ?thesis by (rule replay_zset [OF absent inv k]) (use VZSet that in blast)
qed

section \<open>A snapshot on an empty store\<close>

text \<open>How a key is on the replica: as on the leader, up to the encoding; an empty collection is not sent.\<close>

fun copied :: "store_value option \<Rightarrow> store_value option \<Rightarrow> bool" where
  "copied None x \<longleftrightarrow> x = None"
| "copied (Some v) x \<longleftrightarrow>
     (if snapshot_of [] v = None then x = None else \<exists>v'. x = Some v' \<and> value_sim v v')"

lemma snapshot_of_None: "snapshot_of k v = None \<longleftrightarrow> snapshot_of [] v = None"
  by (cases v) simp_all

definition printable :: "(f64 \<Rightarrow> bytes) \<Rightarrow> store \<Rightarrow> bool" where
  "printable fmt s \<longleftrightarrow> (\<forall>k e. lookup s k = Some e \<longrightarrow> is_utf8 k \<and> scores_print fmt (entry_value e))"

lemma replay_entries:
  assumes "distinct (map fst es)" and "store_inv s"
    and "\<forall>(k, x) \<in> set es. is_utf8 k \<and> value_inv (entry_value x) \<and> scores_print fmt (entry_value x) \<and> lookup s k = None"
  shows "\<exists>s'. execute_all ev (map (snapshot_frame fmt) (List.map_filter (\<lambda>(k, x). snapshot_of k (entry_value x)) es))
      (replay_ctx s rp) = Some (replay_ctx s' rp) \<and> store_inv s' \<and>
    (\<forall>k. case map_of es k of
       Some x \<Rightarrow> copied (Some (entry_value x)) (live t s' k)
     | None \<Rightarrow> lookup s' k = lookup s k)"
  using assms
proof (induction es arbitrary: s ev)
  case Nil
  then show ?case by (auto simp: List.map_filter_simps)
next
  case (Cons p es)
  obtain k x where p: "p = (k, x)" by fastforce
  have kx: "is_utf8 k" "value_inv (entry_value x)" "scores_print fmt (entry_value x)" "lookup s k = None"
    using Cons.prems(3) p by auto
  have rest: "distinct (map fst es)" "k \<notin> fst ` set es" using Cons.prems(1) p by auto
  have fresh: "k' \<noteq> k" if "(k', x') \<in> set es" for k' x'
  proof
    assume "k' = k"
    with that have "k \<in> fst ` set es" by force
    with rest(2) show False by simp
  qed
  have mof: "map_of es k = None" using rest(2) by (simp add: map_of_eq_None_iff)
  show ?case
  proof (cases "snapshot_of k (entry_value x)")
    case None
    obtain s' where s': "execute_all ev (map (snapshot_frame fmt) (List.map_filter (\<lambda>(k, x). snapshot_of k (entry_value x)) es))
        (replay_ctx s rp) = Some (replay_ctx s' rp)" "store_inv s'"
      "\<forall>k. case map_of es k of Some x \<Rightarrow> copied (Some (entry_value x)) (live t s' k) | None \<Rightarrow> lookup s' k = lookup s k"
      using Cons.IH [OF rest(1) Cons.prems(2), of ev] Cons.prems(3) by auto
    have "lookup s' k = None" using s'(3) [rule_format, of k] kx(4) mof by simp
    then have "copied (Some (entry_value x)) (live t s' k)"
      using None snapshot_of_None [of k] by (simp add: live_def)
    with s' None p show ?thesis by (auto simp: List.map_filter_simps)
  next
    case (Some en)
    obtain r s1 where run: "execute (ev 0) (snapshot_frame fmt en) (replay_ctx s rp) = Some (r, replay_ctx s1 rp)"
      and reb: "rebuilt k (entry_value x) s s1"
      using replay_value [OF kx(4) Cons.prems(2) kx(1-3) Some] by blast
    have inv1: "store_inv s1" using reb by (simp add: rebuilt_def)
    have ok1: "\<forall>(k', x') \<in> set es. is_utf8 k' \<and> value_inv (entry_value x') \<and> scores_print fmt (entry_value x') \<and> lookup s1 k' = None"
      using Cons.prems(3) reb fresh by (auto simp: rebuilt_def)
    obtain s' where s': "execute_all (\<lambda>i. ev (Suc i)) (map (snapshot_frame fmt) (List.map_filter (\<lambda>(k, x). snapshot_of k (entry_value x)) es))
        (replay_ctx s1 rp) = Some (replay_ctx s' rp)" "store_inv s'"
      "\<forall>k. case map_of es k of Some x \<Rightarrow> copied (Some (entry_value x)) (live t s' k) | None \<Rightarrow> lookup s' k = lookup s1 k"
      using Cons.IH [OF rest(1) inv1 ok1] by blast
    have "lookup s' k = lookup s1 k" using s'(3) [rule_format, of k] mof by simp
    then have "copied (Some (entry_value x)) (live t s' k)"
      using reb Some snapshot_of_None [of k "entry_value x"] by (auto simp: rebuilt_def live_def is_expired_def)
    moreover have "lookup s1 k' = lookup s k'" if "k' \<noteq> k" for k' using reb that by (simp add: rebuilt_def)
    ultimately have all: "\<forall>k'. case map_of (p # es) k' of
        Some x \<Rightarrow> copied (Some (entry_value x)) (live t s' k') | None \<Rightarrow> lookup s' k' = lookup s k'"
      using s'(3) p by (auto simp del: copied.simps split: option.splits) (metis not_None_eq)+
    have fs: "List.map_filter (\<lambda>(k, x). snapshot_of k (entry_value x)) (p # es) =
        en # List.map_filter (\<lambda>(k, x). snapshot_of k (entry_value x)) es"
      using p Some by (simp add: List.map_filter_simps)
    have "execute_all ev (map (snapshot_frame fmt) (List.map_filter (\<lambda>(k, x). snapshot_of k (entry_value x)) (p # es)))
        (replay_ctx s rp) = Some (replay_ctx s' rp)"
      unfolding fs using run s'(1) by simp
    with s'(2) all show ?thesis by blast
  qed
qed

lemma snapshot_replay:
  assumes inv: "store_inv s" and pr: "printable fmt s"
  obtains s' where "execute_all ev (map (snapshot_frame fmt) (snapshot now s)) (replay_ctx store_new rp) = Some (replay_ctx s' rp)"
    and "store_inv s'" and "\<And>k. copied (live now s k) (live t s' k)"
proof -
  let ?es = "filter (\<lambda>(k, x). \<not> is_expired now x) (data s)"
  have d: "distinct (map fst (data s))" using inv by (simp add: store_inv_def)
  have de: "distinct (map fst ?es)" using d by (simp add: distinct_map_filter)
  have ok: "\<forall>(k, x) \<in> set ?es. is_utf8 k \<and> value_inv (entry_value x) \<and> scores_print fmt (entry_value x) \<and>
      lookup store_new k = None"
    using inv pr d by (auto simp: printable_def lookup_def store_inv_def store_new_def)
  obtain s' where s': "execute_all ev (map (snapshot_frame fmt) (snapshot now s)) (replay_ctx store_new rp) = Some (replay_ctx s' rp)"
    "store_inv s'" and cp: "\<forall>k. case map_of ?es k of
       Some x \<Rightarrow> copied (Some (entry_value x)) (live t s' k) | None \<Rightarrow> lookup s' k = lookup store_new k"
    using replay_entries [OF de store_inv_new(1) ok, of ev rp t] by (auto simp: snapshot_def)
  have "copied (live now s k) (live t s' k)" for k
  proof (cases "map_of ?es k")
    case None
    then have "k \<notin> fst ` set ?es" by (simp add: map_of_eq_None_iff)
    then have "is_expired now x" if "map_of (data s) k = Some x" for x
      using map_of_SomeD [OF that] by force
    then have "live now s k = None" by (simp add: live_def lookup_def split: option.split)
    with None cp [rule_format, of k] show ?thesis by (simp add: live_def)
  next
    case (Some x)
    then have "(k, x) \<in> set (data s)" "\<not> is_expired now x" using map_of_SomeD [OF Some] by auto
    then have "live now s k = Some (entry_value x)" using d by (simp add: live_def lookup_def)
    with Some cp [rule_format, of k] show ?thesis by simp
  qed
  with s' that show ?thesis by blast
qed

section \<open>An entry moved to another node\<close>

lemma build_value_frame_snapshot:
  "snapshot_of k v = Some en \<Longrightarrow> pttl \<le> 0 \<Longrightarrow> build_value_frame fmt k v pttl = snapshot_frame fmt en"
  by (cases v) (auto simp: array_def bulk_str_def split: if_splits)

end
