(* ===== verification/Durability.thy ===== *)
theory Durability
  imports Replay
begin

text \<open>
  The append-only file as a record of the store: the commands it is complete for, and that its
  replay at start-up gives back the store those commands made.
\<close>

section \<open>What is logged is what is replayed\<close>

definition no_ttl :: "store \<Rightarrow> bool" where
  "no_ttl s \<longleftrightarrow> (\<forall>k e. lookup s k = Some e \<longrightarrow> expires_at e = None)"

text \<open>
  From \<open>d\<close> to \<open>d'\<close> the file grows by commands that, executed on the store of \<open>d\<close>, give the store of \<open>d'\<close>.
\<close>

definition recorded :: "db \<Rightarrow> db \<Rightarrow> bool" where
  "recorded d d' \<longleftrightarrow> (\<exists>ws. (\<forall>w \<in> set ws. sendable w) \<and>
     journal d' = map_option (fold write_resp ws) (journal d) \<and>
     (\<forall>ev rp. execute_all ev (map command_frame ws) (replay_ctx (kv d) rp) = Some (replay_ctx (kv d') rp)))"

lemma recorded_same: "kv d' = kv d \<Longrightarrow> journal d' = journal d \<Longrightarrow> recorded d d'"
  unfolding recorded_def by (rule exI [of _ "[]"]) (simp add: option.map_id0)

lemma recorded_one:
  assumes "sendable w" and "journal d' = map_option (write_resp w) (journal d)"
    and "\<And>e rp. \<exists>r. execute e (command_frame w) (replay_ctx (kv d) rp) = Some (r, replay_ctx (kv d') rp)"
  shows "recorded d d'"
proof -
  have "execute_all ev (map command_frame [w]) (replay_ctx (kv d) rp) = Some (replay_ctx (kv d') rp)" for ev rp
    using assms(3) [of "ev 0" rp] by auto
  with assms(1,2) show ?thesis unfolding recorded_def by (intro exI [of _ "[w]"]) simp
qed

lemma execute_all_append:
  "execute_all ev (fs @ gs) c =
     (case execute_all ev fs c of None \<Rightarrow> None | Some c' \<Rightarrow> execute_all (\<lambda>i. ev (i + length fs)) gs c')"
  by (induction fs arbitrary: c ev) (auto split: option.split)

lemma recorded_trans:
  assumes "recorded d1 d2" and "recorded d2 d3"
  shows "recorded d1 d3"
proof -
  obtain ws where ws: "\<forall>w \<in> set ws. sendable w" "journal d2 = map_option (fold write_resp ws) (journal d1)"
    "\<And>ev rp. execute_all ev (map command_frame ws) (replay_ctx (kv d1) rp) = Some (replay_ctx (kv d2) rp)"
    using assms(1) by (auto simp: recorded_def)
  obtain vs where vs: "\<forall>w \<in> set vs. sendable w" "journal d3 = map_option (fold write_resp vs) (journal d2)"
    "\<And>ev rp. execute_all ev (map command_frame vs) (replay_ctx (kv d2) rp) = Some (replay_ctx (kv d3) rp)"
    using assms(2) by (auto simp: recorded_def)
  show ?thesis
    unfolding recorded_def
  proof (intro exI [of _ "ws @ vs"] conjI allI)
    show "\<forall>w \<in> set (ws @ vs). sendable w" using ws(1) vs(1) by auto
    show "journal d3 = map_option (fold write_resp (ws @ vs)) (journal d1)"
      using ws(2) vs(2) by (cases "journal d1") simp_all
    show "execute_all ev (map command_frame (ws @ vs)) (replay_ctx (kv d1) rp) = Some (replay_ctx (kv d3) rp)" for ev rp
      using ws(3) vs(3) by (simp add: execute_all_append)
  qed
qed

section \<open>The commands of the file\<close>

lemma put_same: "lookup s k = Some e \<Longrightarrow> put k e s = s"
  by (simp add: lookup_def put_def update_triv)

lemma replay_set: "is_utf8 k \<Longrightarrow> execute e (command_frame [''SET'', k, v]) (replay_ctx s rp) =
    Some (frame_ok, replay_ctx (put k \<lparr>entry_value = VString v, expires_at = None\<rparr> s) rp)"
  by (simp add: command_frame_def execute_attempts [where nm = "''SET''"] cmd_set_def bulk_as_str_def
      from_utf8_lossy_id store_set_def)

lemma replay_del:
  assumes "\<forall>k \<in> set ks. is_utf8 k" and "ks \<noteq> []"
  shows "execute e (command_frame (''DEL'' # ks)) (replay_ctx s rp) =
    Some (int_reply (fst (store_del ks s)), replay_ctx (snd (store_del ks s)) rp)"
proof -
  have "List.map_filter arg_str (map (\<lambda>p. Bulk (Some p)) ks) = ks"
    using assms(1) by (induction ks) (simp_all add: List.map_filter_simps from_utf8_lossy_id)
  with assms(2) show ?thesis
    by (cases ks) (simp_all add: command_frame_def execute_updates [where nm = "''DEL''"] cmd_del_def case_prod_unfold
        Let_def)
qed

text \<open>A logged store call that succeeded is repeated by the command that was logged for it.\<close>

lemma logged_op_recorded:
  assumes "sendable w" and "\<And>x. logs x"
    and "\<And>x e rp. fst (f (kv d)) = Inr x \<Longrightarrow>
      \<exists>r. execute e (command_frame w) (replay_ctx (kv d) rp) = Some (r, replay_ctx (snd (f (kv d))) rp)"
    and "\<And>err. fst (f (kv d)) = Inl err \<Longrightarrow> snd (f (kv d)) = kv d"
  shows "recorded d (snd (logged_op out logs (write_resp w) f d))"
proof (cases "fst (f (kv d))")
  case (Inl err)
  with assms(4) show ?thesis by (intro recorded_same) (simp_all add: logged_op_def case_prod_unfold)
next
  case (Inr x)
  with assms(1-3) show ?thesis
    by (intro recorded_one [of w]) (simp_all add: logged_op_def case_prod_unfold logged_def)
qed

lemma replay_logged_op:
  assumes "command_name (map (\<lambda>p. Bulk (Some p)) w) = Some nm" and "map_of dispatch_table nm = Some (updates g)"
    and "g e (map (\<lambda>p. Bulk (Some p)) w) \<lparr>kv = s, journal = None\<rparr> = logged_op out logs lg f \<lparr>kv = s, journal = None\<rparr>"
  shows "\<exists>r. execute e (command_frame w) (replay_ctx s rp) = Some (r, replay_ctx (snd (f s)) rp)"
  using execute_updates [OF assms(1,2), of "replay_ctx s rp" e] assms(3)
  by (auto simp: command_frame_def logged_op_def case_prod_unfold split: sum.split)

section \<open>Sizes\<close>

text \<open>Replacing what is not UTF-8 makes a text at most three times as long.\<close>

lemma length_from_utf8_lossy: "length (from_utf8_lossy bs) \<le> 3 * length bs"
proof (induction bs rule: from_utf8_lossy.induct)
  case (2 c cs)
  define k where "k = snd (utf8_step (c # cs))"
  have k: "1 \<le> k" using utf8_step_pos [of "c # cs"] unfolding k_def by linarith
  have "length (if fst (utf8_step (c # cs)) then take k (c # cs) else replacement_char) \<le> 3 * min k (length (c # cs))"
    using k by (auto simp: replacement_char_def min_def)
  moreover have "length (drop k (c # cs)) + min k (length (c # cs)) = length (c # cs)" by auto
  moreover have "length (from_utf8_lossy (drop k (c # cs))) \<le> 3 * length (drop k (c # cs))"
    using "2.IH" unfolding k_def .
  moreover have "length (from_utf8_lossy (c # cs)) =
      length (if fst (utf8_step (c # cs)) then take k (c # cs) else replacement_char) +
      length (from_utf8_lossy (drop k (c # cs)))"
    unfolding k_def by (simp add: from_utf8_lossy.simps(2))
  ultimately show ?case by linarith
qed simp

definition small :: "'a list \<Rightarrow> bool" where
  "small b \<longleftrightarrow> length b < 2 ^ 61"

definition fits :: "'a list \<Rightarrow> bool" where
  "fits b \<longleftrightarrow> length b < 2 ^ 63"

definition small_args :: "bytes list \<Rightarrow> bool" where
  "small_args bs \<longleftrightarrow> small bs \<and> (\<forall>b \<in> set bs. small b)"

lemma lossy_small: "small b \<Longrightarrow> fits (from_utf8_lossy b)"
  using length_from_utf8_lossy [of b] by (simp add: small_def fits_def)

lemma small_fits: "small b \<Longrightarrow> fits b"
  by (simp add: small_def fits_def)

lemma sendable_fits: "sendable w \<longleftrightarrow> fits w \<and> (\<forall>p \<in> set w. fits p)"
  by (simp add: sendable_def fits_def)

lemma fits_short: "length b \<le> 1000 \<Longrightarrow> fits b"
  by (simp add: fits_def)

section \<open>Commands the file is complete for\<close>

lemma no_ttl_put: "no_ttl s \<Longrightarrow> no_ttl (put k \<lparr>entry_value = v, expires_at = None\<rparr> s)"
  by (simp add: no_ttl_def)

lemma no_ttl_upd: "no_ttl s \<Longrightarrow> no_ttl (snd (typed_upd proj con new f k s))"
  by (auto simp: no_ttl_def typed_upd_def or_insert_def Let_def case_prod_unfold split: option.splits if_splits)

lemma no_ttl_del: "no_ttl s \<Longrightarrow> no_ttl (snd (store_del ks s))"
  by (auto simp: no_ttl_def store_del_lookup split: if_splits)

lemma no_ttl_logged_op:
  "no_ttl (snd (f (kv d))) \<Longrightarrow> no_ttl (kv (snd (logged_op out logs lg f d)))"
  by (simp add: logged_op_def case_prod_unfold split: sum.split)

text \<open>\<open>exact d d'\<close>: without expiries, the step is recorded and makes none.\<close>

definition exact :: "db \<Rightarrow> db \<Rightarrow> bool" where
  "exact d d' \<longleftrightarrow> (no_ttl (kv d) \<longrightarrow> recorded d d' \<and> no_ttl (kv d'))"

lemma exact_same: "kv d' = kv d \<Longrightarrow> journal d' = journal d \<Longrightarrow> exact d d'"
  by (simp add: exact_def recorded_same)

lemma exact_trans: "exact d1 d2 \<Longrightarrow> exact d2 d3 \<Longrightarrow> exact d1 d3"
  by (auto simp: exact_def intro: recorded_trans)

lemma exact_put:
  assumes "is_utf8 k" and "fits k" and "fits v"
  shows "exact d (logged (log_set k v) (d\<lparr>kv := put k \<lparr>entry_value = VString v, expires_at = None\<rparr> (kv d)\<rparr>))"
proof -
  have "recorded d (logged (log_set k v) (d\<lparr>kv := put k \<lparr>entry_value = VString v, expires_at = None\<rparr> (kv d)\<rparr>))"
    using assms
    by (intro recorded_one [of "[''SET'', k, v]"]) (simp_all add: sendable_fits fits_short log_set_def logged_def replay_set)
  then show ?thesis by (simp add: exact_def no_ttl_put)
qed

lemma exact_logged_op:
  assumes "sendable w" and "\<And>x. logs x"
    and "command_name (map (\<lambda>p. Bulk (Some p)) w) = Some nm" and "map_of dispatch_table nm = Some (updates g)"
    and "\<And>e. \<exists>lg. g e (map (\<lambda>p. Bulk (Some p)) w) \<lparr>kv = kv d, journal = None\<rparr> = logged_op out logs lg f \<lparr>kv = kv d, journal = None\<rparr>"
    and "\<And>err. fst (f (kv d)) = Inl err \<Longrightarrow> snd (f (kv d)) = kv d"
    and "no_ttl (kv d) \<Longrightarrow> no_ttl (snd (f (kv d)))"
  shows "exact d (snd (logged_op out logs (write_resp w) f d))"
proof -
  have "\<exists>r. execute e (command_frame w) (replay_ctx (kv d) rp) = Some (r, replay_ctx (snd (f (kv d))) rp)" for e rp
    using assms(5) [of e] replay_logged_op [OF assms(3,4)] by blast
  with assms(1,2,6) have "recorded d (snd (logged_op out logs (write_resp w) f d))"
    by (intro logged_op_recorded) auto
  with assms(7) show ?thesis by (simp add: exact_def no_ttl_logged_op)
qed

lemma upd_error:
  assumes "fst (typed_upd proj con new f k s) = Inl err"
    and "\<And>x err. fst (f x) = Inl err \<Longrightarrow> snd (f x) = x" and "\<And>v x. proj v = Some x \<Longrightarrow> v = con x"
    and "lookup s k = None \<Longrightarrow> \<exists>r. fst (f new) = Inr r" and "proj (con new) = Some new"
  shows "snd (typed_upd proj con new f k s) = s"
proof (cases "lookup s k")
  case None
  with assms(1,4,5) show ?thesis by (auto simp: typed_upd_def or_insert_def Let_def case_prod_unfold)
next
  case (Some x)
  show ?thesis
  proof (cases "proj (entry_value x)")
    case None
    with Some show ?thesis by (simp add: typed_upd_def or_insert_def)
  next
    case (Some y)
    with \<open>lookup s k = Some x\<close> assms(1) have "fst (f y) = Inl err"
      by (simp add: typed_upd_def or_insert_def case_prod_unfold)
    then have "snd (f y) = y" by (rule assms(2))
    moreover have "entry_value x = con y" by (rule assms(3) [OF Some])
    ultimately have "x\<lparr>entry_value := con (snd (f y))\<rparr> = x" by simp
    with Some \<open>lookup s k = Some x\<close> show ?thesis
      by (simp add: typed_upd_def or_insert_def case_prod_unfold put_same)
  qed
qed

lemma incrby_error:
  assumes "fst (incrby k n s) = Inl err" and "is_i64 n"
  shows "snd (incrby k n s) = s"
  unfolding incrby_def
proof (rule upd_error)
  show "fst (typed_upd as_string VString ''0'' (\<lambda>b. case parse_trimmed_i64 b of None \<Rightarrow> (Inl NotInteger, b)
      | Some m \<Rightarrow> (case checked_add_i64 m n of None \<Rightarrow> (Inl IncrOverflow, b) | Some r \<Rightarrow> (Inr r, show_int r))) k s) = Inl err"
    using assms(1) by (simp add: incrby_def)
qed (use assms(2) in \<open>auto simp: counters.proj_con parse_trimmed_zero checked_add_i64_def split: option.splits if_splits\<close>)

abbreviation bulk_args :: "bytes list \<Rightarrow> frame list" where
  "bulk_args bs \<equiv> map (\<lambda>b. Bulk (Some b)) bs"

lemma bulk_at_args [simp]: "bulk_at (bulk_args bs) i = (if i < length bs then Some (bs ! i) else None)"
  by (simp add: bulk_at_def)

lemma str_at_args [simp]:
  "bulk_as_str (bulk_args bs) i = (if i < length bs then Some (from_utf8_lossy (bs ! i)) else None)"
  by (simp add: bulk_as_str_def)

lemma small_nth: "small_args bs \<Longrightarrow> i < length bs \<Longrightarrow> small (bs ! i)"
  by (simp add: small_args_def)

lemma small_key: "small_args bs \<Longrightarrow> i < length bs \<Longrightarrow> fits (from_utf8_lossy (bs ! i))"
  by (intro lossy_small small_nth)

lemma small_val: "small_args bs \<Longrightarrow> i < length bs \<Longrightarrow> fits (bs ! i)"
  by (intro small_fits small_nth)

lemma exact_set:
  assumes "small_args bs" and "set_options (drop 3 (bulk_args bs)) (None, False, False) = (None, nx, xx)"
    and "cmd_set e (bulk_args bs) d = Some (r, d')"
  shows "exact d d'"
  using assms(2,3)
  by (auto simp: cmd_set_def Let_def store_set_def small_key [OF assms(1)] small_val [OF assms(1)]
      split: if_splits intro: exact_same exact_put)

lemma exact_mset_pairs:
  "\<forall>b \<in> set bs. small b \<Longrightarrow> exact d (mset_pairs (bulk_args bs) d)"
proof (induction bs arbitrary: d rule: induct_list012)
  case (3 k v bs)
  let ?k = "from_utf8_lossy k"
  let ?d = "logged (log_set ?k v) (d\<lparr>kv := put ?k \<lparr>entry_value = VString v, expires_at = None\<rparr> (kv d)\<rparr>)"
  have "exact d ?d" using "3.prems" by (intro exact_put) (auto intro: lossy_small small_fits)
  moreover have "exact ?d (mset_pairs (bulk_args bs) ?d)" using "3.prems" by (intro "3.IH") simp
  ultimately show ?case by (auto intro: exact_trans)
qed (simp_all add: exact_same)

lemma exact_mset: "small_args bs \<Longrightarrow> exact d (snd (cmd_mset (bulk_args bs) d))"
proof -
  assume "small_args bs"
  then have "\<forall>b \<in> set (drop 1 bs). small b" by (auto simp: small_args_def dest: in_set_dropD)
  from exact_mset_pairs [OF this] show ?thesis by (simp add: cmd_mset_def drop_map exact_same)
qed

lemma store_get_no_ttl: "no_ttl s \<Longrightarrow> snd (store_get now k s) = s"
  by (auto simp: no_ttl_def store_get_def is_expired_def split: option.splits)

lemma exact_setnx: "small_args bs \<Longrightarrow> exact d (snd (cmd_setnx e (bulk_args bs) d))"
  by (auto simp: cmd_setnx_def small_key small_val intro: exact_same exact_put)

lemma exact_getset:
  assumes "small_args bs"
  shows "exact d (snd (cmd_getset e (bulk_args bs) d))"
proof (cases "no_ttl (kv d)")
  case True
  then have "snd (cmd_getset e (bulk_args bs) d) =
      (if length bs \<noteq> 3 then d
       else logged (log_set (from_utf8_lossy (bs ! 1)) (bs ! 2))
         (d\<lparr>kv := put (from_utf8_lossy (bs ! 1)) \<lparr>entry_value = VString (bs ! 2), expires_at = None\<rparr> (kv d)\<rparr>))"
    by (simp add: cmd_getset_def getset_def case_prod_unfold store_get_no_ttl Let_def)
  then show ?thesis using assms by (auto simp: small_key small_val intro: exact_same exact_put)
qed (simp add: exact_def)

lemma exact_append:
  assumes "small_args bs"
  shows "exact d (snd (cmd_append (bulk_args bs) d))"
proof (cases "length bs = 3")
  case True
  let ?k = "from_utf8_lossy (bs ! 1)" and ?v = "bs ! 2"
  have "exact d (snd (logged_op int_reply (\<lambda>_. True) (write_resp [''APPEND'', ?k, ?v]) (store_append ?k ?v) d))"
  proof (rule exact_logged_op [where nm = "''APPEND''" and g = "\<lambda>e. cmd_append"])
    show "sendable [''APPEND'', ?k, ?v]"
      using assms True by (simp add: sendable_fits fits_short small_key small_val)
    show "snd (store_append ?k ?v (kv d)) = kv d" if "fst (store_append ?k ?v (kv d)) = Inl err" for err
      using that unfolding store_append_def
      by (rule upd_error) (auto simp: strings.proj_con Let_def)
  qed (auto simp: cmd_append_def bulk_as_str_def store_append_def intro: no_ttl_upd)
  with True show ?thesis by (simp add: cmd_append_def log_generic_def)
qed (simp add: cmd_append_def exact_same)

lemma exact_incr:
  assumes "small_args bs" and "i = 1 \<or> i = - 1"
  shows "exact d (snd (cmd_incrby i (bulk_args bs) d))"
proof (cases "length bs = 2")
  case True
  let ?k = "from_utf8_lossy (bs ! 1)" and ?nm = "if i > 0 then ''INCR'' else ''DECR''"
  have "exact d (snd (logged_op Integer (\<lambda>_. True) (write_resp [?nm, ?k]) (incrby ?k i) d))"
  proof (rule exact_logged_op [where nm = ?nm and g = "\<lambda>e. cmd_incrby i"])
    show "sendable [?nm, ?k]" using assms True by (simp add: sendable_fits fits_short small_key)
    show "snd (incrby ?k i (kv d)) = kv d" if "fst (incrby ?k i (kv d)) = Inl err" for err
      using that assms(2) by (intro incrby_error) (auto simp: is_i64_def)
  qed (use assms(2) in \<open>auto simp: cmd_incrby_def bulk_as_str_def incrby_def intro: no_ttl_upd\<close>)
  with True show ?thesis by (simp add: cmd_incrby_def log_generic_def)
qed (simp add: cmd_incrby_def exact_same)

lemma exact_push:
  assumes "small_args bs"
  shows "exact d (snd (cmd_lpush (bulk_args bs) d))" "exact d (snd (cmd_rpush (bulk_args bs) d))"
proof -
  let ?k = "from_utf8_lossy (bs ! 1)" and ?vs = "drop 2 bs"
  have vs: "List.map_filter arg_bytes (drop 2 (bulk_args bs)) = ?vs" by (simp add: drop_map)
  have send: "sendable (nm # ?k # ?vs)" if "length bs \<ge> 3" "length nm \<le> 1000" for nm
    using assms that small_key [OF assms, of 1]
    by (auto simp: sendable_fits fits_short small_args_def small_def fits_def dest!: in_set_dropD)
  show "exact d (snd (cmd_lpush (bulk_args bs) d))"
  proof (cases "length bs < 3")
    case False
    have "exact d (snd (logged_op int_reply (\<lambda>_. True) (write_resp (''LPUSH'' # ?k # ?vs)) (lpush ?k ?vs) d))"
    proof (rule exact_logged_op [where nm = "''LPUSH''" and g = "\<lambda>e. cmd_lpush"])
      show "snd (lpush ?k ?vs (kv d)) = kv d" if "fst (lpush ?k ?vs (kv d)) = Inl err" for err
        using that unfolding lpush_def by (rule upd_error) (auto simp: lists.proj_con Let_def)
    qed (use False send in \<open>auto simp: cmd_lpush_def bulk_as_str_def lpush_def Let_def intro: no_ttl_upd\<close>)
    with False vs show ?thesis by (simp add: cmd_lpush_def log_list_push_def Let_def)
  qed (simp add: cmd_lpush_def exact_same)
  show "exact d (snd (cmd_rpush (bulk_args bs) d))"
  proof (cases "length bs < 3")
    case False
    have "exact d (snd (logged_op int_reply (\<lambda>_. True) (write_resp (''RPUSH'' # ?k # ?vs)) (rpush ?k ?vs) d))"
    proof (rule exact_logged_op [where nm = "''RPUSH''" and g = "\<lambda>e. cmd_rpush"])
      show "snd (rpush ?k ?vs (kv d)) = kv d" if "fst (rpush ?k ?vs (kv d)) = Inl err" for err
        using that unfolding rpush_def by (rule upd_error) (auto simp: lists.proj_con Let_def)
    qed (use False send in \<open>auto simp: cmd_rpush_def bulk_as_str_def rpush_def Let_def intro: no_ttl_upd\<close>)
    with False vs show ?thesis by (simp add: cmd_rpush_def log_list_push_def Let_def)
  qed (simp add: cmd_rpush_def exact_same)
qed

lemma store_del_none: "fst (store_del ks s) = 0 \<Longrightarrow> snd (store_del ks s) = s"
proof (induction ks arbitrary: s)
  case (Cons k ks)
  then have "lookup s k = None" and n: "fst (store_del ks (remove k s)) = 0"
    by (auto simp: case_prod_unfold Let_def split: if_splits)
  then have "remove k s = s" by (simp add: remove_def lookup_def map_of_eq_None_iff delete_id)
  with Cons.IH [OF n] show ?case by (simp add: case_prod_unfold)
qed simp

lemma str_filter_args: "List.map_filter arg_str (bulk_args bs) = map from_utf8_lossy bs"
  by (induction bs) (simp_all add: List.map_filter_simps)

lemma exact_del:
  assumes "small_args bs"
  shows "exact d (snd (cmd_del (bulk_args bs) d))"
proof (cases "length bs < 2")
  case False
  let ?ks = "map from_utf8_lossy (drop 1 bs)"
  have cmd: "snd (cmd_del (bulk_args bs) d) =
      (if fst (store_del ?ks (kv d)) > 0 then logged (log_del ?ks) (d\<lparr>kv := snd (store_del ?ks (kv d))\<rparr>)
       else d\<lparr>kv := snd (store_del ?ks (kv d))\<rparr>)"
    using False by (simp add: cmd_del_def drop_map str_filter_args case_prod_unfold Let_def)
  show ?thesis
  proof (cases "fst (store_del ?ks (kv d)) > 0")
    case True
    have "fits (''DEL'' # ?ks)" using assms by (auto simp: small_args_def small_def fits_def)
    moreover have "fits k" if "k \<in> set ?ks" for k
      using that assms by (auto simp: small_args_def intro: lossy_small dest: in_set_dropD)
    ultimately have "sendable (''DEL'' # ?ks)" by (simp add: sendable_fits fits_short)
    then have "recorded d (logged (log_del ?ks) (d\<lparr>kv := snd (store_del ?ks (kv d))\<rparr>))"
      using False by (intro recorded_one [of "''DEL'' # ?ks"]) (auto simp: log_del_def logged_def replay_del)
    with True cmd show ?thesis by (simp add: exact_def no_ttl_del)
  qed (simp add: cmd store_del_none exact_same)
qed (simp add: cmd_del_def exact_same)

lemma replay_hset:
  assumes "is_utf8 k" and "fst (store_hset k f v s) = Inr n"
  shows "\<exists>r. execute e (command_frame [''HSET'', k, f, v]) (replay_ctx s rp) =
    Some (r, replay_ctx (snd (store_hset k f v s)) rp)"
  using assms
  by (cases "store_hset k f v s") (auto simp: command_frame_def execute_updates [where nm = "''HSET''"] cmd_hset_def
      bulk_as_str_def from_utf8_lossy_id)

lemma exact_hset_pairs:
  "\<forall>b \<in> set bs. small b \<Longrightarrow> is_utf8 k \<Longrightarrow> fits k \<Longrightarrow> exact d (snd (hset_pairs k n (bulk_args bs) d))"
proof (induction bs arbitrary: n d rule: induct_list012)
  case (3 f v bs)
  show ?case
  proof (cases "fst (store_hset k f v (kv d))")
    case (Inl err)
    then have "snd (store_hset k f v (kv d)) = kv d"
      unfolding store_hset_def by (rule upd_error) (auto simp: hashes.proj_con case_prod_unfold)
    with Inl show ?thesis by (simp add: case_prod_unfold exact_same)
  next
    case (Inr m)
    let ?d = "logged (log_hset k f v) (d\<lparr>kv := snd (store_hset k f v (kv d))\<rparr>)"
    have "recorded d ?d"
    proof (rule recorded_one [of "[''HSET'', k, f, v]"])
      show "sendable [''HSET'', k, f, v]" using "3.prems" by (simp add: sendable_fits fits_short small_fits)
    qed (simp_all add: logged_def log_hset_def replay_hset [OF "3.prems"(2) Inr])
    then have "exact d ?d" by (simp add: exact_def store_hset_def no_ttl_upd)
    moreover have "exact ?d (snd (hset_pairs k (n + m) (bulk_args bs) ?d))" using "3.prems" by (intro "3.IH") simp_all
    ultimately show ?thesis using Inr by (auto simp: case_prod_unfold intro: exact_trans)
  qed
qed (simp_all add: exact_same)

lemma exact_hset:
  assumes "small_args bs"
  shows "exact d (snd (cmd_hset (bulk_args bs) d))"
proof -
  have "\<forall>b \<in> set (drop 2 bs). small b" using assms by (auto simp: small_args_def dest: in_set_dropD)
  with assms have "exact d (snd (hset_pairs (from_utf8_lossy (bs ! 1)) 0 (bulk_args (drop 2 bs)) d))" if "length bs \<ge> 4"
    using that by (intro exact_hset_pairs) (simp_all add: small_key)
  then show ?thesis by (simp add: cmd_hset_def drop_map exact_same)
qed

section \<open>Reads\<close>

text \<open>Without expiries a command that only reads changes nothing at all.\<close>

definition quiet :: "env \<Rightarrow> db \<Rightarrow> db \<Rightarrow> bool" where
  "quiet e d d' \<longleftrightarrow> (no_ttl (kv d) \<longrightarrow> d' = d)"

lemma mget_items_no_ttl: "no_ttl s \<Longrightarrow> snd (mget_items now fs s) = s"
  by (induction fs arbitrary: s) (auto simp: case_prod_unfold store_get_no_ttl split: option.splits)

lemma quiet_reads:
  "quiet e d (snd (cmd_get e args d))" "quiet e d (snd (cmd_strlen e args d))" "quiet e d (snd (cmd_mget e args d))"
  by (auto simp: quiet_def cmd_get_def cmd_strlen_def cmd_mget_def case_prod_unfold store_get_no_ttl
      mget_items_no_ttl split: option.split)

lemma quiet_refl: "quiet e d d"
  by (simp add: quiet_def)

lemma quiet_tables:
  "list_all (\<lambda>(cmd, h). only_reads cmd \<longrightarrow> abides quiet h)
     (key_table @ string_table @ list_table @ hash_table @ set_table @ zset_table)"
  by (simp add: key_table_def string_table_def list_table_def hash_table_def set_table_def zset_table_def
      only_reads_def abides_answers [OF quiet_refl] abides_updates [where R = quiet] quiet_reads)

lemma quiet_server_table: "list_all (\<lambda>(cmd, h). only_reads cmd \<longrightarrow> abides quiet h) server_table"
  by (simp add: server_table_def only_reads_def abides_answers [OF quiet_refl]) (auto simp: abides_def quiet_refl)

interpretation quiet: command_contract quiet only_reads
proof
  show "abides quiet h" if "(cmd, h) \<in> set dispatch_table" "only_reads cmd" for cmd h
    using that quiet_server_table quiet_tables unfolding dispatch_table_def list_all_iff by fastforce
qed (auto simp: quiet_def)

section \<open>A run and its file\<close>

definition durable_writes :: "bytes set" where
  "durable_writes =
     {''MSET'', ''SETNX'', ''GETSET'', ''APPEND'', ''INCR'', ''DECR'', ''DEL'', ''LPUSH'', ''RPUSH'', ''HSET'', ''HMSET''}"

text \<open>
  The calls the file is complete for: the reads, and the writes whose log entry repeats them. \<open>SET\<close> is
  one of them without a time to live.
\<close>

definition durable_call :: "bytes list \<Rightarrow> bool" where
  "durable_call bs \<longleftrightarrow> small_args bs \<and>
     (case command_name (bulk_args bs) of
        None \<Rightarrow> True
      | Some cmd \<Rightarrow> only_reads cmd \<or>
          cmd \<in> durable_writes \<or>
          cmd = ''SET'' \<and> fst (set_options (drop 3 (bulk_args bs)) (None, False, False)) = None)"

lemma durable_entries:
  "map_of dispatch_table ''MSET'' = Some (updates (\<lambda>e. cmd_mset))"
  "map_of dispatch_table ''SETNX'' = Some (updates cmd_setnx)"
  "map_of dispatch_table ''GETSET'' = Some (updates cmd_getset)"
  "map_of dispatch_table ''HMSET'' = Some (updates (\<lambda>e. cmd_hset))"
  by (simp_all add: table_defs)

lemma durable_updates:
  assumes "cmd \<in> durable_writes"
    and "small_args bs"
  obtains g where "map_of dispatch_table cmd = Some (updates g)" and "\<And>e d. exact d (snd (g e (bulk_args bs) d))"
proof -
  note laws = exact_mset exact_setnx exact_getset exact_append exact_incr exact_del exact_push exact_hset
  have "\<exists>g. map_of dispatch_table cmd = Some (updates g) \<and> (\<forall>e d. exact d (snd (g e (bulk_args bs) d)))"
    using assms(1) unfolding durable_writes_def by (elim insertE emptyE) (auto simp: durable_entries laws [OF assms(2)] simp del: One_nat_def)
  with that show thesis by blast
qed

lemma exact_execute:
  assumes "durable_call bs" and "execute e (Array (Some (bulk_args bs))) c = Some (r, c')"
  shows "exact (cdb c) (cdb c')"
  using assms(2)
proof (cases rule: execute_effect)
  case same
  then show ?thesis by (simp add: exact_same)
next
  case (ran args cmd r1 c1)
  then have cmd: "command_name (bulk_args bs) = Some cmd"
    and run: "dispatch cmd e (bulk_args bs) c = Some (r1, c1)" and c': "cdb c' = cdb c1" by auto
  have sm: "small_args bs" using assms(1) by (simp add: durable_call_def)
  consider "only_reads cmd" | "cmd = ''SET''" "fst (set_options (drop 3 (bulk_args bs)) (None, False, False)) = None"
    | "cmd \<in> durable_writes"
    using assms(1) cmd by (auto simp: durable_call_def)
  then have "exact (cdb c) (cdb c1)"
  proof cases
    case 1
    from quiet.dispatch_R [OF this run] show ?thesis
      by (auto simp: quiet_def exact_def intro: recorded_same)
  next
    case 2
    from run have "attempts cmd_set e (bulk_args bs) c = Some (r1, c1)" by (simp only: 2(1) dispatch_def dispatch_entries option.case)
    then obtain d' where "cmd_set e (bulk_args bs) (cdb c) = Some (r1, d')" "c1 = c\<lparr>cdb := d'\<rparr>"
      by (auto simp: attempts_def split: option.splits)
    moreover obtain nx xx where "set_options (drop 3 (bulk_args bs)) (None, False, False) = (None, nx, xx)"
      using 2(2) by (metis prod.collapse)
    ultimately show ?thesis using exact_set [OF sm] by simp
  next
    case 3
    then obtain g where "map_of dispatch_table cmd = Some (updates g)" "\<And>e d. exact d (snd (g e (bulk_args bs) d))"
      using durable_updates [OF _ sm] by blast
    with run show ?thesis by (auto simp: dispatch_def updates_def case_prod_unfold)
  qed
  with c' show ?thesis by simp
qed

lemma exact_run:
  assumes "\<forall>bs \<in> set calls. durable_call bs"
  shows "execute_all ev (map (\<lambda>bs. Array (Some (bulk_args bs))) calls) c = Some c' \<Longrightarrow> exact (cdb c) (cdb c')"
  using assms
proof (induction calls arbitrary: c ev)
  case (Cons bs calls)
  then obtain r c1 where x: "execute (ev 0) (Array (Some (bulk_args bs))) c = Some (r, c1)"
    "execute_all (\<lambda>i. ev (Suc i)) (map (\<lambda>bs. Array (Some (bulk_args bs))) calls) c1 = Some c'"
    by (auto split: option.splits)
  have "exact (cdb c) (cdb c1)" using x(1) Cons.prems(2) by (intro exact_execute) simp_all
  moreover have "exact (cdb c1) (cdb c')" using Cons.IH [OF x(2)] Cons.prems(2) by simp
  ultimately show ?case by (rule exact_trans)
qed (simp add: exact_same)

lemma recorded_reload:
  assumes "recorded d d'" and "journal d = Some a" and "aof_file a = []" and "journal d' = Some a'"
  shows "execute_all ev (load_frames (Some (aof_file a'))) (replay_ctx (kv d) rp) = Some (replay_ctx (kv d') rp)"
proof -
  obtain ws where ws: "\<forall>w \<in> set ws. sendable w" "a' = fold write_resp ws a"
    "execute_all ev (map command_frame ws) (replay_ctx (kv d) rp) = Some (replay_ctx (kv d') rp)"
    using assms(1,2,4) by (auto simp: recorded_def)
  with load_frames_writes [OF ws(1) assms(3)] show ?thesis by simp
qed

end
