(* ===== verification/Network.thy ===== *)
theory Network
  imports Durability
begin

text \<open>
  The server side of \<open>src/network/mod.rs\<close>: a client connection (\<open>handle_connection\<close>), the stream to a
  replica (\<open>handle_replica_sync\<close>), the follower's side of it (\<open>replicate_from_leader\<close>,
  \<open>run_follower_loop\<close>) and the accept loop (\<open>Server::run\<close>). What a socket delivers is a list of chunks,
  one per read; an empty chunk is the end of the stream. Writes to a socket succeed. A panic of a
  command is \<open>None\<close>. \<open>ev i\<close> is the environment of the \<open>i\<close>-th command of a connection.
\<close>

section \<open>A client connection\<close>

datatype phase = Serving | Syncing nat | Closed

record session =
  outbuf :: bytes
  written :: "bytes list"
  served :: nat
  phase :: phase
  sctx :: ctx

definition is_sync_command :: "frame \<Rightarrow> bool" where
  "is_sync_command f =
     (case f of
        Array (Some args) \<Rightarrow>
          (case args of Bulk (Some cmd) # _ \<Rightarrow> to_ascii_uppercase cmd = ''SYNC'' | _ \<Rightarrow> False)
      | _ \<Rightarrow> False)"

text \<open>\<open>if !out.is_empty() { write_all; clear }\<close>.\<close>

definition flush_out :: "session \<Rightarrow> session" where
  "flush_out s = (if outbuf s \<noteq> [] then s\<lparr>written := written s @ [outbuf s], outbuf := []\<rparr> else s)"

text \<open>
  \<open>handle_replica_sync\<close> up to its loop: subscribe, then the snapshot, one write per entry. The session is
  then at the position of its receiver in the channel.
\<close>

definition start_sync :: "env \<Rightarrow> session \<Rightarrow> session" where
  "start_sync e s =
     s\<lparr>phase := Syncing (subscribe (repl (sctx s))),
       written := written s @ map (snapshot_entry_to_resp (env_fmt e)) (snapshot (env_now e) (ctx_store (sctx s)))\<rparr>"

lemma parse_frame_shorter: "parse_frame buf = Inr (Some (f, n)) \<Longrightarrow> length (drop n buf) < length buf"
  using parse_frame_bounds [of buf f n] by simp

text \<open>The inner loop: frames until the buffer holds no whole one.\<close>

function serve :: "(nat \<Rightarrow> env) \<Rightarrow> bytes \<Rightarrow> session \<Rightarrow> (bytes \<times> session) option" where
  "serve ev buf s =
     (case parse_frame buf of
        Inr (Some (f, consumed)) \<Rightarrow>
          if is_sync_command f then Some (drop consumed buf, start_sync (ev (served s)) (flush_out s))
          else (case execute (ev (served s)) f (sctx s) of
                  None \<Rightarrow> None
                | Some (resp, c) \<Rightarrow>
                    serve ev (drop consumed buf)
                      (s\<lparr>sctx := c, served := served s + 1, outbuf := write_frame_into (outbuf s) resp\<rparr>))
      | Inr None \<Rightarrow> Some (buf, s)
      | Inl e \<Rightarrow> Some ([], s\<lparr>outbuf := write_frame_into (outbuf s) (Error (''ERR protocol error: '' @ e))\<rparr>))"
  by pat_completeness auto
termination
  by (relation "measure (\<lambda>(ev, buf, s). length buf)") (auto dest: parse_frame_shorter simp del: length_drop)

declare serve.simps [simp del]

text \<open>One turn of the outer loop.\<close>

definition handle_read :: "(nat \<Rightarrow> env) \<Rightarrow> bytes \<Rightarrow> bytes \<times> session \<Rightarrow> (bytes \<times> session) option" where
  "handle_read ev chunk st =
     (case st of (buf, s) \<Rightarrow>
        if phase s \<noteq> Serving then Some (buf, s)
        else if chunk = [] then Some (buf, s\<lparr>phase := Closed\<rparr>)
        else case serve ev (buf @ chunk) s of
          None \<Rightarrow> None
        | Some (buf', s') \<Rightarrow> Some (buf', if phase s' = Serving then flush_out s' else s'))"

fun handle_connection :: "(nat \<Rightarrow> env) \<Rightarrow> bytes list \<Rightarrow> bytes \<times> session \<Rightarrow> (bytes \<times> session) option" where
  "handle_connection ev [] st = Some st"
| "handle_connection ev (chunk # chunks) st =
     (case handle_read ev chunk st of None \<Rightarrow> None | Some st' \<Rightarrow> handle_connection ev chunks st')"

definition new_session :: "ctx \<Rightarrow> session" where
  "new_session c = \<lparr>outbuf = [], written = [], served = 0, phase = Serving, sctx = c\<rparr>"

section \<open>The stream to a replica\<close>

text \<open>
  \<open>rx.recv()\<close> of the broadcast channel of capacity 4096: the next message, that the receiver lagged, or
  nothing yet.
\<close>

definition BROADCAST_CAPACITY :: nat where
  "BROADCAST_CAPACITY = 4096"

datatype recv_result = Message bytes | Lagged nat | Pending

definition recv :: "replication \<Rightarrow> nat \<Rightarrow> recv_result" where
  "recv r pos =
     (if length (write_tx r) \<le> pos then Pending
      else if length (write_tx r) - pos > BROADCAST_CAPACITY
      then Lagged (length (write_tx r) - pos - BROADCAST_CAPACITY)
      else Message (write_tx r ! pos))"

text \<open>One turn of the loop of \<open>handle_replica_sync\<close>.\<close>

definition sync_forward :: "session \<Rightarrow> session" where
  "sync_forward s =
     (case phase s of
        Syncing pos \<Rightarrow>
          (case recv (repl (sctx s)) pos of
             Message b \<Rightarrow> s\<lparr>written := written s @ [b], phase := Syncing (pos + 1)\<rparr>
           | Lagged n \<Rightarrow> s\<lparr>phase := Closed\<rparr>
           | Pending \<Rightarrow> s)
      | _ \<Rightarrow> s)"

section \<open>The follower\<close>

definition sync_request :: bytes where
  "sync_request = ''*1'' @ CRLF @ ''$4'' @ CRLF @ ''SYNC'' @ CRLF"

record follower =
  applied :: nat
  fstore :: store
  frepl :: replication

function follow :: "(nat \<Rightarrow> env) \<Rightarrow> bytes \<Rightarrow> follower \<Rightarrow> (bytes \<times> follower) option" where
  "follow ev buf w =
     (case parse_frame buf of
        Inr (Some (f, consumed)) \<Rightarrow>
          (case execute (ev (applied w)) f (replay_ctx (fstore w) (frepl w)) of
             None \<Rightarrow> None
           | Some (resp, c) \<Rightarrow>
               follow ev (drop consumed buf) \<lparr>applied = applied w + 1, fstore = ctx_store c, frepl = repl c\<rparr>)
      | Inr None \<Rightarrow> Some (buf, w)
      | Inl e \<Rightarrow> Some ([], w))"
  by pat_completeness auto
termination
  by (relation "measure (\<lambda>(ev, buf, w). length buf)") (auto dest: parse_frame_shorter simp del: length_drop)

declare follow.simps [simp del]

text \<open>The outer loop; an empty chunk ends the connection.\<close>

fun replicate_from_leader :: "(nat \<Rightarrow> env) \<Rightarrow> bytes list \<Rightarrow> bytes \<times> follower \<Rightarrow> (bytes \<times> follower) option" where
  "replicate_from_leader ev [] st = Some st"
| "replicate_from_leader ev (chunk # chunks) (buf, w) =
     (if chunk = [] then Some (buf, w)
      else case follow ev (buf @ chunk) w of
        None \<Rightarrow> None
      | Some st \<Rightarrow> replicate_from_leader ev chunks st)"

text \<open>The reconnection delays of \<open>run_follower_loop\<close>, in milliseconds.\<close>

definition next_backoff :: "nat \<Rightarrow> nat" where
  "next_backoff b = min (b * 2) 30000"

fun backoff_after :: "nat \<Rightarrow> nat" where
  "backoff_after 0 = 500"
| "backoff_after (Suc n) = next_backoff (backoff_after n)"

section \<open>Input in pieces\<close>

text \<open>
  Both loops read a buffer, take whole frames from it and keep the rest for the next read. The
  contract: a frame is processed as \<open>step\<close> says, nothing happens on an incomplete rest, and what is
  done between two reads (\<open>finish\<close>) does not show. Then only the frames matter, not the chunks.
\<close>

fun in_turn :: "('f \<Rightarrow> 'o \<Rightarrow> 'o option) \<Rightarrow> 'f list \<Rightarrow> 'o \<Rightarrow> 'o option" where
  "in_turn process [] x = Some x"
| "in_turn process (f # fs) x = (case process f x of None \<Rightarrow> None | Some y \<Rightarrow> in_turn process fs y)"

lemma in_turn_append:
  "in_turn process (fs @ gs) x = (case in_turn process fs x of None \<Rightarrow> None | Some y \<Rightarrow> in_turn process gs y)"
  by (induction fs arbitrary: x) (auto split: option.split)

locale frame_loop =
  fixes drain :: "bytes \<Rightarrow> 's \<Rightarrow> (bytes \<times> 's) option"
    and finish :: "'s \<Rightarrow> 's"
    and feed :: "bytes list \<Rightarrow> bytes \<times> 's \<Rightarrow> (bytes \<times> 's) option"
    and obs :: "'s \<Rightarrow> 'o"
    and process :: "frame \<Rightarrow> 'o \<Rightarrow> 'o option"
    and ready :: "'o \<Rightarrow> bool"
  assumes drain_frame: "parse_frame buf = Inr (Some (f, n)) \<Longrightarrow> ready (obs s) \<Longrightarrow> process f (obs s) = Some x \<Longrightarrow>
      \<exists>s'. obs s' = x \<and> drain buf s = drain (drop n buf) s'"
    and drain_stop: "parse_frame buf = Inr None \<Longrightarrow> drain buf s = Some (buf, s)"
    and step_ready: "process f x = Some y \<Longrightarrow> ready x \<Longrightarrow> ready y"
    and obs_finish: "obs (finish s) = obs s"
    and feed_nil: "feed [] st = Some st"
    and feed_chunk: "chunk \<noteq> [] \<Longrightarrow> ready (obs s) \<Longrightarrow> drain (buf @ chunk) s = Some (buf', s') \<Longrightarrow> ready (obs s') \<Longrightarrow>
      feed (chunk # chunks) (buf, s) = feed chunks (buf', finish s')"
begin

lemma steps_ready: "in_turn process fs x = Some y \<Longrightarrow> ready x \<Longrightarrow> ready y"
  by (induction fs arbitrary: x) (auto split: option.splits intro: step_ready)

lemma drain_stream:
  assumes "stream parse_frame buf fs r"
  shows "ready (obs s) \<Longrightarrow> in_turn process fs (obs s) = Some x \<Longrightarrow> \<exists>s'. drain buf s = Some (r, s') \<and> obs s' = x"
  using assms
proof (induction arbitrary: s rule: stream.induct)
  case (stop buf)
  then show ?case by (auto simp: drain_stop)
next
  case (step buf f n fs r)
  from step.prems obtain y where y: "process f (obs s) = Some y" "in_turn process fs y = Some x" by (auto split: option.splits)
  obtain s1 where s1: "obs s1 = y" "drain buf s = drain (drop n buf) s1"
    using drain_frame [OF step.hyps(1) step.prems(1) y(1)] by blast
  then show ?case using step.IH [of s1] y step_ready [OF y(1) step.prems(1)] by auto
qed

lemma feed_frames:
  assumes "\<forall>f \<in> set fs. wf_frame f" and "buf @ concat chunks = concat (map write_frame fs)"
    and "\<forall>chunk \<in> set chunks. chunk \<noteq> []" and "parse_frame buf = Inr None"
    and "ready (obs s)" and "in_turn process fs (obs s) = Some x"
  shows "\<exists>s'. feed chunks (buf, s) = Some ([], s') \<and> obs s' = x"
  using assms
proof (induction chunks arbitrary: buf s fs)
  case Nil
  have "stream parse_frame (concat (map write_frame fs) @ []) fs []"
    using Nil.prems(1) by (intro resp.stream_enc resp.dec_empty)
  then have "stream parse_frame buf fs []" using Nil.prems(2) by simp
  with Nil.prems(4) have "fs = [] \<and> buf = []" by (auto elim: stream.cases)
  with Nil.prems(6) show ?case by (simp add: feed_nil)
next
  case (Cons chunk chunks)
  have "concat (map write_frame fs) = (buf @ chunk) @ concat chunks" using Cons.prems(2) by simp
  then obtain k r where k: "stream parse_frame (buf @ chunk) (take k fs) r"
    "buf @ chunk = concat (map write_frame (take k fs)) @ r"
    using resp.stream_cut [of fs "buf @ chunk" "concat chunks"] Cons.prems(1) by auto
  obtain y where y: "in_turn process (take k fs) (obs s) = Some y" "in_turn process (drop k fs) y = Some x"
    using Cons.prems(6) in_turn_append [of process "take k fs" "drop k fs" "obs s"] by (auto split: option.splits)
  obtain s1 where s1: "drain (buf @ chunk) s = Some (r, s1)" "obs s1 = y"
    using drain_stream [OF k(1) Cons.prems(5) y(1)] by blast
  have ry: "ready y" by (rule steps_ready [OF y(1) Cons.prems(5)])
  have "concat (map write_frame (take k fs)) @ r @ concat chunks = concat (map write_frame (take k fs @ drop k fs))"
    using Cons.prems(2) k(2) by (metis append_assoc append_take_drop_id concat.simps(2))
  then have rest: "r @ concat chunks = concat (map write_frame (drop k fs))"
    by (simp only: map_append concat_append same_append_eq)
  have inc: "parse_frame r = Inr None" using k(1) by (induction rule: stream.induct) simp_all
  have "\<exists>s'. feed chunks (r, finish s1) = Some ([], s') \<and> obs s' = x"
    using Cons.prems(1,3) rest inc ry y(2) s1(2)
    by (intro Cons.IH [of "drop k fs"]) (auto simp: obs_finish dest: in_set_dropD)
  moreover have "feed (chunk # chunks) (buf, s) = feed chunks (r, finish s1)"
    using Cons.prems(3,5) s1 ry by (intro feed_chunk) simp_all
  ultimately show ?case by simp
qed

end

section \<open>The client connection as a sequential server\<close>

text \<open>The reference: one command after the other, the replies in one string.\<close>

type_synonym answered = "nat \<times> bytes \<times> ctx"

definition answer :: "(nat \<Rightarrow> env) \<Rightarrow> frame \<Rightarrow> answered \<Rightarrow> answered option" where
  "answer ev f x =
     (case x of (n, out, c) \<Rightarrow>
        if is_sync_command f then None
        else case execute (ev n) f c of None \<Rightarrow> None | Some (resp, c') \<Rightarrow> Some (n + 1, out @ write_frame resp, c'))"

definition session_obs :: "session \<Rightarrow> phase \<times> answered" where
  "session_obs s = (phase s, served s, concat (written s) @ outbuf s, sctx s)"

lemma session_obs_flush: "session_obs (flush_out s) = session_obs s"
  by (simp add: session_obs_def flush_out_def)

interpretation client: frame_loop "serve ev" flush_out "handle_connection ev" session_obs
  "\<lambda>f (p, x). map_option (Pair p) (answer ev f x)" "\<lambda>(p, x). p = Serving" for ev
proof
  fix buf f n s x
  assume p: "parse_frame buf = Inr (Some (f, n))"
    and st: "(case session_obs s of (p, x) \<Rightarrow> map_option (Pair p) (answer ev f x)) = Some x"
  then obtain resp c where r: "\<not> is_sync_command f" "execute (ev (served s)) f (sctx s) = Some (resp, c)"
    and x: "x = (phase s, served s + 1, (concat (written s) @ outbuf s) @ write_frame resp, c)"
    by (auto simp: session_obs_def answer_def split: if_splits option.splits)
  let ?s = "s\<lparr>sctx := c, served := served s + 1, outbuf := write_frame_into (outbuf s) resp\<rparr>"
  have "serve ev buf s = serve ev (drop n buf) ?s" using p r by (subst serve.simps) simp
  moreover have "session_obs ?s = x" using x by (simp add: session_obs_def write_frame_into_def)
  ultimately show "\<exists>s'. session_obs s' = x \<and> serve ev buf s = serve ev (drop n buf) s'" by blast
next
  fix buf s
  assume "parse_frame buf = Inr None"
  then show "serve ev buf s = Some (buf, s)" by (subst serve.simps) simp
next
  fix chunk buf buf' chunks and s s' :: session
  assume "chunk \<noteq> []" and "case session_obs s of (p, x) \<Rightarrow> p = Serving"
    and "serve ev (buf @ chunk) s = Some (buf', s')" and "case session_obs s' of (p, x) \<Rightarrow> p = Serving"
  then show "handle_connection ev (chunk # chunks) (buf, s) = handle_connection ev chunks (buf', flush_out s')"
    by (simp add: handle_read_def session_obs_def)
qed (auto simp: session_obs_flush)

text \<open>After every read what was answered is on the socket.\<close>

lemma flush_out_empty: "outbuf (flush_out s) = []" "phase (flush_out s) = phase s"
  by (simp_all add: flush_out_def)

lemma serve_flushes:
  "serve ev buf s = Some (buf', s') \<Longrightarrow> phase s = Serving \<Longrightarrow> phase s' = Serving \<or> outbuf s' = []"
proof (induction ev buf s rule: serve.induct)
  case (1 ev buf s)
  show ?case
  proof (cases "parse_frame buf")
    case (Inr x)
    show ?thesis
    proof (cases x)
      case (Some y)
      obtain f n where y: "y = (f, n)" by fastforce
      show ?thesis
      proof (cases "is_sync_command f")
        case True
        then show ?thesis using "1.prems" Inr Some y
          by (subst (asm) serve.simps) (auto simp: start_sync_def flush_out_empty)
      next
        case False
        then obtain r c where x: "execute (ev (served s)) f (sctx s) = Some (r, c)"
          "serve ev (drop n buf) (s\<lparr>sctx := c, served := served s + 1, outbuf := write_frame_into (outbuf s) r\<rparr>) = Some (buf', s')"
          using "1.prems"(1) Inr Some y by (subst (asm) serve.simps) (auto split: option.splits)
        with "1.IH" [OF Inr Some y [symmetric] False x(1) refl x(2)] "1.prems"(2) show ?thesis by simp
      qed
    qed (use "1.prems" Inr in \<open>subst (asm) serve.simps, simp\<close>)
  qed (use "1.prems" in \<open>subst (asm) serve.simps, auto\<close>)
qed

lemma handle_read_flushes:
  assumes "handle_read ev chunk (buf, s) = Some (buf', s')" and "outbuf s = []"
  shows "outbuf s' = []"
proof (cases "phase s = Serving \<and> chunk \<noteq> []")
  case True
  then obtain s1 where s1: "serve ev (buf @ chunk) s = Some (buf', s1)" "s' = (if phase s1 = Serving then flush_out s1 else s1)"
    using assms(1) by (auto simp: handle_read_def split: option.splits)
  with serve_flushes [OF s1(1)] True show ?thesis by (auto simp: flush_out_empty)
qed (use assms in \<open>auto simp: handle_read_def split: if_splits\<close>)

lemma handle_connection_flushes:
  "handle_connection ev chunks (buf, s) = Some (buf', s') \<Longrightarrow> outbuf s = [] \<Longrightarrow> outbuf s' = []"
proof (induction chunks arbitrary: buf s)
  case (Cons chunk chunks)
  then obtain b s1 where "handle_read ev chunk (buf, s) = Some (b, s1)" "handle_connection ev chunks (b, s1) = Some (buf', s')"
    by (auto split: option.splits)
  with Cons.IH handle_read_flushes Cons.prems(2) show ?case by blast
qed simp

lemma pipelined:
  assumes "\<forall>f \<in> set fs. wf_frame f" and "concat chunks = concat (map write_frame fs)" and "\<forall>chunk \<in> set chunks. chunk \<noteq> []"
    and "in_turn (answer ev) fs (0, [], c) = Some (n, out, c')"
  shows "\<exists>s'. handle_connection ev chunks ([], new_session c) = Some ([], s') \<and>
    concat (written s') = out \<and> outbuf s' = [] \<and> served s' = n \<and> sctx s' = c' \<and> phase s' = Serving"
proof -
  let ?step = "\<lambda>f (p, x). map_option (Pair p) (answer ev f x)"
  have pair: "in_turn ?step gs (p, x) = map_option (Pair p) (in_turn (answer ev) gs x)" for gs p x
    by (induction gs arbitrary: x) (auto split: option.split)
  have "\<exists>s'. handle_connection ev chunks ([], new_session c) = Some ([], s') \<and> session_obs s' = (Serving, n, out, c')"
    using assms by (intro client.feed_frames [where fs = fs]) (simp_all add: pair session_obs_def new_session_def resp.dec_empty)
  then obtain s' where s': "handle_connection ev chunks ([], new_session c) = Some ([], s')" "session_obs s' = (Serving, n, out, c')"
    by blast
  have "outbuf s' = []" by (rule handle_connection_flushes [OF s'(1)]) (simp add: new_session_def)
  with s' show ?thesis by (auto simp: session_obs_def)
qed

section \<open>The follower as a replay\<close>

definition apply_frame :: "(nat \<Rightarrow> env) \<Rightarrow> frame \<Rightarrow> follower \<Rightarrow> follower option" where
  "apply_frame ev f w =
     (case execute (ev (applied w)) f (replay_ctx (fstore w) (frepl w)) of
        None \<Rightarrow> None
      | Some (resp, c) \<Rightarrow> Some \<lparr>applied = applied w + 1, fstore = ctx_store c, frepl = repl c\<rparr>)"

interpretation replica: frame_loop "follow ev" "\<lambda>w. w" "replicate_from_leader ev" "\<lambda>w. w" "apply_frame ev" "\<lambda>_. True" for ev
proof
  fix buf f n w x
  assume "parse_frame buf = Inr (Some (f, n))" and "apply_frame ev f w = Some x"
  then show "\<exists>s'. s' = x \<and> follow ev buf w = follow ev (drop n buf) s'"
    by (subst follow.simps) (auto simp: apply_frame_def split: option.splits)
next
  fix buf w
  assume "parse_frame buf = Inr None"
  then show "follow ev buf w = Some (buf, w)" by (subst follow.simps) simp
qed simp_all

end
