(* ===== verification/Replica.thy ===== *)
theory Replica
  imports Network
begin

text \<open>
  Leader and follower together: which commands a follower repeats exactly when it executes them
  from the stream, that the stream of a leader holds what makes its store, and what the full
  synchronisation rebuilds.
\<close>

section \<open>Commands that stay within the data\<close>

definition only_data :: "handler \<Rightarrow> bool" where
  "only_data h \<longleftrightarrow> (\<forall>e args c r c'. h e args c = Some (r, c') \<longrightarrow> c' = c\<lparr>cdb := cdb c'\<rparr>)"

lemma only_data_wrappers: "only_data (answers f)" "only_data (updates g)" "only_data (attempts a)"
  by (auto simp: only_data_def answers_def updates_def attempts_def case_prod_unfold split: option.splits)

lemma only_data_tables:
  "list_all (\<lambda>(cmd, h). only_data h) (key_table @ string_table @ list_table @ hash_table @ set_table @ zset_table)"
  by (simp add: key_table_def string_table_def list_table_def hash_table_def set_table_def zset_table_def
      only_data_wrappers)

lemma only_data_server: "list_all (\<lambda>(cmd, h). cmd \<notin> {''CLUSTER'', ''MIGRATE''} \<longrightarrow> only_data h) server_table"
  by (simp add: server_table_def only_data_wrappers) (auto simp: only_data_def)

lemma only_data_entry:
  assumes "map_of dispatch_table cmd = Some h" and "cmd \<notin> {''CLUSTER'', ''MIGRATE''}"
  shows "only_data h"
  using map_of_SomeD [OF assms(1)] assms(2) only_data_tables only_data_server
  unfolding dispatch_table_def list_all_iff by fastforce

lemma dispatch_data:
  assumes "dispatch cmd e args c = Some (r, c')" and "cmd \<notin> {''CLUSTER'', ''MIGRATE''}"
  shows "c' = c\<lparr>cdb := cdb c'\<rparr>"
proof (cases "map_of dispatch_table cmd")
  case (Some h)
  with only_data_entry [OF Some assms(2)] assms(1) show ?thesis by (simp add: dispatch_def only_data_def)
qed (use assms in \<open>auto simp: dispatch_def\<close>)

text \<open>In a replay a write is its entry of the table.\<close>

lemma execute_replay:
  assumes "command_name args = Some cmd" and "replays c"
  shows "execute e (Array (Some args)) c = dispatch cmd e args c \<or>
    cmd \<in> {''CLUSTER'', ''MIGRATE''}"
proof -
  have "args \<noteq> []" using assms(1) by (auto simp: command_name_def bulk_at_def)
  then have "execute e (Array (Some args)) c = run_local e cmd args c"
    using assms by (simp add: execute_def replays_def)
  moreover have "run_local e cmd args c = dispatch cmd e args c" if "cmd \<notin> {''CLUSTER'', ''MIGRATE''}"
  proof (cases "dispatch cmd e args c")
    case (Some x)
    obtain r c1 where x: "x = (r, c1)" by fastforce
    have eq: "c1 = c\<lparr>cdb := cdb c1\<rparr>" using dispatch_data [OF _ that] Some x by blast
    have "is_replica_replay c1" "cmetrics c1 = None"
      using assms(2) arg_cong [OF eq, of is_replica_replay] arg_cong [OF eq, of cmetrics] by (simp_all add: replays_def)
    with Some x assms(2) show ?thesis by (simp add: run_local_def replays_def)
  qed (use assms(2) in \<open>simp add: run_local_def replays_def\<close>)
  ultimately show ?thesis by auto
qed

section \<open>Commands a follower repeats\<close>

text \<open>
  \<open>y\<close> is what a command gives on the same store with another clock and without a file: the same reply
  and the same store; and an error changed nothing.
\<close>

definition repeated :: "db \<Rightarrow> frame \<times> db \<Rightarrow> frame \<times> db \<Rightarrow> bool" where
  "repeated d x y \<longleftrightarrow> fst y = fst x \<and> kv (snd y) = kv (snd x) \<and> no_ttl (kv (snd x)) \<and>
     (is_error (fst x) \<longrightarrow> kv (snd x) = kv d)"

definition settled :: "(store \<Rightarrow> (store_error + 'a) \<times> store) \<Rightarrow> bool" where
  "settled f \<longleftrightarrow> (\<forall>s err. fst (f s) = Inl err \<longrightarrow> snd (f s) = s) \<and> (\<forall>s. no_ttl s \<longrightarrow> no_ttl (snd (f s)))"

lemma repeated_same: "no_ttl (kv d) \<Longrightarrow> kv d' = kv d \<Longrightarrow> repeated d (r, d) (r, d')"
  by (simp add: repeated_def)

lemma repeated_ops:
  assumes "no_ttl (kv d)" and "kv d' = kv d" and "settled f" and "\<And>x. \<not> is_error (out x)"
  shows "repeated d (store_op out f d) (store_op out f d')"
    and "repeated d (logged_op out logs lg f d) (logged_op out logs lg' f d')"
  using assms by (cases "fst (f (kv d))"; auto simp: repeated_def settled_def store_op_def logged_op_def case_prod_unfold)+

lemma no_ttl_mod: "no_ttl s \<Longrightarrow> no_ttl (snd (typed_mod proj con a f k s))"
  by (auto simp: no_ttl_def typed_mod_def case_prod_unfold split: option.splits if_splits)

lemma settled_upd:
  assumes "\<And>v x. proj v = Some x \<longleftrightarrow> v = con x" and "\<And>x. \<exists>r. fst (f x) = Inr r"
  shows "settled (typed_upd proj con new f k)"
proof -
  have "snd (typed_upd proj con new f k s) = s" if "fst (typed_upd proj con new f k s) = Inl err" for s err
    using that
  proof (rule upd_error)
    fix x err' assume "fst (f x) = Inl err'"
    then show "snd (f x) = x" using assms(2) [of x] by auto
  qed (use assms in auto)
  then show ?thesis unfolding settled_def by (blast intro: no_ttl_upd)
qed

lemma settled_mod:
  assumes "\<And>v x. proj v = Some x \<longleftrightarrow> v = con x" and "\<And>x. \<exists>r. fst (f x) = Inr r"
  shows "settled (typed_mod proj con a f k)"
proof -
  have "snd (typed_mod proj con a f k s) = s" if "fst (typed_mod proj con a f k s) = Inl err" for s err
    using that assms(2) by (auto simp: typed_mod_def case_prod_unfold split: option.splits) (metis Inl_Inr_False)
  then show ?thesis unfolding settled_def by (blast intro: no_ttl_mod)
qed

lemma settled_incrby: "is_i64 n \<Longrightarrow> settled (incrby k n)"
  using incrby_error by (auto simp: settled_def incrby_def intro: no_ttl_upd)

lemmas projections = lists.proj_con hashes.proj_con sets.proj_con zsets.proj_con strings.proj_con

lemma settled_store:
  "settled (lpush k vs)" "settled (rpush k vs)" "settled (lpop k n)" "settled (rpop k n)"
  "settled (linsert k b p v)" "settled (store_lrem k i v)" "settled (store_ltrim k i j)"
  "settled (store_hset k f v)" "settled (store_hsetnx k f v)" "settled (store_hdel k fs)"
  "settled (store_sadd k ms)" "settled (store_srem k ms)" "settled (store_append k v)"
  "settled (store_zrem k ms)" "settled (store_zremrangebyrank k i j)" "settled (store_zremrangebyscore k mn mx)"
  unfolding lpush_def rpush_def lpop_def rpop_def linsert_def store_lrem_def store_ltrim_def store_hset_def
    store_hsetnx_def store_hdel_def store_sadd_def store_srem_def store_append_def store_zrem_def
    store_zremrangebyrank_def store_zremrangebyscore_def
  by (rule settled_upd settled_mod; auto simp: projections Let_def case_prod_unfold)+

lemma is_error_outs [simp]:
  "\<not> is_error (int_reply n)" "\<not> is_error (flag_reply b)" "\<not> is_error (bulks xs)" "\<not> is_error (last_bulk xs)"
  "\<not> is_error frame_ok" "\<not> is_error null_bulk"
  by (simp_all add: int_reply_def flag_reply_def bulks_def last_bulk_def frame_ok_def null_bulk_def)

lemma repeated_list_cmds:
  assumes "no_ttl (kv d)" and "kv d' = kv d"
  shows "repeated d (cmd_lpush args d) (cmd_lpush args d')" "repeated d (cmd_rpush args d) (cmd_rpush args d')"
    "repeated d (cmd_lpop args d) (cmd_lpop args d')" "repeated d (cmd_rpop args d) (cmd_rpop args d')"
    "repeated d (cmd_linsert args d) (cmd_linsert args d')" "repeated d (cmd_lrem args d) (cmd_lrem args d')"
    "repeated d (cmd_ltrim args d) (cmd_ltrim args d')"
  unfolding cmd_lpush_def cmd_rpush_def cmd_lpop_def cmd_rpop_def cmd_linsert_def cmd_lrem_def cmd_ltrim_def Let_def
  using assms by (auto split: option.split intro!: repeated_same repeated_ops settled_store)

lemma repeated_set_cmds:
  assumes "no_ttl (kv d)" and "kv d' = kv d"
  shows "repeated d (cmd_hdel args d) (cmd_hdel args d')" "repeated d (cmd_hsetnx args d) (cmd_hsetnx args d')"
    "repeated d (cmd_sadd args d) (cmd_sadd args d')" "repeated d (cmd_srem args d) (cmd_srem args d')"
    "repeated d (cmd_zrem args d) (cmd_zrem args d')"
    "repeated d (cmd_zremrangebyrank args d) (cmd_zremrangebyrank args d')"
    "repeated d (cmd_zremrangebyscore args d) (cmd_zremrangebyscore args d')"
  unfolding cmd_hdel_def cmd_hsetnx_def cmd_sadd_def cmd_srem_def cmd_zrem_def cmd_zremrangebyrank_def
    cmd_zremrangebyscore_def Let_def
  using assms by (auto split: option.split intro!: repeated_same repeated_ops settled_store)

lemma no_ttl_flush: "no_ttl (flush s)"
  by (simp add: no_ttl_def)

lemma get_no_ttl: "no_ttl s \<Longrightarrow> fst (store_get now k s) = map_option entry_value (lookup s k)"
  by (auto simp: no_ttl_def store_get_def is_expired_def split: option.splits)

lemma exists_no_ttl: "no_ttl s \<Longrightarrow> store_exists now k s \<longleftrightarrow> lookup s k \<noteq> None"
  by (auto simp: no_ttl_def store_exists_def is_expired_def split: option.splits)

lemma repeated_string_cmds:
  assumes "no_ttl (kv d)" and "kv d' = kv d"
  shows "repeated d (cmd_append args d) (cmd_append args d')"
    "is_i64 i \<Longrightarrow> repeated d (cmd_incrby i args d) (cmd_incrby i args d')"
    "repeated d (cmd_incrby_by i args d) (cmd_incrby_by i args d')"
    "repeated d (cmd_del args d) (cmd_del args d')"
    "repeated d (cmd_getset e args d) (cmd_getset e' args d')"
  unfolding cmd_append_def cmd_incrby_def cmd_incrby_by_def Let_def
      apply (use assms in \<open>auto split: option.split intro!: repeated_same repeated_ops settled_store settled_incrby is_i64_wrap\<close>)
  subgoal using assms by (auto simp: cmd_del_def Let_def case_prod_unfold repeated_def no_ttl_del)
  subgoal using assms by (auto simp: cmd_getset_def getset_def Let_def case_prod_unfold repeated_def store_get_no_ttl get_no_ttl no_ttl_put
        split: option.split)
  done

lemma repeated_setnx:
  assumes "no_ttl (kv d)" and "kv d' = kv d"
  shows "repeated d (cmd_setnx e args d) (cmd_setnx e' args d')"
  using assms
  by (auto simp: cmd_setnx_def repeated_def exists_no_ttl no_ttl_put split: option.split)

lemma repeated_set:
  assumes "no_ttl (kv d)" and "kv d' = kv d" and "fst (set_options (drop 3 args) (None, False, False)) = None"
  shows "\<exists>x y. cmd_set e args d = Some x \<and> cmd_set e' args d' = Some y \<and> repeated d x y"
proof -
  obtain nx xx where opts: "set_options (drop 3 args) (None, False, False) = (None, nx, xx)"
    using assms(3) by (metis prod.collapse)
  show ?thesis
    using assms(1,2) opts
    by (auto simp: cmd_set_def repeated_def exists_no_ttl no_ttl_put store_set_def Let_def split: option.split)
qed

lemma mset_pairs_store: "kv d' = kv d \<Longrightarrow> no_ttl (kv d) \<Longrightarrow>
    kv (mset_pairs fs d') = kv (mset_pairs fs d) \<and> no_ttl (kv (mset_pairs fs d))"
proof (induction fs arbitrary: d d' rule: induct_list012)
  case (3 k v fs)
  let ?next = "\<lambda>kk vv d. logged (log_set kk vv) (d\<lparr>kv := put kk \<lparr>entry_value = VString vv, expires_at = None\<rparr> (kv d)\<rparr>)"
  have "kv (mset_pairs fs (?next kk vv d')) = kv (mset_pairs fs (?next kk vv d)) \<and> no_ttl (kv (mset_pairs fs (?next kk vv d)))" for kk vv
    using "3.prems" by (intro "3.IH"(1)) (simp_all add: no_ttl_put)
  with "3.IH"(1) [OF "3.prems"] show ?case by (simp split: option.split)
qed simp_all

lemma repeated_mset:
  assumes "no_ttl (kv d)" and "kv d' = kv d"
  shows "repeated d (cmd_mset args d) (cmd_mset args d')"
  using mset_pairs_store [OF assms(2,1)] assms by (auto simp: cmd_mset_def repeated_def)

lemma hset_pairs_store: "kv d' = kv d \<Longrightarrow> no_ttl (kv d) \<Longrightarrow>
    fst (hset_pairs k n fs d') = fst (hset_pairs k n fs d) \<and> kv (snd (hset_pairs k n fs d')) = kv (snd (hset_pairs k n fs d)) \<and>
    no_ttl (kv (snd (hset_pairs k n fs d)))"
proof (induction fs arbitrary: d d' n rule: induct_list012)
  case (3 f v fs)
  show ?case
  proof (cases "arg_bytes f"; cases "arg_bytes v")
    fix ff vv assume args: "arg_bytes f = Some ff" "arg_bytes v = Some vv"
    obtain r s where h: "store_hset k ff vv (kv d) = (r, s)" by fastforce
    have s: "no_ttl s" using no_ttl_upd [OF "3.prems"(2)] h unfolding store_hset_def by (metis snd_conv)
    show ?thesis
    proof (cases r)
      case (Inr m)
      have "fst (hset_pairs k (n + m) fs (logged (log_hset k ff vv) (d'\<lparr>kv := s\<rparr>))) =
          fst (hset_pairs k (n + m) fs (logged (log_hset k ff vv) (d\<lparr>kv := s\<rparr>))) \<and>
        kv (snd (hset_pairs k (n + m) fs (logged (log_hset k ff vv) (d'\<lparr>kv := s\<rparr>)))) =
          kv (snd (hset_pairs k (n + m) fs (logged (log_hset k ff vv) (d\<lparr>kv := s\<rparr>)))) \<and>
        no_ttl (kv (snd (hset_pairs k (n + m) fs (logged (log_hset k ff vv) (d\<lparr>kv := s\<rparr>)))))"
        using s by (intro "3.IH"(1)) simp_all
      with args h Inr "3.prems" show ?thesis by simp
    qed (use args h "3.prems" s in simp)
  qed (use "3.IH"(1) [OF "3.prems", of n] in simp_all)
qed simp_all

lemma hset_pairs_hits: "contents as_hash hash_new k (kv d) \<noteq> None \<Longrightarrow> \<not> is_error (fst (hset_pairs k n fs d))"
proof (induction fs arbitrary: d n rule: induct_list012)
  case (3 f v fs)
  show ?case
  proof (cases "arg_bytes f"; cases "arg_bytes v")
    fix ff vv assume args: "arg_bytes f = Some ff" "arg_bytes v = Some vv"
    obtain h where h: "contents as_hash hash_new k (kv d) = Some h" using "3.prems" by blast
    obtain m s where hs: "store_hset k ff vv (kv d) = (Inr m, s)" and c: "contents as_hash hash_new k s \<noteq> None"
      using hashes.upd_hit(1,2) [OF h, of "\<lambda>h. case hset ff vv h of (n, h') \<Rightarrow> (Inr n, h')"]
      unfolding store_hset_def [symmetric] by (cases "store_hset k ff vv (kv d)") (auto simp: case_prod_unfold)
    have "\<not> is_error (fst (hset_pairs k (n + m) fs (logged (log_hset k ff vv) (d\<lparr>kv := s\<rparr>))))"
      using c by (intro "3.IH"(1)) simp
    with args hs show ?thesis by simp
  qed (use "3.IH"(1) "3.prems" in simp_all)
qed simp_all

lemma hset_pairs_error:
  "is_error (fst (hset_pairs k n fs d)) \<Longrightarrow> kv (snd (hset_pairs k n fs d)) = kv d"
proof (induction fs arbitrary: n rule: induct_list012)
  case (3 f v fs)
  have "contents as_hash hash_new k (kv d) = None" using "3.prems" hset_pairs_hits by blast
  then have "store_hset k ff vv (kv d) = (Inl WrongType, kv d)" for ff vv
    unfolding store_hset_def by (rule hashes.upd_wrong)
  with 3 show ?case by (simp split: option.splits)
qed simp_all

lemma repeated_hset:
  assumes "no_ttl (kv d)" and "kv d' = kv d"
  shows "repeated d (cmd_hset args d) (cmd_hset args d')"
  using hset_pairs_store [OF assms(2,1)] assms by (auto simp: cmd_hset_def repeated_def hset_pairs_error split: option.split)

lemma repeated_flush:
  assumes "no_ttl (kv d)" and "kv d' = kv d"
  shows "repeated d (frame_ok, d\<lparr>kv := flush (kv d)\<rparr>) (frame_ok, d'\<lparr>kv := flush (kv d')\<rparr>)"
  using assms by (simp add: repeated_def no_ttl_flush)

section \<open>The stream of a leader\<close>

text \<open>The calls a follower repeats exactly, on stores without expiries.\<close>

definition replicated_writes :: "bytes set" where
  "replicated_writes =
     {''MSET'', ''SETNX'', ''GETSET'', ''APPEND'', ''INCR'', ''DECR'', ''INCRBY'', ''DECRBY'', ''DEL'',
      ''LPUSH'', ''RPUSH'', ''LPOP'', ''RPOP'', ''LINSERT'', ''LREM'', ''LTRIM'', ''HSET'', ''HMSET'', ''HDEL'', ''HSETNX'',
      ''SADD'', ''SREM'', ''ZREM'', ''ZREMRANGEBYRANK'', ''ZREMRANGEBYSCORE'', ''FLUSHDB'', ''FLUSHALL''}"

definition replicable :: "bytes list \<Rightarrow> bool" where
  "replicable bs \<longleftrightarrow> sendable bs \<and>
     (case command_name (bulk_args bs) of
        None \<Rightarrow> True
      | Some cmd \<Rightarrow> only_reads cmd \<or> cmd \<in> replicated_writes \<or>
          cmd = ''SET'' \<and> fst (set_options (drop 3 (bulk_args bs)) (None, False, False)) = None)"

lemma replicated_entries:
  "map_of dispatch_table ''LPOP'' = Some (updates (\<lambda>e. cmd_lpop))"
  "map_of dispatch_table ''RPOP'' = Some (updates (\<lambda>e. cmd_rpop))"
  "map_of dispatch_table ''LINSERT'' = Some (updates (\<lambda>e. cmd_linsert))"
  "map_of dispatch_table ''LREM'' = Some (updates (\<lambda>e. cmd_lrem))"
  "map_of dispatch_table ''LTRIM'' = Some (updates (\<lambda>e. cmd_ltrim))"
  "map_of dispatch_table ''HDEL'' = Some (updates (\<lambda>e. cmd_hdel))"
  "map_of dispatch_table ''HSETNX'' = Some (updates (\<lambda>e. cmd_hsetnx))"
  "map_of dispatch_table ''SREM'' = Some (updates (\<lambda>e. cmd_srem))"
  "map_of dispatch_table ''ZREM'' = Some (updates (\<lambda>e. cmd_zrem))"
  "map_of dispatch_table ''ZREMRANGEBYRANK'' = Some (updates (\<lambda>e. cmd_zremrangebyrank))"
  "map_of dispatch_table ''ZREMRANGEBYSCORE'' = Some (updates (\<lambda>e. cmd_zremrangebyscore))"
  "map_of dispatch_table ''FLUSHDB'' = Some (updates (\<lambda>e args d. (frame_ok, d\<lparr>kv := flush (kv d)\<rparr>)))"
  "map_of dispatch_table ''FLUSHALL'' = Some (updates (\<lambda>e args d. (frame_ok, d\<lparr>kv := flush (kv d)\<rparr>)))"
  by (simp_all add: table_defs)

definition repeatable :: "(env \<Rightarrow> frame list \<Rightarrow> db \<Rightarrow> frame \<times> db) \<Rightarrow> bool" where
  "repeatable g \<longleftrightarrow> (\<forall>e e' args d d'. no_ttl (kv d) \<longrightarrow> kv d' = kv d \<longrightarrow> repeated d (g e args d) (g e' args d'))"

lemma is_i64_units: "is_i64 1" "is_i64 (- 1)"
  by (simp_all add: is_i64_def)

lemma repeatable_cmds:
  "repeatable (\<lambda>e. cmd_mset)" "repeatable cmd_setnx" "repeatable cmd_getset" "repeatable (\<lambda>e. cmd_append)"
  "repeatable (\<lambda>e. cmd_incrby 1)" "repeatable (\<lambda>e. cmd_incrby (- 1))" "repeatable (\<lambda>e. cmd_incrby_by i)"
  "repeatable (\<lambda>e. cmd_del)" "repeatable (\<lambda>e. cmd_lpush)" "repeatable (\<lambda>e. cmd_rpush)" "repeatable (\<lambda>e. cmd_lpop)"
  "repeatable (\<lambda>e. cmd_rpop)" "repeatable (\<lambda>e. cmd_linsert)" "repeatable (\<lambda>e. cmd_lrem)" "repeatable (\<lambda>e. cmd_ltrim)"
  "repeatable (\<lambda>e. cmd_hset)" "repeatable (\<lambda>e. cmd_hdel)" "repeatable (\<lambda>e. cmd_hsetnx)" "repeatable (\<lambda>e. cmd_sadd)"
  "repeatable (\<lambda>e. cmd_srem)" "repeatable (\<lambda>e. cmd_zrem)" "repeatable (\<lambda>e. cmd_zremrangebyrank)"
  "repeatable (\<lambda>e. cmd_zremrangebyscore)" "repeatable (\<lambda>e args d. (frame_ok, d\<lparr>kv := flush (kv d)\<rparr>))"
  unfolding repeatable_def
  by (intro allI impI repeated_list_cmds repeated_set_cmds repeated_string_cmds repeated_setnx repeated_mset repeated_hset
      repeated_flush is_i64_units; assumption)+

lemma replicated_entry:
  assumes "cmd \<in> replicated_writes"
  obtains g where "map_of dispatch_table cmd = Some (updates g)" "repeatable g" "is_write cmd"
proof -
  have "\<exists>g. map_of dispatch_table cmd = Some (updates g) \<and> repeatable g \<and> is_write cmd"
    using assms unfolding replicated_writes_def
    by (elim insertE emptyE) (simp_all add: durable_entries replicated_entries, (rule exI, rule conjI [OF refl], rule repeatable_cmds)+)
  with that show thesis by blast
qed

text \<open>A write of this kind, repeated by a follower on the same store.\<close>

lemma replicable_write:
  assumes "cmd \<in> replicated_writes \<or>
      cmd = ''SET'' \<and> fst (set_options (drop 3 args) (None, False, False)) = None"
    and "no_ttl (ctx_store c)" and "dispatch cmd e args c = Some (r, c')"
  shows "\<exists>c''. dispatch cmd e' args (replay_ctx (ctx_store c) rp) = Some (r, c'') \<and> ctx_store c'' = ctx_store c'"
    and "no_ttl (ctx_store c')" and "is_error r \<Longrightarrow> ctx_store c' = ctx_store c" and "is_write cmd"
proof -
  have "(\<exists>c''. dispatch cmd e' args (replay_ctx (ctx_store c) rp) = Some (r, c'') \<and> ctx_store c'' = ctx_store c') \<and>
      no_ttl (ctx_store c') \<and> (is_error r \<longrightarrow> ctx_store c' = ctx_store c) \<and> is_write cmd"
    using assms(1)
  proof
    assume "cmd \<in> replicated_writes"
    then obtain g where g: "map_of dispatch_table cmd = Some (updates g)" "repeatable g" "is_write cmd"
      by (rule replicated_entry)
    have "repeated (cdb c) (g e args (cdb c)) (g e' args (cdb (replay_ctx (ctx_store c) rp)))"
      using g(2) assms(2) by (simp add: repeatable_def)
    with g assms(3) show ?thesis by (auto simp: dispatch_def updates_def case_prod_unfold repeated_def)
  next
    assume st: "cmd = ''SET'' \<and> fst (set_options (drop 3 args) (None, False, False)) = None"
    have "\<exists>x y. cmd_set e args (cdb c) = Some x \<and>
        cmd_set e' args (cdb (replay_ctx (ctx_store c) rp)) = Some y \<and> repeated (cdb c) x y"
      using st assms(2) by (intro repeated_set) simp_all
    then obtain x y where xy: "cmd_set e args (cdb c) = Some x"
        "cmd_set e' args (cdb (replay_ctx (ctx_store c) rp)) = Some y" "repeated (cdb c) x y" by blast
    moreover from st assms(3) have "attempts cmd_set e args c = Some (r, c')"
      by (simp only: dispatch_def dispatch_entries option.case)
    moreover from st have "dispatch cmd e' args (replay_ctx (ctx_store c) rp) = attempts cmd_set e' args (replay_ctx (ctx_store c) rp)"
      by (simp only: dispatch_def dispatch_entries option.case)
    ultimately show ?thesis using st by (cases x; cases y) (auto simp: attempts_def repeated_def)
  qed
  then show "\<exists>c''. dispatch cmd e' args (replay_ctx (ctx_store c) rp) = Some (r, c'') \<and> ctx_store c'' = ctx_store c'"
    and "no_ttl (ctx_store c')" and "is_error r \<Longrightarrow> ctx_store c' = ctx_store c" and "is_write cmd" by blast+
qed

lemma replay_ctx_shape:
  assumes "dispatch cmd e args (replay_ctx s rp) = Some (r, c)" and "cmd \<notin> {''CLUSTER'', ''MIGRATE''}"
  shows "c = replay_ctx (ctx_store c) rp"
proof -
  have "c = (replay_ctx s rp)\<lparr>cdb := cdb c\<rparr>" by (rule dispatch_data [OF assms])
  moreover have "journal_grows e (cdb (replay_ctx s rp)) (cdb c)" using aof.dispatch_R [OF _ assms(1)] by simp
  then have "journal (cdb c) = None" by (auto simp: journal_grows_def)
  ultimately show ?thesis by (metis db.surjective old.unit.exhaust replay_ctx_simps(2))
qed

definition leads :: "ctx \<Rightarrow> bool" where
  "leads c \<longleftrightarrow> is_leader (repl c) \<and> raft c = None \<and> cluster c = None \<and> \<not> is_replica_replay c"

text \<open>
  Between \<open>c\<close> and \<open>c'\<close> the leader broadcast frames that bring a follower with the store of \<open>c\<close> to the
  store of \<open>c'\<close>, whatever its clock.
\<close>

definition streamed :: "ctx \<Rightarrow> ctx \<Rightarrow> bool" where
  "streamed c c' \<longleftrightarrow> (\<exists>fs. (\<forall>f \<in> set fs. wf_frame f) \<and> write_tx (repl c') = write_tx (repl c) @ map write_frame fs \<and>
     (\<forall>ev w. fstore w = ctx_store c \<longrightarrow>
        in_turn (apply_frame ev) fs w = Some (w\<lparr>applied := applied w + length fs, fstore := ctx_store c'\<rparr>)))"

lemma streamed_same: "write_tx (repl c') = write_tx (repl c) \<Longrightarrow> ctx_store c' = ctx_store c \<Longrightarrow> streamed c c'"
  unfolding streamed_def by (rule exI [of _ "[]"]) auto

lemma streamed_trans:
  assumes "streamed c1 c2" and "streamed c2 c3"
  shows "streamed c1 c3"
proof -
  obtain fs gs where fs: "\<forall>f \<in> set fs. wf_frame f" "write_tx (repl c2) = write_tx (repl c1) @ map write_frame fs"
    "\<And>ev w. fstore w = ctx_store c1 \<Longrightarrow>
        in_turn (apply_frame ev) fs w = Some (w\<lparr>applied := applied w + length fs, fstore := ctx_store c2\<rparr>)"
    and gs: "\<forall>f \<in> set gs. wf_frame f" "write_tx (repl c3) = write_tx (repl c2) @ map write_frame gs"
    "\<And>ev w. fstore w = ctx_store c2 \<Longrightarrow>
        in_turn (apply_frame ev) gs w = Some (w\<lparr>applied := applied w + length gs, fstore := ctx_store c3\<rparr>)"
    using assms unfolding streamed_def by blast
  have "in_turn (apply_frame ev) (fs @ gs) w =
      Some (w\<lparr>applied := applied w + length (fs @ gs), fstore := ctx_store c3\<rparr>)" if "fstore w = ctx_store c1" for ev w
    using fs(3) [OF that] gs(3) by (simp add: in_turn_append ac_simps)
  with fs(1,2) gs(1,2) show ?thesis unfolding streamed_def by (intro exI [of _ "fs @ gs"]) auto
qed

text \<open>On a leader \<open>execute\<close> is a table entry, the counters and, for a write that did not fail, the broadcast.\<close>

lemma leader_execute:
  assumes "leads c" and "cmd \<notin> {''CLUSTER'', ''MIGRATE''}" and "command_name args = Some cmd"
    and "execute e (Array (Some args)) c = Some (r, c')"
  obtains c1 where "dispatch cmd e args c = Some (r, c1)" and "cdb c' = cdb c1" and "leads c'"
    and "write_tx (repl c') = write_tx (repl c) @
      (if is_write cmd \<and> \<not> is_error r then [write_frame (Array (Some args))] else [])"
proof -
  have "args \<noteq> []" using assms(3) by (auto simp: command_name_def bulk_at_def)
  moreover have "raft c = None" "cluster c = None" using assms(1) by (simp_all add: leads_def)
  ultimately have run: "run_local e cmd args c = Some (r, c')" using assms(3,4) by (simp add: execute_def cong: if_cong)
  then obtain c1 where c1: "dispatch cmd e args c = Some (r, c1)"
    using assms(1) by (auto simp: run_local_def leads_def Let_def split: option.splits)
  have eq: "c1 = c\<lparr>cdb := cdb c1\<rparr>" by (rule dispatch_data [OF c1 assms(2)])
  have "repl c1 = repl c" "raft c1 = raft c" "cluster c1 = cluster c" "is_replica_replay c1 = is_replica_replay c"
    by (subst eq, simp)+
  with run c1 assms(1) show thesis
    by (intro that [OF c1])
      (auto simp: run_local_def leads_def Let_def broadcast_def serialize_frame_def split: if_splits)
qed

text \<open>A write that is sent and succeeds does to the follower's store what it did to the leader's.\<close>

lemma streamed_write:
  assumes name: "command_name (bulk_args bs) = Some cmd" and data: "cmd \<notin> {''CLUSTER'', ''MIGRATE''}" and send: "sendable bs"
    and c1: "dispatch cmd e (bulk_args bs) c = Some (r, c1)" "cdb c' = cdb c1"
      "write_tx (repl c') = write_tx (repl c) @
        (if is_write cmd \<and> \<not> is_error r then [write_frame (Array (Some (bulk_args bs)))] else [])"
    and again: "\<And>e' rp. \<exists>c2. dispatch cmd e' (bulk_args bs) (replay_ctx (ctx_store c) rp) = Some (r, c2) \<and>
        ctx_store c2 = ctx_store c1"
    and err: "is_error r \<Longrightarrow> ctx_store c1 = ctx_store c" and wr: "is_write cmd"
  shows "streamed c c'"
proof (cases "is_error r")
  case True
  with err c1 show ?thesis by (intro streamed_same) simp_all
next
  case False
  let ?args = "bulk_args bs"
  have "apply_frame ev (Array (Some ?args)) w = Some (w\<lparr>applied := applied w + 1, fstore := ctx_store c'\<rparr>)"
    if "fstore w = ctx_store c" for ev w
  proof -
    obtain c2 where c2: "dispatch cmd (ev (applied w)) ?args (replay_ctx (ctx_store c) (frepl w)) = Some (r, c2)"
      "ctx_store c2 = ctx_store c1" using again by blast
    have "c2 = replay_ctx (ctx_store c1) (frepl w)" using replay_ctx_shape [OF c2(1) data] c2(2) by simp
    moreover have "execute (ev (applied w)) (Array (Some ?args)) (replay_ctx (ctx_store c) (frepl w)) = Some (r, c2)"
      using execute_replay [OF name, of "replay_ctx (ctx_store c) (frepl w)"] data c2(1) by auto
    ultimately show ?thesis using that c1(2) by (simp add: apply_frame_def replay_ctx_def)
  qed
  moreover have "wf_frame (Array (Some ?args))" using send wf_command_frame [of bs] by (simp add: command_frame_def)
  ultimately show ?thesis
    using c1(3) wr False unfolding streamed_def by (intro exI [of _ "[Array (Some ?args)]"]) simp
qed

lemma streamed_call:
  assumes "leads c" and "no_ttl (ctx_store c)" and "replicable bs"
    and "execute e (Array (Some (bulk_args bs))) c = Some (r, c')"
  shows "streamed c c' \<and> leads c' \<and> no_ttl (ctx_store c')"
proof (cases "command_name (bulk_args bs)")
  case None
  then have "c' = c" using assms(4) by (auto simp: execute_def split: if_splits)
  with assms show ?thesis by (simp add: streamed_same)
next
  case (Some cmd)
  let ?args = "bulk_args bs"
  have send: "sendable bs" using assms(3) by (simp add: replicable_def)
  consider (reads) "only_reads cmd"
    | (writes) "cmd \<in> replicated_writes \<or> cmd = ''SET'' \<and> fst (set_options (drop 3 ?args) (None, False, False)) = None"
    using assms(3) Some by (auto simp: replicable_def)
  then show ?thesis
  proof cases
    case reads
    then have data: "cmd \<notin> {''CLUSTER'', ''MIGRATE''}" and nw: "\<not> is_write cmd" by (auto simp: only_reads_def)
    obtain c1 where c1: "dispatch cmd e ?args c = Some (r, c1)" "cdb c' = cdb c1" "leads c'"
      "write_tx (repl c') = write_tx (repl c)"
      by (rule leader_execute [OF assms(1) data Some assms(4)]) (simp add: nw)
    have "cdb c1 = cdb c" using quiet.dispatch_R [OF reads c1(1)] assms(2) by (simp add: quiet_def)
    with c1 assms(2) show ?thesis by (simp add: streamed_same)
  next
    case writes
    then have data: "cmd \<notin> {''CLUSTER'', ''MIGRATE''}" by (auto simp: replicated_writes_def)
    obtain c1 where c1: "dispatch cmd e ?args c = Some (r, c1)" "cdb c' = cdb c1" "leads c'"
      "write_tx (repl c') = write_tx (repl c) @
        (if is_write cmd \<and> \<not> is_error r then [write_frame (Array (Some ?args))] else [])"
      by (rule leader_execute [OF assms(1) data Some assms(4)])
    note rep = replicable_write [OF writes assms(2) c1(1)]
    have "streamed c c'" by (rule streamed_write [OF Some data send c1(1,2,4) rep(1,3,4)])
    with rep(2) c1 show ?thesis by simp
  qed
qed

lemma streamed_run:
  assumes "\<forall>bs \<in> set calls. replicable bs"
  shows "execute_all ev (map (\<lambda>bs. Array (Some (bulk_args bs))) calls) c = Some c' \<Longrightarrow> leads c \<Longrightarrow> no_ttl (ctx_store c) \<Longrightarrow>
    streamed c c'"
  using assms
proof (induction calls arbitrary: c ev)
  case (Cons bs calls)
  then obtain r c1 where x: "execute (ev 0) (Array (Some (bulk_args bs))) c = Some (r, c1)"
    "execute_all (\<lambda>i. ev (Suc i)) (map (\<lambda>bs. Array (Some (bulk_args bs))) calls) c1 = Some c'"
    by (auto split: option.splits)
  have c1: "streamed c c1 \<and> leads c1 \<and> no_ttl (ctx_store c1)"
    using Cons.prems(4) by (intro streamed_call [OF Cons.prems(2,3) _ x(1)]) simp
  have "streamed c1 c'" using c1 Cons.prems(4) by (intro Cons.IH [OF x(2)]) simp_all
  with c1 show ?case by (blast intro: streamed_trans)
qed (simp add: streamed_same)

text \<open>The messages of the stream, read in pieces of any size, bring the follower to the leader's store.\<close>

lemma follower_catches_up:
  assumes "streamed c c'" and "fstore w = ctx_store c"
    and "concat chunks = concat (received (subscribe (repl c)) (repl c'))" and "\<forall>chunk \<in> set chunks. chunk \<noteq> []"
  shows "\<exists>w'. replicate_from_leader ev chunks ([], w) = Some ([], w') \<and> fstore w' = ctx_store c'"
proof -
  obtain fs where fs: "\<forall>f \<in> set fs. wf_frame f" "write_tx (repl c') = write_tx (repl c) @ map write_frame fs"
    "in_turn (apply_frame ev) fs w = Some (w\<lparr>applied := applied w + length fs, fstore := ctx_store c'\<rparr>)"
    using assms(1,2) unfolding streamed_def by blast
  have "\<exists>w'. replicate_from_leader ev chunks ([], w) = Some ([], w') \<and>
      w' = w\<lparr>applied := applied w + length fs, fstore := ctx_store c'\<rparr>"
    using fs assms(3,4)
    by (intro replica.feed_frames [where fs = fs]) (simp_all add: received_def subscribe_def resp.dec_empty)
  then show ?thesis by auto
qed

section \<open>The full synchronisation\<close>

definition data_frame :: "frame \<Rightarrow> bool" where
  "data_frame f \<longleftrightarrow> (\<exists>args cmd. f = Array (Some args) \<and> command_name args = Some cmd \<and> cmd \<notin> {''CLUSTER'', ''MIGRATE''})"

lemma apply_data_frame:
  assumes "data_frame f" and "execute (ev (applied w)) f (replay_ctx (fstore w) (frepl w)) = Some (r, c)"
  shows "apply_frame ev f w = Some (w\<lparr>applied := applied w + 1, fstore := ctx_store c\<rparr>)"
    and "c = replay_ctx (ctx_store c) (frepl w)"
proof -
  obtain args cmd where f: "f = Array (Some args)" "command_name args = Some cmd" "cmd \<notin> {''CLUSTER'', ''MIGRATE''}"
    using assms(1) by (auto simp: data_frame_def)
  have "dispatch cmd (ev (applied w)) args (replay_ctx (fstore w) (frepl w)) = Some (r, c)"
    using execute_replay [OF f(2), of "replay_ctx (fstore w) (frepl w)"] f assms(2) by auto
  from replay_ctx_shape [OF this f(3)] show c: "c = replay_ctx (ctx_store c) (frepl w)" .
  have "repl c = frepl w" by (subst c) (simp add: replay_ctx_def)
  with assms(2) show "apply_frame ev f w = Some (w\<lparr>applied := applied w + 1, fstore := ctx_store c\<rparr>)"
    by (simp add: apply_frame_def)
qed

lemma in_turn_replay:
  "\<forall>f \<in> set fs. data_frame f \<Longrightarrow>
     execute_all (\<lambda>i. ev (applied w + i)) fs (replay_ctx (fstore w) (frepl w)) = Some (replay_ctx s rp) \<Longrightarrow>
     in_turn (apply_frame ev) fs w = Some (w\<lparr>applied := applied w + length fs, fstore := s\<rparr>)"
proof (induction fs arbitrary: w)
  case Nil
  then have "fstore w = s" by (simp add: replay_ctx_def)
  then show ?case by auto
next
  case (Cons f fs)
  then obtain r c where x: "execute (ev (applied w)) f (replay_ctx (fstore w) (frepl w)) = Some (r, c)"
    "execute_all (\<lambda>i. ev (applied w + Suc i)) fs c = Some (replay_ctx s rp)"
    by (auto split: option.splits)
  let ?w = "w\<lparr>applied := applied w + 1, fstore := ctx_store c\<rparr>"
  have "data_frame f" using Cons.prems(1) by simp
  note ap = apply_data_frame [where ev = ev and w = w, OF this x(1)]
  have "execute_all (\<lambda>i. ev (applied ?w + i)) fs (replay_ctx (fstore ?w) (frepl ?w)) = Some (replay_ctx s rp)"
    using x(2) ap(2) by simp
  from Cons.IH [OF _ this] Cons.prems(1) ap(1) show ?case by simp
qed

lemma snapshot_frame_data: "data_frame (snapshot_frame fmt en)"
  by (cases en) (auto simp: data_frame_def array_def bulk_str_def intro!: exI)

lemma full_sync:
  assumes inv: "store_inv (ctx_store (sctx s))" and pr: "printable (env_fmt e) (ctx_store (sctx s))"
    and wf: "\<forall>en \<in> set (snapshot (env_now e) (ctx_store (sctx s))). wf_frame (snapshot_frame (env_fmt e) en)"
    and quiet: "written s = []" and chunks: "concat chunks = concat (written (start_sync e s))" "\<forall>chunk \<in> set chunks. chunk \<noteq> []"
    and new: "fstore w = store_new"
  shows "\<exists>w'. replicate_from_leader ev chunks ([], w) = Some ([], w') \<and> store_inv (fstore w') \<and>
    (\<forall>k. copied (live (env_now e) (ctx_store (sctx s)) k) (live t (fstore w') k))"
proof -
  let ?fs = "map (snapshot_frame (env_fmt e)) (snapshot (env_now e) (ctx_store (sctx s)))"
  obtain s' where s': "execute_all (\<lambda>i. ev (applied w + i)) ?fs (replay_ctx store_new (frepl w)) = Some (replay_ctx s' (frepl w))"
    "store_inv s'" "\<And>k. copied (live (env_now e) (ctx_store (sctx s)) k) (live t s' k)"
    by (rule snapshot_replay [OF inv pr, of "\<lambda>i. ev (applied w + i)" "env_now e" "frepl w" t]) blast
  have run: "in_turn (apply_frame ev) ?fs w = Some (w\<lparr>applied := applied w + length ?fs, fstore := s'\<rparr>)"
    using s'(1) new by (intro in_turn_replay) (auto simp: snapshot_frame_data)
  have bytes: "map (snapshot_entry_to_resp fmt) es = map write_frame (map (snapshot_frame fmt) es)" for fmt es
    by (simp add: snapshot_entry_to_resp_def serialize_frame_def)
  have "\<exists>w'. replicate_from_leader ev chunks ([], w) = Some ([], w') \<and>
      w' = w\<lparr>applied := applied w + length ?fs, fstore := s'\<rparr>"
    using wf chunks quiet
    by (intro replica.feed_frames [OF _ _ _ _ _ run]) (auto simp: start_sync_def resp.dec_empty bytes)
  with s'(2,3) show ?thesis by auto
qed

end
