(* ===== verification/Server.thy ===== *)
theory Server
  imports Replica
begin

text \<open>
  The process: the accept loop \<open>Server::run\<close> of \<open>src/network/mod.rs\<close> as a machine over events, and the
  start-up of \<open>src/main.rs\<close>. The connections share one context; an event is one turn of one task, so a
  sequence of events is an interleaving of the tasks.
\<close>

section \<open>The accept loop and its connections\<close>

record server =
  shared :: ctx
  conns :: "(nat \<times> bytes \<times> session) list"
  accepted :: nat

text \<open>A new connection, a chunk read on one, and one turn of a replica stream.\<close>

datatype server_event = Accept | Receive nat bytes "nat \<Rightarrow> env" | Forward nat

definition map_metrics :: "(metrics \<Rightarrow> metrics) \<Rightarrow> ctx \<Rightarrow> ctx" where
  "map_metrics f c = c\<lparr>cmetrics := map_option f (cmetrics c)\<rparr>"

text \<open>After a turn: the shared context is the one the turn left, a finished connection is counted off.\<close>

definition settle :: "nat \<Rightarrow> bytes \<Rightarrow> session \<Rightarrow> server \<Rightarrow> server" where
  "settle i buf se s =
     (if phase se = Closed
      then s\<lparr>shared := map_metrics conn_close (sctx se), conns := AList.delete i (conns s)\<rparr>
      else s\<lparr>shared := sctx se, conns := AList.update i (buf, se) (conns s)\<rparr>)"

fun server_step :: "server_event \<Rightarrow> server \<Rightarrow> server option" where
  "server_step Accept s =
     (let c = map_metrics conn_open (shared s)
      in Some (s\<lparr>shared := c, conns := AList.update (accepted s) ([], new_session c) (conns s), accepted := accepted s + 1\<rparr>))"
| "server_step (Receive i chunk ev) s =
     (case map_of (conns s) i of
        None \<Rightarrow> Some s
      | Some (buf, se) \<Rightarrow>
          (case handle_read ev chunk (buf, se\<lparr>sctx := shared s\<rparr>) of
             None \<Rightarrow> None
           | Some (buf', se') \<Rightarrow> Some (settle i buf' se' s)))"
| "server_step (Forward i) s =
     (case map_of (conns s) i of
        None \<Rightarrow> Some s
      | Some (buf, se) \<Rightarrow> Some (settle i buf (sync_forward (se\<lparr>sctx := shared s\<rparr>)) s))"

text \<open>The shuffle of the \<open>rand\<close> crate permutes.\<close>

fun event_ok :: "server_event \<Rightarrow> bool" where
  "event_ok (Receive i chunk ev) \<longleftrightarrow> (\<forall>n. rand_ok (ev n))"
| "event_ok _ \<longleftrightarrow> True"

inductive reachable :: "server \<Rightarrow> server \<Rightarrow> bool" for s0 where
  start: "reachable s0 s0"
| step: "reachable s0 s \<Longrightarrow> event_ok a \<Longrightarrow> server_step a s = Some s' \<Longrightarrow> reachable s0 s'"

section \<open>Start-up\<close>

record cli_args =
  arg_host :: bytes
  arg_port :: nat
  arg_aof :: "bytes option"
  replicaof :: "bytes option"
  raft_addr :: "bytes option"
  arg_peers :: "bytes option"
  cluster_nodes :: "bytes option"
  cluster_self :: "bytes option"
  metrics_addr :: bytes
  no_metrics :: bool

text \<open>What is running after the start: the server and the tasks beside it.\<close>

record process =
  main_server :: server
  raft_task :: "raft_node option"
  follower_task :: "bytes option"
  heartbeat_task :: "bytes option"
  metrics_task :: "bytes option"

definition boot_repl :: "cli_args \<Rightarrow> replication" where
  "boot_repl a = (case replicaof a of Some leader \<Rightarrow> new_follower leader | None \<Rightarrow> new_leader)"

text \<open>The replay of the file at the given path (\<open>files\<close>), and the file opened for appending.\<close>

definition boot_store :: "(nat \<Rightarrow> env) \<Rightarrow> (bytes \<Rightarrow> bytes option) \<Rightarrow> cli_args \<Rightarrow> (db \<times> replication) option" where
  "boot_store ev files a =
     (case arg_aof a of
        None \<Rightarrow> Some (\<lparr>kv = store_new, journal = None\<rparr>, boot_repl a)
      | Some path \<Rightarrow>
          (case execute_all ev (load_frames (files path)) (replay_ctx store_new (boot_repl a)) of
             None \<Rightarrow> None
           | Some c \<Rightarrow>
               Some (\<lparr>kv = ctx_store c,
                      journal = Some \<lparr>aof_file = (case files path of Some b \<Rightarrow> b | None \<Rightarrow> []), aof_path = path\<rparr>\<rparr>, repl c)))"

definition boot_raft :: "nat \<Rightarrow> nat \<Rightarrow> cli_args \<Rightarrow> raft_node option" where
  "boot_raft now ms a =
     (case (raft_addr a, arg_peers a) of
        (Some addr, Some ps) \<Rightarrow> Some (start_raft now ms addr (split_nodes ps))
      | _ \<Rightarrow> None)"

definition boot_cluster ::
  "nat \<Rightarrow> cli_args \<Rightarrow> (config_error + (cluster_config \<times> health_table \<times> bytes) option) option" where
  "boot_cluster now a =
     (case (cluster_nodes a, cluster_self a) of
        (Some ns, Some me) \<Rightarrow>
          (case cluster_new (split_nodes ns) me of
             None \<Rightarrow> None
           | Some (Inl err) \<Rightarrow> Some (Inl err)
           | Some (Inr cfg) \<Rightarrow>
               Some (Inr (Some (cfg, health_new now (filter (\<lambda>n. n \<noteq> me) (split_nodes ns)), me))))
      | _ \<Rightarrow> Some (Inr None))"

definition boot ::
  "(nat \<Rightarrow> env) \<Rightarrow> nat \<Rightarrow> nat \<Rightarrow> (bytes \<Rightarrow> bytes option) \<Rightarrow> cli_args \<Rightarrow> (config_error + process) option" where
  "boot ev now ms files a =
     (case boot_store ev files a of
        None \<Rightarrow> None
      | Some (d, r) \<Rightarrow>
          (case boot_cluster now a of
             None \<Rightarrow> None
           | Some (Inl err) \<Rightarrow> Some (Inl err)
           | Some (Inr cl) \<Rightarrow>
               Some (Inr
                 \<lparr>main_server =
                    \<lparr>shared =
                       \<lparr>cdb = d, repl = r,
                        raft = map_option (\<lambda>n. \<lparr>raft_is_leader = leader_flag n, raft_leader = leader_id n\<rparr>) (boot_raft now ms a),
                        cluster = map_option fst cl, chealth = map_option (\<lambda>x. fst (snd x)) cl,
                        cmetrics = Some (metrics_new now (arg_host a) (arg_port a)), is_replica_replay = False, sent = []\<rparr>,
                     conns = [], accepted = 0\<rparr>,
                  raft_task = boot_raft now ms a,
                  follower_task = (if boot_raft now ms a = None then replicaof a else None),
                  heartbeat_task = map_option (\<lambda>x. snd (snd x)) cl,
                  metrics_task = (if no_metrics a then None else Some (metrics_addr a))\<rparr>)))"

section \<open>The counters of the connections\<close>

text \<open>Commands leave the counters alone but for \<open>record_cmd\<close>.\<close>

lemma metrics_send: "cmetrics (snd (send_internal e a f c)) = cmetrics c" "cmetrics (snd (proxy_to e a f c)) = cmetrics c"
  by (simp_all add: send_internal_def proxy_to_def)

lemma metrics_send_all: "cmetrics (send_all e f as c) = cmetrics c"
  by (induction as arbitrary: c) (simp_all add: metrics_send)

lemma metrics_push_loop: "cmetrics (snd (push_loop e a es n c)) = cmetrics c"
  by (induction es arbitrary: n c rule: list.induct) (auto simp: Let_def split: call_result.split prod.split)

lemma metrics_push: "cmetrics (snd (push_entries_to e a es c)) = cmetrics c"
proof -
  obtain n c' where x: "push_loop e a es 0 c = (n, c')" by fastforce
  with metrics_push_loop [of e a es 0 c] show ?thesis by (cases n) (simp_all add: push_entries_to_def)
qed

lemma metrics_move: "cmetrics (snd (move_slots e ts n c)) = cmetrics c"
  by (induction e ts n c rule: move_slots.induct) (auto simp: case_prod_unfold metrics_push with_store_def)

lemma metrics_rebalance: "rebalance e old new me c = Some (r, c') \<Longrightarrow> cmetrics c' = cmetrics c"
  by (auto simp: rebalance_def metrics_move split: option.splits sum.splits)

lemma metrics_meet: "cluster_meet e args c = Some (r, c') \<Longrightarrow> cmetrics c' = cmetrics c"
  by (auto simp: cluster_meet_def Let_def metrics_send metrics_send_all dest!: metrics_rebalance split: option.splits if_splits)

lemma metrics_sync: "cluster_sync e args c = Some (r, c') \<Longrightarrow> cmetrics c' = cmetrics c"
  by (auto simp: cluster_sync_def Let_def dest!: metrics_rebalance split: option.splits if_splits)

lemma metrics_drain: "cluster_drain e args c = Some (r, c') \<Longrightarrow> cmetrics c' = cmetrics c"
  by (auto simp: cluster_drain_def Let_def case_prod_unfold metrics_move split: option.splits if_splits)

lemma metrics_forget: "cluster_forget e args c = Some (r, c') \<Longrightarrow> cmetrics c' = cmetrics c"
  by (auto simp: cluster_forget_def Let_def case_prod_unfold metrics_send metrics_send_all
      split: option.splits if_splits sum.splits frame.splits)

lemma metrics_cluster: "cmd_cluster e args c = Some (r, c') \<Longrightarrow> cmetrics c' = cmetrics c"
  by (auto simp: cmd_cluster_def Let_def cluster_gossip_def metrics_meet metrics_sync metrics_drain metrics_forget
      split: option.splits if_splits)

lemma metrics_migrate: "cmetrics (snd (cmd_migrate e args c)) = cmetrics c"
  by (auto simp: cmd_migrate_def Let_def send_internal_def case_prod_unfold with_store_def split: option.splits frame.splits)

lemma dispatch_metrics:
  assumes "dispatch cmd e args c = Some (r, c')"
  shows "cmetrics c' = cmetrics c"
proof -
  have entries: "map_of dispatch_table ''CLUSTER'' = Some cmd_cluster"
    "map_of dispatch_table ''MIGRATE'' = Some (\<lambda>e args c. Some (cmd_migrate e args c))" by (simp_all add: table_defs)
  show ?thesis
  proof (cases "cmd \<in> {''CLUSTER'', ''MIGRATE''}")
    case True
    then show ?thesis using assms metrics_migrate [of e args c]
      by (auto simp: dispatch_def entries metrics_cluster)
  next
    case False
    from dispatch_data [OF assms False] show ?thesis by (metis ctx.select_convs(6) ctx.surjective ctx.update_convs(1))
  qed
qed

lemma run_local_metrics:
  assumes "run_local e cmd args c = Some (r, c')"
  shows "cmetrics c' = cmetrics c \<or> (\<exists>b. cmetrics c' = map_option (record_cmd cmd b) (cmetrics c))"
  using assms by (auto simp: run_local_def Let_def split: option.splits if_splits dest!: dispatch_metrics)

lemma execute_metrics:
  assumes "execute e f c = Some (r, c')"
  shows "cmetrics c' = cmetrics c \<or> (\<exists>cmd b. cmetrics c' = map_option (record_cmd cmd b) (cmetrics c))"
proof -
  have "cmetrics c' = cmetrics c \<or> (\<exists>args cmd. run_local e cmd args c = Some (r, c'))"
    using assms
    by (auto simp: execute_def proxy_to_def split: frame.splits option.splits sum.splits if_splits)
  with run_local_metrics show ?thesis by blast
qed

lemma record_cmd_conns:
  "connections_active (record_cmd cmd b m) = connections_active m" "connections_total (record_cmd cmd b m) = connections_total m"
  by (simp_all add: record_cmd_def Let_def)

text \<open>What the shared context keeps: a well-formed store, and counters that agree with each other.\<close>

definition ctx_ok :: "i64 \<Rightarrow> nat \<Rightarrow> ctx \<Rightarrow> bool" where
  "ctx_ok act tot c \<longleftrightarrow> store_inv (ctx_store c) \<and>
     (\<exists>m. cmetrics c = Some m \<and> metrics_inv m \<and> connections_active m = act \<and> connections_total m = tot)"

lemma ctx_ok_execute:
  assumes "ctx_ok act tot c" and "rand_ok e" and "execute e f c = Some (r, c')"
  shows "ctx_ok act tot c'"
proof -
  have "keeps_inv e (cdb c) (cdb c')" by (rule inv.execute_R [OF assms(3)]) simp
  then have "store_inv (ctx_store c')" using assms(1,2) by (simp add: keeps_inv_def ctx_ok_def)
  with assms(1) execute_metrics [OF assms(3)] show ?thesis
    by (auto simp: ctx_ok_def record_cmd_conns record_cmd_inv)
qed

lemma serve_ctx:
  assumes "\<And>i f c r c'. P c \<Longrightarrow> execute (ev i) f c = Some (r, c') \<Longrightarrow> P c'"
    and "P (sctx s)" and "serve ev buf s = Some (buf', s')"
  shows "P (sctx s')"
  using assms
proof (induction ev buf s rule: serve.induct)
  case (1 ev buf s)
  show ?case
  proof (cases "parse_frame buf")
    case (Inr x)
    show ?thesis
    proof (cases x)
      case (Some y)
      obtain f n where y: "y = (f, n)" by fastforce
      show ?thesis
      proof (cases "is_sync_command f")
        case True
        then show ?thesis using 1(3,4) Inr Some y by (subst (asm) serve.simps) (auto simp: start_sync_def flush_out_def)
      next
        case False
        then obtain r c where x: "execute (ev (served s)) f (sctx s) = Some (r, c)"
          "serve ev (drop n buf) (s\<lparr>sctx := c, served := served s + 1, outbuf := write_frame_into (outbuf s) r\<rparr>) = Some (buf', s')"
          using 1(4) Inr Some y by (subst (asm) serve.simps) (auto split: option.splits)
        have "P c" by (rule 1(2) [OF 1(3) x(1)])
        with "1.IH" [OF Inr Some y [symmetric] False x(1) refl 1(2) _ x(2)] show ?thesis by simp
      qed
    qed (use 1(3,4) Inr in \<open>subst (asm) serve.simps, simp\<close>)
  qed (use 1(3,4) in \<open>subst (asm) serve.simps, auto\<close>)
qed

lemma handle_read_ctx:
  assumes "\<And>i f c r c'. P c \<Longrightarrow> execute (ev i) f c = Some (r, c') \<Longrightarrow> P c'" and "P (sctx s)"
    and "handle_read ev chunk (buf, s) = Some (buf', s')"
  shows "P (sctx s')"
proof -
  have "P (sctx s1)" if "serve ev (buf @ chunk) s = Some (b, s1)" for b s1
    by (rule serve_ctx [where P = P, OF _ assms(2) that]) (rule assms(1))
  with assms(2,3) show ?thesis by (auto simp: handle_read_def flush_out_def split: if_splits option.splits)
qed

lemma sync_forward_ctx: "sctx (sync_forward s) = sctx s"
  by (simp add: sync_forward_def split: phase.split recv_result.split)

section \<open>The invariant of the server\<close>

definition server_inv :: "server \<Rightarrow> bool" where
  "server_inv s \<longleftrightarrow> distinct (map fst (conns s)) \<and> (\<forall>x \<in> set (conns s). fst x < accepted s) \<and>
     ctx_ok (i64_wrap (int (length (conns s)))) (accepted s mod 2 ^ 64) (shared s)"

lemma i64_wrap_add: "i64_wrap (i64_wrap n + k) = i64_wrap (n + k)"
  by (simp add: i64_wrap_def mod_simps algebra_simps)

lemma length_delete_key:
  assumes "distinct (map fst al)" and "k \<in> fst ` set al"
  shows "length al = length (AList.delete k al) + 1"
proof -
  have "map fst (AList.delete k al) = remove1 k (map fst al)"
    using assms(1) by (simp add: delete_keys distinct_remove1_removeAll)
  then have "length (map fst (AList.delete k al)) = length (map fst al) - 1"
    using assms(2) by (simp only: length_remove1) simp
  with assms(2) show ?thesis by (cases al) auto
qed

lemma length_update_key:
  "length (AList.update k v al) = length al + (if k \<in> fst ` set al then 0 else 1)"
  using arg_cong [OF update_keys [of k v al], of length] by (simp split: if_splits)

lemma settle_inv:
  assumes inv: "server_inv s" and i: "i \<in> fst ` set (conns s)"
    and ok: "ctx_ok (i64_wrap (int (length (conns s)))) (accepted s mod 2 ^ 64) (sctx se)"
  shows "server_inv (settle i buf se s)"
proof (cases "phase se = Closed")
  case True
  have d: "distinct (map fst (conns s))" using inv by (simp add: server_inv_def)
  have "i64_wrap (i64_wrap (int (length (conns s))) - 1) = i64_wrap (int (length (AList.delete i (conns s))))"
    using i64_wrap_add [of "int (length (conns s))" "- 1"] length_delete_key [OF d i] by simp
  with ok have "ctx_ok (i64_wrap (int (length (AList.delete i (conns s))))) (accepted s mod 2 ^ 64) (map_metrics conn_close (sctx se))"
    by (auto simp: ctx_ok_def map_metrics_def conn_inv) (simp_all add: conn_close_def)
  moreover have "set (AList.delete i (conns s)) \<subseteq> set (conns s)" by (auto simp: AList.delete_eq)
  ultimately show ?thesis
    using True inv by (auto simp: settle_def server_inv_def intro: distinct_delete)
next
  case False
  have "i < accepted s" using inv i by (force simp: server_inv_def)
  moreover have "x = (i, buf, se) \<or> x \<in> set (conns s)" if "x \<in> set (AList.update i (buf, se) (conns s))" for x
    using that set_update_subset [of i "(buf, se)" "conns s"] by blast
  moreover have "\<forall>x \<in> set (conns s). fst x < accepted s" using inv by (simp add: server_inv_def)
  ultimately have "fst x < accepted s" if "x \<in> set (AList.update i (buf, se) (conns s))" for x
    using that by (cases x) fastforce
  with False inv ok i show ?thesis
    by (simp add: settle_def server_inv_def length_update_key distinct_update)
qed

lemma server_step_inv:
  assumes inv: "server_inv s" and "event_ok a" and "server_step a s = Some s'"
  shows "server_inv s'"
proof (cases a)
  case Accept
  let ?c = "map_metrics conn_open (shared s)"
  have fresh: "accepted s \<notin> fst ` set (conns s)" using inv by (auto simp: server_inv_def)
  have "ctx_ok (i64_wrap (int (length (conns s)) + 1)) ((accepted s + 1) mod 2 ^ 64) ?c"
    using inv by (auto simp: server_inv_def ctx_ok_def map_metrics_def conn_inv)
      (simp_all add: conn_open_def i64_wrap_add u64_add1_def mod_simps)
  moreover have "fst x < accepted s + 1" if "x \<in> set (AList.update (accepted s) ([], new_session ?c) (conns s))" for x
    using that set_update_subset [of "accepted s" "([], new_session ?c)" "conns s"] inv by (auto simp: server_inv_def less_SucI)
  ultimately show ?thesis
    using assms(3) Accept inv fresh
    by (auto simp: Let_def server_inv_def length_update_key distinct_update algebra_simps)
next
  case (Receive i chunk ev)
  show ?thesis
  proof (cases "map_of (conns s) i")
    case (Some x)
    obtain buf se where x: "x = (buf, se)" by fastforce
    obtain buf' se' where r: "handle_read ev chunk (buf, se\<lparr>sctx := shared s\<rparr>) = Some (buf', se')"
      and s': "s' = settle i buf' se' s"
      using assms(3) Receive Some x by (auto split: option.splits)
    have "ctx_ok (i64_wrap (int (length (conns s)))) (accepted s mod 2 ^ 64) (sctx se')"
    proof (rule handle_read_ctx [where P = "ctx_ok (i64_wrap (int (length (conns s)))) (accepted s mod 2 ^ 64)", OF _ _ r])
      show "ctx_ok (i64_wrap (int (length (conns s)))) (accepted s mod 2 ^ 64) (sctx (se\<lparr>sctx := shared s\<rparr>))"
        using inv by (simp add: server_inv_def)
    qed (use assms(2) Receive in \<open>auto intro: ctx_ok_execute\<close>)
    with Some s' inv show ?thesis by (auto intro!: settle_inv dest: map_of_SomeD intro: rev_image_eqI)
  qed (use assms Receive in simp)
next
  case (Forward i)
  show ?thesis
  proof (cases "map_of (conns s) i")
    case (Some x)
    obtain buf se where x: "x = (buf, se)" by fastforce
    then have "s' = settle i buf (sync_forward (se\<lparr>sctx := shared s\<rparr>)) s" using assms(3) Forward Some by simp
    moreover have "ctx_ok (i64_wrap (int (length (conns s)))) (accepted s mod 2 ^ 64) (sctx (sync_forward (se\<lparr>sctx := shared s\<rparr>)))"
      using inv by (simp add: sync_forward_ctx server_inv_def)
    ultimately show ?thesis using Some inv by (auto intro!: settle_inv dest: map_of_SomeD intro: rev_image_eqI)
  qed (use assms Forward in simp)
qed

lemma reachable_inv: "reachable s0 s \<Longrightarrow> server_inv s0 \<Longrightarrow> server_inv s"
  by (induction rule: reachable.induct) (auto intro: server_step_inv)

end
