(* ===== verification/Raft_Loop.thy ===== *)
theory Raft_Loop
  imports Raft
begin

text \<open>
  The event loop \<open>run_node\<close> of \<open>src/consensus/mod.rs\<close>, one turn per event, and the two ends of an RPC
  connection (\<open>run_rpc_server\<close>, \<open>send_rpc_to\<close>); what a turn keeps, and what a run applies to the state
  machine.
\<close>

section \<open>The loop\<close>

datatype raft_event =
    Wakeup
  | Incoming raft_rpc
  | VoteReply raft_rpc
  | AppendReply bytes raft_rpc
  | Propose nat bytes

text \<open>What a turn sends: requests to peers, the reply to an incoming RPC, replies to clients.\<close>

record raft_out =
  out_rpcs :: "(bytes \<times> raft_rpc) list"
  out_reply :: "raft_rpc option"
  out_clients :: "(nat \<times> frame) list"

definition silent :: raft_out where
  "silent = \<lparr>out_rpcs = [], out_reply = None, out_clients = []\<rparr>"

text \<open>The arms of \<open>select!\<close>.\<close>

definition on_wakeup :: "nat \<Rightarrow> nat \<Rightarrow> raft_node \<Rightarrow> (bytes \<times> raft_rpc) list \<times> raft_node" where
  "on_wakeup now ms n =
     (if nrole n = Leader then send_heartbeats now n
      else if now \<ge> election_deadline n then start_election now ms n
      else ([], n))"

definition on_proposal :: "nat \<Rightarrow> bytes \<Rightarrow> raft_node \<Rightarrow> raft_out \<times> raft_node" where
  "on_proposal client cmd n =
     (if nrole n = Leader
      then (case append_proposal client cmd n of (rpcs, n') \<Rightarrow> (silent\<lparr>out_rpcs := rpcs\<rparr>, n'))
      else (silent\<lparr>out_clients :=
              [(client, Error (''MOVED '' @ (case leader_id n of Some l \<Rightarrow> l | None \<Rightarrow> [])))]\<rparr>, n))"

fun handle_event :: "nat \<Rightarrow> nat \<Rightarrow> raft_event \<Rightarrow> raft_node \<Rightarrow> raft_out \<times> raft_node" where
  "handle_event now ms Wakeup n = (case on_wakeup now ms n of (rpcs, n') \<Rightarrow> (silent\<lparr>out_rpcs := rpcs\<rparr>, n'))"
| "handle_event now ms (Incoming (RequestVote t c li lt)) n =
     (case handle_request_vote now ms t c li lt n of (r, n') \<Rightarrow> (silent\<lparr>out_reply := Some r\<rparr>, n'))"
| "handle_event now ms (Incoming (AppendEntries t l pi pt es lc)) n =
     (case handle_append_entries now ms t l pi pt es lc n of (r, n') \<Rightarrow> (silent\<lparr>out_reply := Some r\<rparr>, n'))"
| "handle_event now ms (Incoming _) n = (silent, n)"
| "handle_event now ms (VoteReply r) n = (silent, handle_vote_response now ms r n)"
| "handle_event now ms (AppendReply p r) n = (silent, handle_append_response now ms p r n)"
| "handle_event now ms (Propose client cmd) n = on_proposal client cmd n"

text \<open>An RPC the node does not expect skips the rest of the turn.\<close>

fun skips :: "raft_event \<Rightarrow> bool" where
  "skips (Incoming (RequestVoteResp _ _)) \<longleftrightarrow> True"
| "skips (Incoming (AppendEntriesResp _ _ _)) \<longleftrightarrow> True"
| "skips _ \<longleftrightarrow> False"

definition run_node ::
  "(frame \<Rightarrow> 's \<Rightarrow> frame \<times> 's) \<Rightarrow> nat \<Rightarrow> nat \<Rightarrow> raft_event \<Rightarrow> raft_node \<times> 's \<Rightarrow> (raft_out \<times> raft_node \<times> 's) option" where
  "run_node f now ms a st =
     (case st of (n, s) \<Rightarrow>
        if skips a then Some (silent, n, s)
        else case handle_event now ms a n of (out, n1) \<Rightarrow>
          (case apply_committed f n1 s of
             None \<Rightarrow> None
           | Some (rs, n2, s2) \<Rightarrow> Some (out\<lparr>out_clients := out_clients out @ rs\<rparr>, n2, s2)))"

section \<open>An RPC connection\<close>

text \<open>The server's end after a read: wait for more, close, or hand an RPC to the node.\<close>

datatype rpc_read = More | Drop | Got raft_rpc

definition rpc_server_read :: "bytes \<Rightarrow> rpc_read" where
  "rpc_server_read buf =
     (case parse_frame buf of
        Inr (Some (f, _)) \<Rightarrow> (case frame_to_rpc f of Some rpc \<Rightarrow> Got rpc | None \<Rightarrow> Drop)
      | Inr None \<Rightarrow> More
      | Inl _ \<Rightarrow> Drop)"

text \<open>
  The sender's end: the reads so far, one chunk after the other, until a frame is there. \<open>None\<close> is the
  timeout, and a frame that is no RPC.
\<close>

fun send_rpc_to :: "bytes \<Rightarrow> bytes list \<Rightarrow> raft_rpc option" where
  "send_rpc_to buf [] = None"
| "send_rpc_to buf (chunk # chunks) =
     (case parse_frame (buf @ chunk) of
        Inr (Some (f, _)) \<Rightarrow> frame_to_rpc f
      | _ \<Rightarrow> send_rpc_to (buf @ chunk) chunks)"

section \<open>What a turn keeps\<close>

lemmas handler_defs = handle_request_vote_def handle_append_entries_def handle_vote_response_def
  handle_append_response_def on_wakeup_def on_proposal_def append_proposal_def start_election_def
  send_heartbeats_def become_leader_def step_down_def set_leader_def reset_election_timeout_def Let_def

lemma try_advance_same [simp]:
  "node_name (try_advance_commit n) = node_name n" "peers (try_advance_commit n) = peers n"
  "current_term (try_advance_commit n) = current_term n" "voted_for (try_advance_commit n) = voted_for n"
  "nrole (try_advance_commit n) = nrole n" "votes_received (try_advance_commit n) = votes_received n"
  "log (try_advance_commit n) = log n" "last_applied (try_advance_commit n) = last_applied n"
  "leader_flag (try_advance_commit n) = leader_flag n"
  by (simp_all add: try_advance_commit_def split: option.split)

text \<open>The part of a node that elections depend on.\<close>

definition ballot :: "raft_node \<Rightarrow> bytes \<times> bytes list \<times> nat \<times> bytes option \<times> role \<times> nat" where
  "ballot n = (node_name n, peers n, current_term n, voted_for n, nrole n, votes_received n)"

definition apply_entry :: "(frame \<Rightarrow> 's \<Rightarrow> frame \<times> 's) \<Rightarrow> log_entry \<Rightarrow> 's \<Rightarrow> frame \<times> 's" where
  "apply_entry f e s =
     (case parse_frame (command e) of
        Inr (Some (fr, _)) \<Rightarrow> f fr s
      | _ \<Rightarrow> (Error ''ERR corrupt log entry'', s))"

lemma apply_committed_step:
  assumes "last_applied n < commit_index n" and "Suc (last_applied n) < length (log n)"
  shows "apply_committed f n s =
    (let i = Suc (last_applied n); x = apply_entry f (log n ! i) s;
         reply = (case map_of (pending n) i of Some c \<Rightarrow> [(c, fst x)] | None \<Rightarrow> [])
     in map_option (\<lambda>(rs, r). (reply @ rs, r))
          (apply_committed f (n\<lparr>last_applied := i, pending := AList.delete i (pending n)\<rparr>) (snd x)))"
  using assms
  by (subst apply_committed.simps) (auto simp: Let_def apply_entry_def case_prod_unfold split: option.split sum.split)

lemma apply_committed_stop: "commit_index n \<le> last_applied n \<Longrightarrow> apply_committed f n s = Some ([], n, s)"
  by (subst apply_committed.simps) simp

lemma apply_committed_panics:
  "last_applied n < commit_index n \<Longrightarrow> length (log n) \<le> last_applied n + 1 \<Longrightarrow> apply_committed f n s = None"
  by (subst apply_committed.simps) simp

text \<open>
  The committed entries that are not applied yet, in log order, and nothing else. The loop ends
  without a panic whenever the commit index is an index of the log.
\<close>

lemma apply_committed_spec:
  assumes "commit_index n < length (log n)"
  shows "\<exists>rs pend. apply_committed f n s =
    Some (rs, n\<lparr>last_applied := max (last_applied n) (commit_index n), pending := pend\<rparr>,
      fold (\<lambda>e s. snd (apply_entry f e s)) (drop (last_applied n + 1) (take (commit_index n + 1) (log n))) s)"
  using assms
proof (induction "commit_index n - last_applied n" arbitrary: n s)
  case 0
  then show ?case by (auto simp: apply_committed_stop max_def intro!: exI [of _ "pending n"])
next
  case (Suc k)
  let ?i = "Suc (last_applied n)"
  let ?n = "n\<lparr>last_applied := ?i, pending := AList.delete ?i (pending n)\<rparr>"
  let ?x = "apply_entry f (log n ! ?i) s"
  have lt: "last_applied n < commit_index n" "?i < length (log n)" using Suc(2,3) by linarith+
  have split: "drop ?i (take (Suc (commit_index n)) (log n)) =
      log n ! ?i # drop (Suc ?i) (take (Suc (commit_index n)) (log n))"
    using lt by (subst Cons_nth_drop_Suc [symmetric]) (simp_all add: nth_take)
  obtain rs pend where "apply_committed f ?n (snd ?x) =
      Some (rs, ?n\<lparr>last_applied := max ?i (commit_index n), pending := pend\<rparr>,
        fold (\<lambda>e s. snd (apply_entry f e s)) (drop (Suc ?i) (take (Suc (commit_index n)) (log n))) (snd ?x))"
  proof -
    have "k = commit_index ?n - last_applied ?n" "commit_index ?n < length (log ?n)" using Suc(2,3) by simp_all
    from Suc(1) [OF this, of "snd ?x"] that show thesis by auto
  qed
  with lt show ?case
    by (subst apply_committed_step [OF lt]) (auto simp: Let_def split max_def)
qed

lemma apply_committed_keeps:
  assumes "apply_committed f n s = Some (rs, n', s')"
  shows "\<exists>pend. n' = n\<lparr>last_applied := max (last_applied n) (commit_index n), pending := pend\<rparr>"
proof (cases "commit_index n < length (log n) \<or> commit_index n \<le> last_applied n")
  case True
  then show ?thesis
  proof
    assume "commit_index n < length (log n)"
    from apply_committed_spec [OF this, of f s] assms show ?thesis by auto
  next
    assume "commit_index n \<le> last_applied n"
    with assms show ?thesis by (auto simp: apply_committed_stop max_def intro: exI [of _ "pending n"])
  qed
next
  case False
  have "apply_committed f n s = None" using False
  proof (induction "commit_index n - last_applied n" arbitrary: n s)
    case (Suc k)
    show ?case
    proof (cases "Suc (last_applied n) < length (log n)")
      case True
      let ?i = "Suc (last_applied n)"
      have "apply_committed f (n\<lparr>last_applied := ?i, pending := AList.delete ?i (pending n)\<rparr>) x = None" for x
        using Suc True by (intro Suc(1)) auto
      with Suc True show ?thesis by (subst apply_committed_step) (auto simp: Let_def)
    qed (use Suc in \<open>auto intro: apply_committed_panics\<close>)
  qed simp
  with assms show ?thesis by simp
qed

lemma run_node_cases:
  assumes "run_node f now ms a (n, s) = Some (out, n', s')"
  obtains (skipped) "skips a" "n' = n" "s' = s" "out = silent"
    | (turn) out1 n1 rs pend where "\<not> skips a" "handle_event now ms a n = (out1, n1)"
        "apply_committed f n1 s = Some (rs, n', s')" "out = out1\<lparr>out_clients := out_clients out1 @ rs\<rparr>"
        "n' = n1\<lparr>last_applied := max (last_applied n1) (commit_index n1), pending := pend\<rparr>"
proof (cases "skips a")
  case False
  obtain out1 n1 where h: "handle_event now ms a n = (out1, n1)" by fastforce
  with assms False obtain rs where rs: "apply_committed f n1 s = Some (rs, n', s')"
    "out = out1\<lparr>out_clients := out_clients out1 @ rs\<rparr>"
    by (auto simp: run_node_def split: option.splits)
  from apply_committed_keeps [OF rs(1)] turn [OF False h rs] show thesis by blast
qed (use assms skipped in \<open>auto simp: run_node_def\<close>)

text \<open>
  Between two turns every committed entry is applied. A turn then moves the commit index only to
  an index of the log, so the loop over the committed entries never runs past it.
\<close>

definition settled_node :: "raft_node \<Rightarrow> bool" where
  "settled_node n \<longleftrightarrow> commit_index n \<le> last_applied n"

lemma find_set: "find P xs = Some x \<Longrightarrow> x \<in> set xs"
  by (auto simp: find_Some_iff)

lemma commit_bound:
  assumes "handle_event now ms a n = (out, n')"
  shows "last_applied n' = last_applied n"
    and "commit_index n' = commit_index n \<or> commit_index n' < length (log n') \<or> commit_index n' = 0"
proof -
  show "last_applied n' = last_applied n"
    using assms by (cases "(now, ms, a, n)" rule: handle_event.cases)
      (auto simp: handler_defs case_prod_unfold split: if_splits raft_rpc.splits)
  have adv: "commit_index (try_advance_commit (n\<lparr>next_index := x, match_index := y\<rparr>)) = commit_index n \<or>
      commit_index (try_advance_commit (n\<lparr>next_index := x, match_index := y\<rparr>)) < length (log n)" for x y
    by (auto simp: try_advance_commit_def last_log_index_def dest!: find_set split: option.split)
  show "commit_index n' = commit_index n \<or> commit_index n' < length (log n') \<or> commit_index n' = 0"
    using assms by (cases "(now, ms, a, n)" rule: handle_event.cases)
      (auto simp: handler_defs last_log_index_def case_prod_unfold min_def split: if_splits raft_rpc.splits, metis adv)
qed

lemma run_node_total:
  assumes "settled_node n"
  shows "\<exists>out n' s'. run_node f now ms a (n, s) = Some (out, n', s') \<and> settled_node n'"
proof (cases "skips a")
  case False
  obtain out n1 where h: "handle_event now ms a n = (out, n1)" by fastforce
  have "commit_index n1 \<le> last_applied n1 \<or> commit_index n1 < length (log n1)"
    using commit_bound [OF h] assms by (auto simp: settled_node_def)
  then obtain rs n2 s2 where ap: "apply_committed f n1 s = Some (rs, n2, s2)"
    using apply_committed_spec [of n1 f s] apply_committed_stop [of n1 f s] by blast
  moreover have "settled_node n2" using apply_committed_keeps [OF ap] by (auto simp: settled_node_def)
  ultimately show ?thesis using h False by (simp add: run_node_def)
qed (use assms in \<open>simp add: run_node_def\<close>)

text \<open>Terms only grow, and within a term a vote is never taken back.\<close>

lemma vote_kept_event:
  assumes "handle_event now ms a n = (out, n')"
  shows "current_term n \<le> current_term n'"
    and "current_term n' = current_term n \<Longrightarrow> voted_for n \<noteq> None \<Longrightarrow> voted_for n' = voted_for n"
    and "node_name n' = node_name n" and "peers n' = peers n"
proof -
  have "current_term n \<le> current_term n' \<and> node_name n' = node_name n \<and> peers n' = peers n \<and>
      (current_term n' = current_term n \<and> voted_for n \<noteq> None \<longrightarrow> voted_for n' = voted_for n)"
    using assms by (cases "(now, ms, a, n)" rule: handle_event.cases)
      (auto simp: handler_defs case_prod_unfold split: if_splits raft_rpc.splits)
  then show "current_term n \<le> current_term n'"
    and "current_term n' = current_term n \<Longrightarrow> voted_for n \<noteq> None \<Longrightarrow> voted_for n' = voted_for n"
    and "node_name n' = node_name n" and "peers n' = peers n" by blast+
qed

lemma leader_flag_event:
  assumes "handle_event now ms a n = (out, n')" and "leader_flag n \<longleftrightarrow> nrole n = Leader"
  shows "leader_flag n' \<longleftrightarrow> nrole n' = Leader"
  using assms by (cases "(now, ms, a, n)" rule: handle_event.cases)
    (auto simp: handler_defs case_prod_unfold split: if_splits raft_rpc.splits)

lemma vote_kept:
  assumes "run_node f now ms a (n, s) = Some (out, n', s')"
  shows "current_term n \<le> current_term n'"
    and "current_term n' = current_term n \<Longrightarrow> voted_for n \<noteq> None \<Longrightarrow> voted_for n' = voted_for n"
    and "leader_flag n = (nrole n = Leader) \<Longrightarrow> leader_flag n' = (nrole n' = Leader)"
  using assms by (cases rule: run_node_cases; use vote_kept_event leader_flag_event in auto)+

section \<open>Merging entries into the log\<close>

lemma push_missing_spec: "idx \<le> length lg \<Longrightarrow> push_missing idx es lg = lg @ drop (length lg - idx) es"
proof (induction idx es lg rule: push_missing.induct)
  case (2 idx e es lg)
  show ?case
  proof (cases "idx = length lg")
    case False
    with 2(2) have "length lg - idx = Suc (length lg - Suc idx)" by linarith
    with False 2 show ?thesis by simp
  qed (use 2 in auto)
qed simp

definition agrees :: "nat \<Rightarrow> log_entry list \<Rightarrow> log_entry list \<Rightarrow> bool" where
  "agrees idx es lg \<longleftrightarrow> (\<forall>j < length es. idx + j < length lg \<longrightarrow> entry_term (lg ! (idx + j)) = entry_term (es ! j))"

lemma agrees_Cons:
  "agrees idx (e # es) lg \<longleftrightarrow> (idx < length lg \<longrightarrow> entry_term (lg ! idx) = entry_term e) \<and> agrees (Suc idx) es lg"
  by (auto simp: agrees_def less_Suc_eq_0_disj)

text \<open>The cut is at the first entry whose term differs.\<close>

lemma truncate_conflict_spec:
  "\<exists>j \<le> length es. truncate_conflict idx es lg = (if agrees idx es lg then lg else take (idx + j) lg) \<and>
     (\<not> agrees idx es lg \<longrightarrow> idx + j < length lg) \<and> agrees idx (take j es) lg"
proof (induction idx es lg rule: truncate_conflict.induct)
  case (2 idx e es lg)
  show ?case
  proof (cases "idx < length lg \<and> entry_term (lg ! idx) \<noteq> entry_term e")
    case True
    then show ?thesis by (auto simp: agrees_Cons intro!: exI [of _ 0]) (simp add: agrees_def)
  next
    case False
    then obtain j where "j \<le> length es"
      "truncate_conflict (idx + 1) es lg = (if agrees (idx + 1) es lg then lg else take (idx + 1 + j) lg)"
      "\<not> agrees (idx + 1) es lg \<longrightarrow> idx + 1 + j < length lg" "agrees (idx + 1) (take j es) lg"
      using 2 by blast
    with False show ?thesis by (intro exI [of _ "Suc j"]) (auto simp: agrees_Cons)
  qed
qed (auto simp: agrees_def)

lemma merge_entries_spec:
  assumes "prev < length lg"
  shows "\<exists>j \<le> length es. merge_entries prev es lg =
      (if agrees (prev + 1) es lg then lg @ drop (length lg - (prev + 1)) es else take (prev + 1 + j) lg @ drop j es) \<and>
    (\<not> agrees (prev + 1) es lg \<longrightarrow> prev + 1 + j < length lg) \<and> agrees (prev + 1) (take j es) lg"
proof -
  obtain j where j: "j \<le> length es"
    "truncate_conflict (prev + 1) es lg = (if agrees (prev + 1) es lg then lg else take (prev + 1 + j) lg)"
    "\<not> agrees (prev + 1) es lg \<longrightarrow> prev + 1 + j < length lg" "agrees (prev + 1) (take j es) lg"
    using truncate_conflict_spec by blast
  show ?thesis
  proof (cases "es = []")
    case True
    then show ?thesis by (simp add: merge_entries_def agrees_def)
  next
    case False
    have "agrees (prev + 1) es lg" if "\<not> prev + 1 < length lg" using that by (auto simp: agrees_def)
    with False j assms show ?thesis
      by (intro exI [of _ j]) (auto simp: merge_entries_def Let_def push_missing_spec min_def)
  qed
qed

lemma merge_entries_laws:
  assumes "prev < length lg"
  shows "take (prev + 1) (merge_entries prev es lg) = take (prev + 1) lg"
    and "prev + 1 + length es \<le> length (merge_entries prev es lg)"
    and "agrees (prev + 1) es (merge_entries prev es lg)"
    and "agrees (prev + 1) es lg \<Longrightarrow> take (length lg) (merge_entries prev es lg) = lg"
    and "merge_entries prev es (merge_entries prev es lg) = merge_entries prev es lg"
proof -
  obtain j where j: "j \<le> length es" "merge_entries prev es lg =
      (if agrees (prev + 1) es lg then lg @ drop (length lg - (prev + 1)) es else take (prev + 1 + j) lg @ drop j es)"
    "\<not> agrees (prev + 1) es lg \<longrightarrow> prev + 1 + j < length lg" "agrees (prev + 1) (take j es) lg"
    using merge_entries_spec [OF assms] by blast
  show keep: "take (prev + 1) (merge_entries prev es lg) = take (prev + 1) lg"
    and long: "prev + 1 + length es \<le> length (merge_entries prev es lg)"
    and "agrees (prev + 1) es lg \<Longrightarrow> take (length lg) (merge_entries prev es lg) = lg"
    using j assms by (auto simp: min_def)
  show ag: "agrees (prev + 1) es (merge_entries prev es lg)"
    unfolding agrees_def
  proof (intro allI impI)
    fix i assume i: "i < length es" "prev + 1 + i < length (merge_entries prev es lg)"
    show "entry_term (merge_entries prev es lg ! (prev + 1 + i)) = entry_term (es ! i)"
    proof (cases "agrees (prev + 1) es lg")
      case True
      with i assms j(2) show ?thesis by (auto simp: nth_append agrees_def add.assoc)
    next
      case False
      with i j show ?thesis by (cases "i < j") (auto simp: nth_append agrees_def min_def)
    qed
  qed
  have "prev < length (merge_entries prev es lg)" using long by linarith
  from merge_entries_spec [OF this, of es] ag long show "merge_entries prev es (merge_entries prev es lg) = merge_entries prev es lg"
    by auto
qed

section \<open>Messages over the wire\<close>

fun rpc_ok :: "raft_rpc \<Rightarrow> bool" where
  "rpc_ok (RequestVote t c li lt) \<longleftrightarrow> t < 2 ^ 64 \<and> is_utf8 c \<and> length c < 2 ^ 63 \<and> li < 2 ^ 64 \<and> lt < 2 ^ 64"
| "rpc_ok (RequestVoteResp t g) \<longleftrightarrow> t < 2 ^ 64"
| "rpc_ok (AppendEntries t l pi pt es lc) \<longleftrightarrow>
     t < 2 ^ 64 \<and> is_utf8 l \<and> length l < 2 ^ 63 \<and> pi < 2 ^ 64 \<and> pt < 2 ^ 64 \<and> lc < 2 ^ 64 \<and>
     length es < 2 ^ 62 - 6 \<and> (\<forall>e \<in> set es. entry_term e < 2 ^ 64 \<and> length (command e) < 2 ^ 63)"
| "rpc_ok (AppendEntriesResp t s m) \<longleftrightarrow> t < 2 ^ 64 \<and> m < 2 ^ 64"

lemma raft_args [simp]:
  "raft_bulk_str (Bulk (Some b) # args) 0 = Some (from_utf8_lossy b)"
  "raft_bulk_str (f # args) (Suc i) = raft_bulk_str args i"
  "raft_bulk_str (f # args) (numeral k) = raft_bulk_str args (numeral k - 1)"
  "parse_u64 (f # args) (Suc i) = parse_u64 args i"
  "parse_u64 (f # args) (numeral k) = parse_u64 args (numeral k - 1)"
  by (simp_all add: raft_bulk_str_def parse_u64_def nth_Cons')

lemma parse_u64_num [simp]: "n < 2 ^ 64 \<Longrightarrow> parse_u64 (bulk_num n # args) 0 = Some n"
  by (simp add: parse_u64_def bulk_num_def bulk_str_def from_utf8_lossy_id is_utf8_show_nat trim_show_nat parse_unsigned_show_nat)

lemma parse_entries_frames:
  "\<forall>e \<in> set es. entry_term e < 2 ^ 64 \<Longrightarrow>
     parse_entries (concat (map (\<lambda>e. [bulk_num (entry_term e), Bulk (Some (command e))]) es)) = Some es"
  by (induction es) simp_all

lemma raft_tags: "is_utf8 ''RAFT_REQVOTE''" "is_utf8 ''RAFT_VOTERESP''" "is_utf8 ''RAFT_APPEND''" "is_utf8 ''RAFT_APPENDRESP''"
  "is_utf8 ''1''" "is_utf8 ''0''"
  by code_simp+

lemma rpc_codec:
  assumes "rpc_ok r"
  shows "frame_to_rpc (rpc_to_frame r) = Some r"
  using assms
  by (cases r) (auto simp: frame_to_rpc_def array_def bulk_str_def bulk_flag_def from_utf8_lossy_id raft_tags parse_entries_frames)

lemma show_nat_length: "n < 10 ^ Suc k \<Longrightarrow> length (show_nat n) \<le> Suc k"
proof (induction k arbitrary: n)
  case 0
  then show ?case by (subst show_nat.simps) simp
next
  case (Suc k)
  show ?case
  proof (cases "n < 10")
    case False
    have "n div 10 < 10 ^ Suc k" using Suc.prems by (simp add: less_mult_imp_div_less mult.commute)
    with Suc.IH [of "n div 10"] False show ?thesis by (subst show_nat.simps) simp
  qed (subst show_nat.simps, simp)
qed

lemma wf_bulk_num: "n < 2 ^ 64 \<Longrightarrow> wf_frame (bulk_num n)"
  using show_nat_length [of n 19] by (simp add: bulk_num_def bulk_str_def)

lemma length_entry_frames: "length (concat (map (\<lambda>e. [x e, y e]) es)) = 2 * length es"
  by (induction es) simp_all

lemma wf_rpc:
  assumes "rpc_ok r"
  shows "wf_frame (rpc_to_frame r)"
proof (cases r)
  case (AppendEntries t l pi pt es lc)
  have "wf_frame (bulk_num (entry_term e))" if "e \<in> set es" for e
    using that assms AppendEntries by (intro wf_bulk_num) simp
  with assms AppendEntries show ?thesis
    by (auto simp: array_def wf_bulk_num bulk_str_def list_all_iff length_entry_frames)
qed (use assms in \<open>auto simp: array_def wf_bulk_num bulk_str_def bulk_flag_def\<close>)

lemma rpc_delivered:
  assumes "rpc_ok r"
  shows "rpc_server_read (serialize_frame (rpc_to_frame r)) = Got r"
    and "serialize_frame (rpc_to_frame r) = p @ q \<Longrightarrow> q \<noteq> [] \<Longrightarrow> rpc_server_read p = More"
  using parse_frame_write [OF wf_rpc [OF assms], of "[]"] rpc_codec [OF assms] parse_frame_prefix [OF wf_rpc [OF assms]]
  by (simp_all add: rpc_server_read_def serialize_frame_def)

lemma rpc_answered:
  assumes "rpc_ok r"
  shows "buf @ concat chunks = serialize_frame (rpc_to_frame r) \<Longrightarrow> chunks \<noteq> [] \<Longrightarrow> send_rpc_to buf chunks = Some r"
proof (induction chunks arbitrary: buf)
  case (Cons chunk chunks)
  let ?w = "write_frame (rpc_to_frame r)"
  have w: "?w = (buf @ chunk) @ concat chunks" using Cons.prems(1) by (simp add: serialize_frame_def)
  show ?case
  proof (cases "concat chunks = []")
    case True
    then have "?w = buf @ chunk" using w by (simp only: append_Nil2)
    then show ?thesis using parse_frame_write [OF wf_rpc [OF assms], of "[]"] rpc_codec [OF assms] by simp
  next
    case False
    have "parse_frame (buf @ chunk) = Inr None" by (rule parse_frame_prefix [OF wf_rpc [OF assms] w False])
    moreover have "send_rpc_to (buf @ chunk) chunks = Some r"
      using Cons.prems(1) False by (intro Cons.IH) auto
    ultimately show ?thesis by simp
  qed
qed simp

end
