(* ===== verification/Raft_Election.thy ===== *)
theory Raft_Election
  imports Raft_Loop
begin

text \<open>
  Raft nodes on a network. A request in flight belongs to the task that \<open>send_rpc_to\<close> runs in: it is
  delivered at most once, its reply comes back to the same task at most once, and either may be lost
  or late. On this network at most one node leads in a term. Nodes do not restart: the state
  is only in memory.
\<close>

section \<open>The network\<close>

datatype flight =
    Req (f_from: bytes) (f_to: bytes) (f_rpc: raft_rpc)
  | Rsp (f_from: bytes) (f_to: bytes) (f_rpc: raft_rpc) (f_answer: raft_rpc)

text \<open>
  \<open>granted\<close> and \<open>tallied\<close> are history variables: the votes given, and those counted by the candidate, as
  (voter, term, candidate).
\<close>

record 's raft_net =
  node_of :: "bytes \<Rightarrow> raft_node"
  machine_of :: "bytes \<Rightarrow> 's"
  flights :: "flight list"
  answers_to :: "(nat \<times> frame) list"
  granted :: "(bytes \<times> nat \<times> bytes) list"
  tallied :: "(bytes \<times> nat \<times> bytes) list"

text \<open>One turn of the loop of node \<open>i\<close>; what it sends goes into the network.\<close>

definition turn ::
  "(frame \<Rightarrow> 's \<Rightarrow> frame \<times> 's) \<Rightarrow> nat \<Rightarrow> nat \<Rightarrow> bytes \<Rightarrow> raft_event \<Rightarrow> 's raft_net \<Rightarrow> (raft_out \<times> 's raft_net) option" where
  "turn f now ms i a w =
     (case run_node f now ms a (node_of w i, machine_of w i) of
        None \<Rightarrow> None
      | Some (out, n, s) \<Rightarrow>
          Some (out, w\<lparr>node_of := (node_of w)(i := n), machine_of := (machine_of w)(i := s),
                     flights := flights w @ map (\<lambda>(p, rpc). Req i p rpc) (out_rpcs out),
                     answers_to := answers_to w @ out_clients out\<rparr>))"

definition self_vote :: "bytes \<Rightarrow> raft_node \<Rightarrow> raft_node \<Rightarrow> (bytes \<times> nat \<times> bytes) list" where
  "self_vote i n n' = (if current_term n < current_term n' \<and> nrole n' = Candidate then [(i, current_term n', i)] else [])"

fun given_vote :: "bytes \<Rightarrow> raft_rpc \<Rightarrow> raft_rpc option \<Rightarrow> (bytes \<times> nat \<times> bytes) list" where
  "given_vote v (RequestVote t c li lt) (Some (RequestVoteResp t' True)) = [(v, t', c)]"
| "given_vote v _ _ = []"

fun counted_vote :: "raft_node \<Rightarrow> bytes \<Rightarrow> bytes \<Rightarrow> raft_rpc \<Rightarrow> raft_rpc \<Rightarrow> (bytes \<times> nat \<times> bytes) list" where
  "counted_vote n c v (RequestVote t c' li lt) (RequestVoteResp t' True) =
     (if nrole n = Candidate \<and> t' = current_term n then [(v, t', c)] else [])"
| "counted_vote n c v _ _ = []"

datatype net_action = Tick bytes | Client bytes nat bytes | Deliver nat | Lose nat

definition without :: "nat \<Rightarrow> 'a list \<Rightarrow> 'a list" where
  "without k xs = take k xs @ drop (Suc k) xs"

fun reply_event :: "bytes \<Rightarrow> raft_rpc \<Rightarrow> raft_rpc \<Rightarrow> raft_event" where
  "reply_event v (RequestVote t c li lt) r = VoteReply r"
| "reply_event v _ r = AppendReply v r"

fun net_step :: "(frame \<Rightarrow> 's \<Rightarrow> frame \<times> 's) \<Rightarrow> nat \<Rightarrow> nat \<Rightarrow> net_action \<Rightarrow> 's raft_net \<Rightarrow> 's raft_net option" where
  "net_step f now ms (Tick i) w =
     (case turn f now ms i Wakeup w of
        None \<Rightarrow> None
      | Some (out, w') \<Rightarrow> Some (w'\<lparr>granted := granted w' @ self_vote i (node_of w i) (node_of w' i)\<rparr>))"
| "net_step f now ms (Client i client cmd) w = map_option snd (turn f now ms i (Propose client cmd) w)"
| "net_step f now ms (Deliver k) w =
     (if k < length (flights w) then
        let w1 = w\<lparr>flights := without k (flights w)\<rparr> in
        case flights w ! k of
          Req c v rpc \<Rightarrow>
            (case turn f now ms v (Incoming rpc) w1 of
               None \<Rightarrow> None
             | Some (out, w') \<Rightarrow>
                 Some (w'\<lparr>flights := flights w' @ (case out_reply out of Some r \<Rightarrow> [Rsp c v rpc r] | None \<Rightarrow> []),
                          granted := granted w' @ given_vote v rpc (out_reply out)\<rparr>))
        | Rsp c v rpc r \<Rightarrow>
            map_option (\<lambda>(out, w'). w'\<lparr>tallied := tallied w' @ counted_vote (node_of w c) c v rpc r\<rparr>)
              (turn f now ms c (reply_event v rpc r) w1)
      else Some w)"
| "net_step f now ms (Lose k) w = Some (w\<lparr>flights := without k (flights w)\<rparr>)"

text \<open>The start of a cluster, and a run of it.\<close>

definition net_start :: "nat \<Rightarrow> nat \<Rightarrow> 's \<Rightarrow> bytes list \<Rightarrow> 's raft_net" where
  "net_start now ms s ids =
     \<lparr>node_of = (\<lambda>i. start_raft now ms i (filter (\<lambda>p. p \<noteq> i) ids)), machine_of = (\<lambda>i. s), flights = [],
      answers_to = [], granted = [], tallied = []\<rparr>"

fun net_run :: "(frame \<Rightarrow> 's \<Rightarrow> frame \<times> 's) \<Rightarrow> (nat \<times> nat \<times> net_action) list \<Rightarrow> 's raft_net \<Rightarrow> 's raft_net option" where
  "net_run f [] w = Some w"
| "net_run f ((now, ms, a) # as) w = (case net_step f now ms a w of None \<Rightarrow> None | Some w' \<Rightarrow> net_run f as w')"

section \<open>What an event does to an election\<close>

text \<open>A step that neither starts an election nor counts a vote.\<close>

definition bystander :: "raft_node \<Rightarrow> raft_node \<Rightarrow> bool" where
  "bystander n n' \<longleftrightarrow> node_name n' = node_name n \<and> peers n' = peers n \<and> current_term n \<le> current_term n' \<and>
     (current_term n' = current_term n \<longrightarrow> voted_for n \<noteq> None \<longrightarrow> voted_for n' = voted_for n) \<and>
     (nrole n' = Candidate \<longrightarrow> nrole n = Candidate \<and> current_term n' = current_term n \<and> votes_received n' = votes_received n) \<and>
     (nrole n' = Leader \<longrightarrow> nrole n = Leader \<and> current_term n' = current_term n)"

lemma bystander_refl: "bystander n n"
  by (simp add: bystander_def)

fun vote_request :: "raft_rpc \<Rightarrow> bool" where
  "vote_request (RequestVote _ _ _ _) \<longleftrightarrow> True"
| "vote_request _ \<longleftrightarrow> False"

lemma wakeup_event:
  assumes "handle_event now ms Wakeup n = (out, n')"
  shows "bystander n n' \<and> \<not> (current_term n < current_term n' \<and> nrole n' = Candidate) \<and>
      (\<forall>(p, rpc) \<in> set (out_rpcs out). p \<in> set (peers n) \<and> \<not> vote_request rpc) \<or>
    current_term n' = Suc (current_term n) \<and> nrole n' = Candidate \<and> votes_received n' = 1 \<and> voted_for n' = Some (node_name n) \<and>
      node_name n' = node_name n \<and> peers n' = peers n \<and>
      (\<exists>li lt. out_rpcs out = map (\<lambda>p. (p, RequestVote (current_term n') (node_name n) li lt)) (peers n))"
  using assms
  by (auto simp: on_wakeup_def send_heartbeats_def start_election_def reset_election_timeout_def Let_def
      send_append_entries_to_def bystander_def silent_def split: if_splits)

lemma request_vote_event:
  assumes "handle_event now ms (Incoming (RequestVote t c li lt)) n = (out, n')"
  shows "bystander n n'" and "out_rpcs out = []"
    and "\<exists>t' g. out_reply out = Some (RequestVoteResp t' g) \<and> (g \<longrightarrow> t' = t \<and> current_term n' = t \<and> voted_for n' = Some c)"
  using assms by (auto simp: handle_request_vote_def step_down_def reset_election_timeout_def Let_def bystander_def silent_def
      split: if_splits)

lemma append_events:
  assumes "handle_event now ms a n = (out, n')"
    and "(\<exists>t l pi pt es lc. a = Incoming (AppendEntries t l pi pt es lc)) \<or> (\<exists>p r. a = AppendReply p r) \<or>
      (\<exists>c cmd. a = Propose c cmd)"
  shows "bystander n n'" and "\<forall>(p, rpc) \<in> set (out_rpcs out). p \<in> set (peers n) \<and> \<not> vote_request rpc"
  using assms
  by (auto simp: handler_defs send_append_entries_to_def bystander_def silent_def case_prod_unfold split: if_splits raft_rpc.splits)

lemma vote_reply_event:
  assumes "handle_event now ms (VoteReply r) n = (out, n')"
  shows "out_rpcs out = []"
    and "(\<nexists>t. r = RequestVoteResp t True \<and> nrole n = Candidate \<and> t = current_term n) \<Longrightarrow> bystander n n'"
    and "r = RequestVoteResp (current_term n) True \<Longrightarrow> nrole n = Candidate \<Longrightarrow>
      node_name n' = node_name n \<and> peers n' = peers n \<and> current_term n' = current_term n \<and> voted_for n' = voted_for n \<and>
      (nrole n' = Candidate \<and> votes_received n' = votes_received n + 1 \<or> nrole n' = Leader \<and> quorum n \<le> votes_received n + 1)"
  using assms
  by (auto simp: handle_vote_response_def step_down_def reset_election_timeout_def become_leader_def set_leader_def
      quorum_def Let_def bystander_def silent_def split: if_splits raft_rpc.splits)

lemma bystander_ballot: "ballot n' = ballot n1 \<Longrightarrow> bystander n n1 \<Longrightarrow> bystander n n'"
  by (auto simp: ballot_def bystander_def)

lemma turn_effect:
  assumes "turn f now ms i a w = Some (out, w')"
  obtains n' out1 n1 where "node_of w' = (node_of w)(i := n')" "handle_event now ms a (node_of w i) = (out1, n1)"
    "ballot n' = ballot n1" "out_rpcs out = out_rpcs out1" "out_reply out = out_reply out1"
    "flights w' = flights w @ map (\<lambda>(p, rpc). Req i p rpc) (out_rpcs out1)"
    "granted w' = granted w" "tallied w' = tallied w"
proof -
  obtain n' s' where r: "run_node f now ms a (node_of w i, machine_of w i) = Some (out, n', s')"
    and w': "node_of w' = (node_of w)(i := n')" "flights w' = flights w @ map (\<lambda>(p, rpc). Req i p rpc) (out_rpcs out)"
      "granted w' = granted w" "tallied w' = tallied w"
    using assms by (auto simp: turn_def split: option.splits)
  obtain out1 n1 where h: "handle_event now ms a (node_of w i) = (out1, n1)" by fastforce
  from r have "ballot n' = ballot n1 \<and> out_rpcs out = out_rpcs out1 \<and> out_reply out = out_reply out1"
  proof (cases rule: run_node_cases)
    case skipped
    then show ?thesis using h by (cases a rule: skips.cases) auto
  next
    case (turn out2 n2 rs pend)
    then show ?thesis using h by (simp add: ballot_def)
  qed
  with w' h that show thesis by simp
qed

section \<open>The invariant\<close>

fun flight_key :: "flight \<Rightarrow> (bytes \<times> nat \<times> bytes) option" where
  "flight_key (Req c v (RequestVote t _ _ _)) = Some (v, t, c)"
| "flight_key (Rsp c v (RequestVote t _ _ _) _) = Some (v, t, c)"
| "flight_key _ = None"

abbreviation keys :: "flight list \<Rightarrow> (bytes \<times> nat \<times> bytes) list" where
  "keys fl \<equiv> List.map_filter flight_key fl"

fun flight_ok :: "bytes set \<Rightarrow> (bytes \<Rightarrow> raft_node) \<Rightarrow> (bytes \<times> nat \<times> bytes) set \<Rightarrow> flight \<Rightarrow> bool" where
  "flight_ok N nd G (Req c v rpc) \<longleftrightarrow> c \<in> N \<and> v \<in> N - {c} \<and>
     (\<forall>t c' li lt. rpc = RequestVote t c' li lt \<longrightarrow> c' = c \<and> t \<le> current_term (nd c))"
| "flight_ok N nd G (Rsp c v rpc r) \<longleftrightarrow> c \<in> N \<and> v \<in> N - {c} \<and>
     (\<forall>t c' li lt. rpc = RequestVote t c' li lt \<longrightarrow> c' = c \<and> t \<le> current_term (nd c) \<and>
        (\<forall>t'. r = RequestVoteResp t' True \<longrightarrow> t' = t \<and> (v, t, c) \<in> G))"

definition node_ok :: "bytes set \<Rightarrow> bytes \<Rightarrow> raft_node \<Rightarrow> bool" where
  "node_ok N i n \<longleftrightarrow> node_name n = i \<and> distinct (peers n) \<and> set (peers n) = N - {i}"

definition vote_ok :: "bytes set \<Rightarrow> (bytes \<Rightarrow> raft_node) \<Rightarrow> bytes \<times> nat \<times> bytes \<Rightarrow> bool" where
  "vote_ok N nd x = (case x of (v, t, c) \<Rightarrow>
     v \<in> N \<and> t \<le> current_term (nd v) \<and> (t = current_term (nd v) \<longrightarrow> voted_for (nd v) = Some c))"

definition tally_ok :: "(bytes \<Rightarrow> raft_node) \<Rightarrow> (bytes \<times> nat \<times> bytes) set \<Rightarrow> bytes \<times> nat \<times> bytes \<Rightarrow> bool" where
  "tally_ok nd G x = (case x of (v, t, c) \<Rightarrow> (v, t, c) \<in> G \<and> v \<noteq> c \<and> t \<le> current_term (nd c))"

definition voters :: "(bytes \<times> nat \<times> bytes) list \<Rightarrow> nat \<Rightarrow> bytes \<Rightarrow> bytes set" where
  "voters xs t c = {v. (v, t, c) \<in> set xs}"

definition role_ok :: "(bytes \<times> nat \<times> bytes) list \<Rightarrow> (bytes \<times> nat \<times> bytes) list \<Rightarrow> bytes \<Rightarrow> raft_node \<Rightarrow> bool" where
  "role_ok gr ta i n \<longleftrightarrow>
     (nrole n = Candidate \<longrightarrow> i \<in> voters gr (current_term n) i \<and> votes_received n \<le> 1 + card (voters ta (current_term n) i)) \<and>
     (nrole n = Leader \<longrightarrow> quorum n \<le> card (voters gr (current_term n) i))"

definition elect_inv :: "bytes set \<Rightarrow> 's raft_net \<Rightarrow> bool" where
  "elect_inv N w \<longleftrightarrow> finite N \<and> (\<forall>i \<in> N. node_ok N i (node_of w i)) \<and>
     (\<forall>x \<in> set (granted w). vote_ok N (node_of w) x) \<and>
     (\<forall>v t c c'. (v, t, c) \<in> set (granted w) \<longrightarrow> (v, t, c') \<in> set (granted w) \<longrightarrow> c = c') \<and>
     (\<forall>x \<in> set (flights w). flight_ok N (node_of w) (set (granted w)) x) \<and>
     distinct (keys (flights w) @ tallied w) \<and>
     (\<forall>x \<in> set (tallied w). tally_ok (node_of w) (set (granted w)) x) \<and>
     (\<forall>i \<in> N. role_ok (granted w) (tallied w) i (node_of w i))"

lemma finite_voters [simp]: "finite (voters xs t c)"
  by (rule finite_subset [of _ "fst ` set xs"]) (force simp: voters_def)+

lemma voters_append: "voters (xs @ ys) t c = voters xs t c \<union> voters ys t c"
  by (auto simp: voters_def)

lemma flight_ok_mono:
  assumes "flight_ok N nd G x" and "\<And>j. current_term (nd j) \<le> current_term (nd' j)" and "G \<subseteq> G'"
  shows "flight_ok N nd' G' x"
proof (cases x)
  case (Req c v rpc)
  with assms(1) show ?thesis using assms(2) [of c] by (auto intro: order_trans)
next
  case (Rsp c v rpc r)
  with assms(1,3) show ?thesis using assms(2) [of c] by (cases rpc) (auto intro: order_trans dest: subsetD)
qed

text \<open>New votes of \<open>i\<close> are for the candidate it has voted for in its term, so nobody votes twice in a term.\<close>

lemma votes_kept:
  assumes old: "\<forall>x \<in> set gr. vote_ok N nd x" and i: "i \<in> N" and node: "nd' = nd(i := n')"
    and trm: "current_term (nd i) \<le> current_term n'"
    and vote: "current_term n' = current_term (nd i) \<Longrightarrow> voted_for (nd i) \<noteq> None \<Longrightarrow> voted_for n' = voted_for (nd i)"
    and new: "\<And>x. x \<in> set g \<Longrightarrow> \<exists>c. x = (i, current_term n', c) \<and> voted_for n' = Some c"
    and once: "\<forall>v t c c'. (v, t, c) \<in> set gr \<longrightarrow> (v, t, c') \<in> set gr \<longrightarrow> c = c'"
  shows "\<forall>x \<in> set (gr @ g). vote_ok N nd' x"
    and "\<forall>v t c c'. (v, t, c) \<in> set (gr @ g) \<longrightarrow> (v, t, c') \<in> set (gr @ g) \<longrightarrow> c = c'"
proof -
  have o: "vote_ok N nd' x" if "x \<in> set gr" for x
  proof -
    obtain v t c where x: "x = (v, t, c)" using prod_cases3 by blast
    have "vote_ok N nd x" using old that by blast
    then show ?thesis using node trm vote x by (auto simp: vote_ok_def)
  qed
  have "vote_ok N nd' x" if xg: "x \<in> set g" for x
  proof -
    obtain c where "x = (i, current_term n', c)" "voted_for n' = Some c" using new [OF xg] by blast
    then show ?thesis using i node by (simp add: vote_ok_def)
  qed
  with o show ok: "\<forall>x \<in> set (gr @ g). vote_ok N nd' x" by auto
  have eq: "voted_for n' = Some d" if "(i, current_term n', d) \<in> set (gr @ g)" for d
    using bspec [OF ok that] node by (simp add: vote_ok_def)
  have "c = c'" if m: "(v, t, c) \<in> set (gr @ g)" "(v, t, c') \<in> set (gr @ g)" for v t c c'
  proof (cases "(v, t, c) \<in> set g \<or> (v, t, c') \<in> set g")
    case True
    then have vi: "v = i" "t = current_term n'" using new by blast+
    from eq [OF m(1) [unfolded vi]] eq [OF m(2) [unfolded vi]] show ?thesis by simp
  next
    case False
    with m have "(v, t, c) \<in> set gr" "(v, t, c') \<in> set gr" by simp_all
    with once show ?thesis by blast
  qed
  then show "\<forall>v t c c'. (v, t, c) \<in> set (gr @ g) \<longrightarrow> (v, t, c') \<in> set (gr @ g) \<longrightarrow> c = c'" by blast
qed

text \<open>A step of \<open>i\<close> in which the term and the votes move as they may.\<close>

lemma step_keeps:
  fixes w w' :: "'s raft_net"
  assumes inv: "elect_inv N w" and i: "i \<in> N" and node: "node_of w' = (node_of w)(i := n')"
    and name: "node_name n' = node_name (node_of w i)" "peers n' = peers (node_of w i)"
    and trm: "current_term (node_of w i) \<le> current_term n'"
    and vote: "current_term n' = current_term (node_of w i) \<Longrightarrow> voted_for (node_of w i) \<noteq> None \<Longrightarrow> voted_for n' = voted_for (node_of w i)"
    and gr: "granted w' = granted w @ g" "\<And>x. x \<in> set g \<Longrightarrow> \<exists>c. x = (i, current_term n', c) \<and> voted_for n' = Some c"
    and ta: "tallied w' = tallied w @ ta" "\<And>x. x \<in> set ta \<Longrightarrow> tally_ok (node_of w) (set (granted w)) x"
    and fl: "\<And>x. x \<in> set (flights w') \<Longrightarrow> x \<in> set (flights w) \<or> flight_ok N (node_of w') (set (granted w')) x"
    and ks: "distinct (keys (flights w') @ tallied w')"
    and role: "role_ok (granted w') (tallied w') i n'"
  shows "elect_inv N w'"
proof -
  have terms: "current_term (node_of w j) \<le> current_term (node_of w' j)" for j using node trm by simp
  have sub: "set (granted w) \<subseteq> set (granted w')" using gr(1) by simp
  have vs: "\<forall>x \<in> set (granted w). vote_ok N (node_of w) x"
    "\<forall>v t c c'. (v, t, c) \<in> set (granted w) \<longrightarrow> (v, t, c') \<in> set (granted w) \<longrightarrow> c = c'" using inv by (simp_all add: elect_inv_def)
  have votes: "\<forall>x \<in> set (granted w'). vote_ok N (node_of w') x"
    "\<forall>v t c c'. (v, t, c) \<in> set (granted w') \<longrightarrow> (v, t, c') \<in> set (granted w') \<longrightarrow> c = c'"
    unfolding gr(1) by (rule votes_kept [OF vs(1) i node trm _ _ vs(2)]; use vote gr(2) in blast)+
  have "flight_ok N (node_of w') (set (granted w')) x" if "x \<in> set (flights w')" for x
    using fl [OF that] inv flight_ok_mono [OF _ terms sub] by (auto simp: elect_inv_def)
  moreover have "tally_ok (node_of w') (set (granted w')) x" if "x \<in> set (tallied w')" for x
  proof -
    have "\<forall>x \<in> set (tallied w). tally_ok (node_of w) (set (granted w)) x" using inv by (simp add: elect_inv_def)
    moreover have "x \<in> set (tallied w) \<or> x \<in> set ta" using that ta(1) by simp
    ultimately have "tally_ok (node_of w) (set (granted w)) x" using ta(2) by blast
    then show ?thesis using terms sub by (auto simp: tally_ok_def intro: order_trans)
  qed
  moreover have "role_ok (granted w') (tallied w') j (node_of w' j)" if j: "j \<in> N" for j
  proof (cases "j = i")
    case False
    have r: "role_ok (granted w) (tallied w) j (node_of w j)" using inv j by (simp add: elect_inv_def)
    have "card (voters (granted w) t j) \<le> card (voters (granted w') t j)"
      "card (voters (tallied w) t j) \<le> card (voters (tallied w') t j)" for t
      using gr(1) ta(1) by (auto intro!: card_mono simp: voters_append)
    then show ?thesis using r False node gr(1) ta(1) by (auto simp: role_ok_def voters_append intro: order_trans)
  qed (use role node in simp)
  moreover have "node_ok N j (node_of w' j)" if "j \<in> N" for j
    using inv that node name by (auto simp: elect_inv_def node_ok_def)
  ultimately show ?thesis
    unfolding elect_inv_def using inv votes ks by (simp add: elect_inv_def)
qed

section \<open>Every step keeps the invariant\<close>

lemma keys_append: "keys (xs @ ys) = keys xs @ keys ys"
  by (induction xs) (simp_all add: List.map_filter_simps split: option.split)

lemma keys_without:
  assumes "k < length fl"
  shows "mset (keys fl) = mset (keys (without k fl)) + mset (keys [fl ! k])"
proof -
  have "keys fl = keys (take k fl @ [fl ! k] @ drop (Suc k) fl)" using id_take_nth_drop [OF assms] by simp
  then show ?thesis by (simp add: keys_append without_def del: append_Cons)
qed

lemma set_without: "set (without k fl) \<subseteq> set fl"
  by (auto simp: without_def dest: in_set_takeD in_set_dropD)

lemma distinct_msets:
  assumes "distinct xs" and "mset ys \<subseteq># mset xs"
  shows "distinct ys"
  unfolding distinct_count_atmost_1
proof
  fix a
  have "count (mset ys) a \<le> count (mset xs) a" using assms(2) by (rule mset_subset_eq_count)
  also have "\<dots> \<le> 1" using assms(1) by (simp add: distinct_count_atmost_1)
  finally have "count (mset ys) a \<le> 1" .
  moreover have "count (mset ys) a > 0 \<longleftrightarrow> a \<in> set ys" by simp
  ultimately show "count (mset ys) a = (if a \<in> set ys then 1 else 0)" by (auto simp: le_Suc_eq)
qed

lemma keys_plain: "\<forall>(p, rpc) \<in> set rpcs. \<not> vote_request rpc \<Longrightarrow> keys (map (\<lambda>(p, rpc). Req i p rpc) rpcs) = []"
proof (induction rpcs)
  case (Cons x rpcs)
  obtain p rpc where "x = (p, rpc)" by fastforce
  with Cons show ?case by (cases rpc) (simp_all add: List.map_filter_simps)
qed (simp add: List.map_filter_simps)

lemma keys_requests: "keys (map (\<lambda>(p, rpc). Req i p rpc) (map (\<lambda>p. (p, RequestVote t c li lt)) ps)) = map (\<lambda>p. (p, t, i)) ps"
  by (induction ps) (simp_all add: List.map_filter_simps)

lemma role_ok_bystander:
  assumes "role_ok gr ta i n" and "bystander n n'"
  shows "role_ok (gr @ g) (ta @ ta') i n'"
proof -
  have "card (voters gr t i) \<le> card (voters (gr @ g) t i)" "card (voters ta t i) \<le> card (voters (ta @ ta') t i)" for t
    by (auto intro!: card_mono simp: voters_append)
  then show ?thesis using assms
    by (auto simp: role_ok_def bystander_def quorum_def voters_append intro: order_trans)
qed

lemma key_term:
  assumes "(v, t, c) \<in> set (keys fl)" and "\<forall>x \<in> set fl. flight_ok N nd G x"
  shows "t \<le> current_term (nd c)"
proof -
  obtain x where "x \<in> set fl" "flight_key x = Some (v, t, c)" using assms(1) by (auto simp: map_filter_def)
  with assms(2) show ?thesis by (cases x rule: flight_key.cases) auto
qed

lemma flight_Req_plain:
  "\<not> vote_request rpc \<Longrightarrow> i \<in> N \<Longrightarrow> p \<in> N - {i} \<Longrightarrow> flight_ok N nd G (Req i p rpc)"
  by (cases rpc) simp_all

lemma turn_bystander:
  fixes w w' :: "'s raft_net"
  assumes inv: "elect_inv N w" and i: "i \<in> N" and node: "node_of w' = (node_of w)(i := n')" and st: "bystander (node_of w i) n'"
    and gr: "granted w' = granted w @ g" "\<And>x. x \<in> set g \<Longrightarrow> \<exists>c. x = (i, current_term n', c) \<and> voted_for n' = Some c"
    and ta: "tallied w' = tallied w"
    and fl: "\<And>x. x \<in> set (flights w') \<Longrightarrow> x \<in> set (flights w) \<or> flight_ok N (node_of w') (set (granted w')) x"
    and ks: "mset (keys (flights w')) \<subseteq># mset (keys (flights w))"
  shows "elect_inv N w'"
proof (rule step_keeps [OF inv i node, where g = g and ta = "[]"])
  show "role_ok (granted w') (tallied w') i n'"
    using role_ok_bystander [of "granted w" "tallied w" i "node_of w i" n' g "[]"] inv i st gr(1) ta
    by (simp add: elect_inv_def)
  have "distinct (keys (flights w) @ tallied w)" using inv by (simp add: elect_inv_def)
  then show "distinct (keys (flights w') @ tallied w')"
    using ks ta by (elim distinct_msets) (simp add: subset_mset.add_mono)
qed (use st gr ta fl in \<open>auto simp: bystander_def\<close>)

lemma lose_keeps:
  assumes "elect_inv N w"
  shows "elect_inv N (w\<lparr>flights := without k (flights w)\<rparr>)"
proof -
  have "distinct (keys (flights w) @ tallied w)" using assms by (simp add: elect_inv_def)
  moreover have "mset (keys (without k (flights w))) \<subseteq># mset (keys (flights w))"
  proof (cases "k < length (flights w)")
    case True
    then show ?thesis using keys_without by (metis mset_subset_eq_add_left)
  qed (simp add: without_def)
  ultimately have "distinct (keys (without k (flights w)) @ tallied w)"
    by (elim distinct_msets) (simp add: subset_mset.add_mono)
  with assms set_without [of k "flights w"] show ?thesis by (auto simp: elect_inv_def)
qed

lemma plain_keeps:
  fixes w w' :: "'s raft_net"
  assumes inv: "elect_inv N w" and i: "i \<in> N" and node: "node_of w' = (node_of w)(i := n')"
    and st: "bystander (node_of w i) n'"
    and rp: "\<forall>(p, rpc) \<in> set rs. p \<in> set (peers (node_of w i)) \<and> \<not> vote_request rpc"
    and w': "flights w' = flights w @ map (\<lambda>(p, rpc). Req i p rpc) rs" "granted w' = granted w" "tallied w' = tallied w"
  shows "elect_inv N w'"
proof -
  have ok: "node_ok N i (node_of w i)" using inv i by (simp add: elect_inv_def)
  have plain: "\<forall>(p, rpc) \<in> set rs. \<not> vote_request rpc" using rp by auto
  show ?thesis
  proof (rule turn_bystander [OF inv i node st, where g = "[]"])
    show "x \<in> set (flights w) \<or> flight_ok N (node_of w') (set (granted w')) x" if "x \<in> set (flights w')" for x
    proof -
      have new: "flight_ok N (node_of w') (set (granted w')) (Req i p rpc)" if "(p, rpc) \<in> set rs" for p rpc
        using that rp ok i by (intro flight_Req_plain) (auto simp: node_ok_def)
      have "x \<in> set (flights w) \<or> (\<exists>(p, rpc) \<in> set rs. x = Req i p rpc)" using that w'(1) by auto
      with new show ?thesis by blast
    qed
  qed (use w' keys_plain [OF plain, of i] in \<open>simp_all add: keys_append\<close>)
qed

text \<open>A node that stands for election: there is no message and no counted vote of its new term yet.\<close>

lemma candidacy_keeps:
  fixes w w' :: "'s raft_net"
  assumes inv: "elect_inv N w" and i: "i \<in> N" and node: "node_of w' = (node_of w)(i := n')"
    and n': "current_term n' = Suc (current_term (node_of w i))" "nrole n' = Candidate" "votes_received n' = 1"
      "voted_for n' = Some i" "node_name n' = node_name (node_of w i)" "peers n' = peers (node_of w i)"
    and flw: "flights w' = flights w @
      map (\<lambda>(p, rpc). Req i p rpc) (map (\<lambda>p. (p, RequestVote (current_term n') i li lt)) (peers (node_of w i)))"
    and grw: "granted w' = granted w @ [(i, current_term n', i)]" and taw: "tallied w' = tallied w"
  shows "elect_inv N w'"
proof -
  have ok: "node_ok N i (node_of w i)" using inv i by (simp add: elect_inv_def)
  have fresh: "(v, current_term n', i) \<notin> set (keys (flights w) @ tallied w)" for v
  proof
    assume "(v, current_term n', i) \<in> set (keys (flights w) @ tallied w)"
    then have "current_term n' \<le> current_term (node_of w i)"
      using inv key_term [of v "current_term n'" i "flights w"] by (auto simp: elect_inv_def tally_ok_def)
    with n'(1) show False by simp
  qed
  show ?thesis
  proof (rule step_keeps [OF inv i node, where g = "[(i, current_term n', i)]" and ta = "[]"])
    show "x \<in> set (flights w) \<or> flight_ok N (node_of w') (set (granted w')) x" if "x \<in> set (flights w')" for x
    proof -
      have "flight_ok N (node_of w') (set (granted w')) (Req i p (RequestVote (current_term n') i li lt))"
        if "p \<in> set (peers (node_of w i))" for p
        using that ok i node by (simp add: node_ok_def)
      moreover have "x \<in> set (flights w) \<or> (\<exists>p \<in> set (peers (node_of w i)). x = Req i p (RequestVote (current_term n') i li lt))"
        using that flw by auto
      ultimately show ?thesis by blast
    qed
    have "distinct (keys (flights w) @ tallied w)" "distinct (peers (node_of w i))"
      using inv ok by (simp_all add: elect_inv_def node_ok_def)
    moreover have "keys (flights w') = keys (flights w) @ map (\<lambda>p. (p, current_term n', i)) (peers (node_of w i))"
      by (simp only: flw keys_append keys_requests)
    ultimately show "distinct (keys (flights w') @ tallied w')"
      using taw fresh by (auto simp: distinct_map inj_on_def)
    show "role_ok (granted w') (tallied w') i n'" using n' grw by (simp add: role_ok_def voters_def)
  qed (use n' grw taw in auto)
qed

lemma tick_keeps:
  assumes inv: "elect_inv N w" and i: "i \<in> N" and step: "net_step f now ms (Tick i) w = Some w'"
  shows "elect_inv N w'"
proof -
  obtain out w1 where t: "turn f now ms i Wakeup w = Some (out, w1)"
    and w': "w' = w1\<lparr>granted := granted w1 @ self_vote i (node_of w i) (node_of w1 i)\<rparr>"
    using step by (auto split: option.splits)
  obtain n' out1 n1 where nd: "node_of w1 = (node_of w)(i := n')" "handle_event now ms Wakeup (node_of w i) = (out1, n1)"
    "ballot n' = ballot n1" "flights w1 = flights w @ map (\<lambda>(p, rpc). Req i p rpc) (out_rpcs out1)"
    "granted w1 = granted w" "tallied w1 = tallied w"
    by (rule turn_effect [OF t])
  have name: "node_name (node_of w i) = i" using inv i by (simp add: elect_inv_def node_ok_def)
  from wakeup_event [OF nd(2)] show ?thesis
  proof
    assume q: "bystander (node_of w i) n1 \<and> \<not> (current_term (node_of w i) < current_term n1 \<and> nrole n1 = Candidate) \<and>
      (\<forall>(p, rpc) \<in> set (out_rpcs out1). p \<in> set (peers (node_of w i)) \<and> \<not> vote_request rpc)"
    then have "granted w' = granted w" using w' nd(1,3,5) by (auto simp: self_vote_def ballot_def)
    with q nd w' bystander_ballot [OF nd(3)] show ?thesis
      by (intro plain_keeps [OF inv i, where n' = n' and rs = "out_rpcs out1"]) simp_all
  next
    assume e: "current_term n1 = Suc (current_term (node_of w i)) \<and> nrole n1 = Candidate \<and> votes_received n1 = 1 \<and>
      voted_for n1 = Some (node_name (node_of w i)) \<and> node_name n1 = node_name (node_of w i) \<and> peers n1 = peers (node_of w i) \<and>
      (\<exists>li lt. out_rpcs out1 = map (\<lambda>p. (p, RequestVote (current_term n1) (node_name (node_of w i)) li lt)) (peers (node_of w i)))"
    then obtain li lt where
      "out_rpcs out1 = map (\<lambda>p. (p, RequestVote (current_term n1) (node_name (node_of w i)) li lt)) (peers (node_of w i))"
      by blast
    then have rpcs: "out_rpcs out1 = map (\<lambda>p. (p, RequestVote (current_term n') i li lt)) (peers (node_of w i))"
      using nd(3) by (simp add: name ballot_def)
    have n': "current_term n' = Suc (current_term (node_of w i))" "nrole n' = Candidate" "votes_received n' = 1"
      "voted_for n' = Some i" "node_name n' = node_name (node_of w i)" "peers n' = peers (node_of w i)"
      using e nd(3) name by (auto simp: ballot_def)
    show ?thesis
      by (rule candidacy_keeps [OF inv i _ n', where li = li and lt = lt]) (use w' nd rpcs n' in \<open>simp_all add: self_vote_def\<close>)
  qed
qed

lemma client_keeps:
  assumes inv: "elect_inv N w" and i: "i \<in> N" and step: "net_step f now ms (Client i client cmd) w = Some w'"
  shows "elect_inv N w'"
proof -
  obtain out where t: "turn f now ms i (Propose client cmd) w = Some (out, w')" using step by auto
  obtain n' out1 n1 where nd: "node_of w' = (node_of w)(i := n')" "handle_event now ms (Propose client cmd) (node_of w i) = (out1, n1)"
    "ballot n' = ballot n1" "flights w' = flights w @ map (\<lambda>(p, rpc). Req i p rpc) (out_rpcs out1)"
    "granted w' = granted w" "tallied w' = tallied w"
    by (rule turn_effect [OF t])
  have by1: "bystander (node_of w i) n1" and rp: "\<forall>(p, rpc) \<in> set (out_rpcs out1). p \<in> set (peers (node_of w i)) \<and> \<not> vote_request rpc"
    using append_events [OF nd(2)] by blast+
  show ?thesis by (rule plain_keeps [OF inv i nd(1) bystander_ballot [OF nd(3) by1] rp nd(4-6)])
qed

lemma incoming_event:
  assumes h: "handle_event now ms (Incoming rpc) n = (out, n')"
  shows "bystander n n' \<and> out_rpcs out = [] \<and>
    (\<forall>t c li lt. rpc = RequestVote t c li lt \<longrightarrow> (\<exists>t' g. out_reply out = Some (RequestVoteResp t' g) \<and>
       (g \<longrightarrow> t' = t \<and> current_term n' = t \<and> voted_for n' = Some c)))"
proof (cases rpc)
  case (RequestVote t c li lt)
  with request_vote_event [of now ms t c li lt n out n'] h show ?thesis by auto
next
  case (AppendEntries t l pi pt es lc)
  with append_events(1) [OF h] h show ?thesis by (auto simp: silent_def case_prod_unfold)
qed (use h in \<open>auto simp: bystander_refl silent_def\<close>)

lemma request_keeps:
  assumes inv: "elect_inv N w" and k: "k < length (flights w)" and rq: "flights w ! k = Req c v rpc"
    and step: "net_step f now ms (Deliver k) w = Some w'"
  shows "elect_inv N w'"
proof -
  let ?w1 = "w\<lparr>flights := without k (flights w)\<rparr>"
  obtain out w2 where t: "turn f now ms v (Incoming rpc) ?w1 = Some (out, w2)"
    and w': "w' = w2\<lparr>flights := flights w2 @ (case out_reply out of Some r \<Rightarrow> [Rsp c v rpc r] | None \<Rightarrow> []),
                     granted := granted w2 @ given_vote v rpc (out_reply out)\<rparr>"
    using step k rq by (auto simp: Let_def split: option.splits)
  obtain n' out1 n1 where nd: "node_of w2 = (node_of ?w1)(v := n')" "handle_event now ms (Incoming rpc) (node_of ?w1 v) = (out1, n1)"
    "ballot n' = ballot n1" "out_reply out = out_reply out1"
    "flights w2 = flights ?w1 @ map (\<lambda>(p, rpc). Req v p rpc) (out_rpcs out1)" "granted w2 = granted ?w1" "tallied w2 = tallied ?w1"
    by (rule turn_effect [OF t])
  have fo: "flight_ok N (node_of w) (set (granted w)) (Req c v rpc)"
    using inv k rq nth_mem [OF k] by (auto simp: elect_inv_def)
  have ev: "bystander (node_of w v) n1 \<and> out_rpcs out1 = [] \<and>
      (\<forall>t c' li lt. rpc = RequestVote t c' li lt \<longrightarrow> (\<exists>t' g. out_reply out1 = Some (RequestVoteResp t' g) \<and>
         (g \<longrightarrow> t' = t \<and> current_term n1 = t \<and> voted_for n1 = Some c')))"
    using nd(2) by (intro incoming_event) simp
  have by1: "bystander (node_of w v) n'" using ev bystander_ballot [OF nd(3)] by blast
  have terms: "current_term (node_of w c) \<le> current_term (node_of w' c)"
    using by1 nd(1) w' by (auto simp: bystander_def)
  have rsp: "flight_ok N (node_of w') (set (granted w')) (Rsp c v rpc r)" if "out_reply out = Some r" for r
  proof (cases rpc)
    case (RequestVote t c' li lt)
    with ev fo that nd(4) terms w' show ?thesis by (auto intro: order_trans)
  qed (use fo in auto)
  have gv: "\<exists>c. x = (v, current_term n', c) \<and> voted_for n' = Some c" if "x \<in> set (given_vote v rpc (out_reply out))" for x
  proof (cases rpc)
    case (RequestVote t c' li lt)
    with ev obtain t' g where "out_reply out = Some (RequestVoteResp t' g)" "g \<longrightarrow> t' = t \<and> current_term n1 = t \<and> voted_for n1 = Some c'"
      using nd(4) by auto
    with that RequestVote nd(3) show ?thesis by (cases g) (auto simp: ballot_def)
  qed (use that in auto)
  have kq: "keys [Rsp c v rpc r] = keys [Req c v rpc]" for r by (cases rpc) (simp_all add: List.map_filter_simps)
  have flw: "flights w' = without k (flights w) @ (case out_reply out of Some r \<Rightarrow> [Rsp c v rpc r] | None \<Rightarrow> [])"
    using w' nd(5) ev by simp
  show ?thesis
  proof (rule turn_bystander [OF inv, where i = v and n' = n' and g = "given_vote v rpc (out_reply out)"])
    show "v \<in> N" using fo by simp
    show "x \<in> set (flights w) \<or> flight_ok N (node_of w') (set (granted w')) x" if "x \<in> set (flights w')" for x
    proof -
      have "x \<in> set (without k (flights w)) \<or> (\<exists>r. out_reply out = Some r \<and> x = Rsp c v rpc r)"
        using that flw by (cases "out_reply out") auto
      with rsp set_without [of k "flights w"] show ?thesis by blast
    qed
    have "mset (keys (flights w)) = mset (keys (without k (flights w))) + mset (keys [Req c v rpc])"
      using keys_without [OF k] rq by simp
    then show "mset (keys (flights w')) \<subseteq># mset (keys (flights w))"
      unfolding flw keys_append by (cases "out_reply out") (simp_all only: option.case kq mset_append, simp_all)
  qed (use by1 nd w' gv in auto)
qed

text \<open>A vote that is counted: the voter is new in the tally, so the count stays below the voters.\<close>

lemma role_ok_counted:
  assumes "role_ok gr ta i n" and "nrole n = Candidate" and "v \<noteq> i" and "v \<notin> voters ta (current_term n) i"
    and ta: "insert v (voters ta (current_term n) i) \<subseteq> voters gr (current_term n) i - {i}"
    and n': "current_term n' = current_term n" "peers n' = peers n"
      "nrole n' = Candidate \<and> votes_received n' = votes_received n + 1 \<or> nrole n' = Leader \<and> quorum n \<le> votes_received n + 1"
  shows "role_ok gr (ta @ [(v, current_term n, i)]) i n'"
proof -
  let ?t = "current_term n"
  have vs: "i \<in> voters gr ?t i" "votes_received n \<le> 1 + card (voters ta ?t i)"
    using assms(1,2) by (simp_all add: role_ok_def)
  have tally: "voters (ta @ [(v, ?t, i)]) ?t i = insert v (voters ta ?t i)" by (auto simp: voters_def)
  then have card: "card (voters (ta @ [(v, ?t, i)]) ?t i) = 1 + card (voters ta ?t i)" using assms(4) by simp
  have "1 + card (voters ta ?t i) \<le> card (voters gr ?t i - {i})"
    using card_mono [OF _ ta] tally card by simp
  then have "2 + card (voters ta ?t i) \<le> card (voters gr ?t i)"
    using vs(1) card_Suc_Diff1 [of "voters gr ?t i" i] by simp
  with vs card n' show ?thesis by (auto simp: role_ok_def quorum_def)
qed

lemma counted_keeps:
  fixes w w' :: "'s raft_net"
  assumes inv: "elect_inv N w" and c: "c \<in> N" and node: "node_of w' = (node_of w)(c := n')"
    and n': "node_name n' = node_name (node_of w c)" "peers n' = peers (node_of w c)"
      "current_term n' = current_term (node_of w c)" "voted_for n' = voted_for (node_of w c)"
      "nrole n' = Candidate \<and> votes_received n' = votes_received (node_of w c) + 1 \<or>
       nrole n' = Leader \<and> quorum (node_of w c) \<le> votes_received (node_of w c) + 1"
    and cand: "nrole (node_of w c) = Candidate"
    and vote: "t = current_term (node_of w c)" "(v, t, c) \<in> set (granted w)" "v \<noteq> c"
    and w': "granted w' = granted w" "tallied w' = tallied w @ [(v, t, c)]" "set (flights w') \<subseteq> set (flights w)"
    and ks: "mset (keys (flights w)) = mset (keys (flights w')) + {#(v, t, c)#}"
  shows "elect_inv N w'"
proof -
  have dist: "distinct (keys (flights w) @ tallied w)" using inv by (simp add: elect_inv_def)
  have "(v, t, c) \<in># mset (keys (flights w))" using ks by simp
  then have fresh: "(v, t, c) \<notin> set (tallied w)" using dist by auto
  have tallied: "\<forall>x \<in> set (tallied w). tally_ok (node_of w) (set (granted w)) x" using inv by (simp add: elect_inv_def)
  show ?thesis
  proof (rule step_keeps [OF inv c node, where g = "[]" and ta = "[(v, t, c)]"])
    have "mset (keys (flights w') @ tallied w') = mset (keys (flights w) @ tallied w)"
      unfolding w'(2) mset_append ks by simp
    with dist show "distinct (keys (flights w') @ tallied w')" by (metis distinct_msets subset_mset.order_refl)
    have "role_ok (granted w) (tallied w @ [(v, current_term (node_of w c), c)]) c n'"
    proof (rule role_ok_counted [OF _ cand])
      show "role_ok (granted w) (tallied w) c (node_of w c)" using inv c by (simp add: elect_inv_def)
      show "insert v (voters (tallied w) (current_term (node_of w c)) c) \<subseteq> voters (granted w) (current_term (node_of w c)) c - {c}"
        using vote tallied by (auto simp: voters_def tally_ok_def)
    qed (use vote fresh n' in \<open>auto simp: voters_def\<close>)
    then show "role_ok (granted w') (tallied w') c n'" using w' vote(1) by simp
  qed (use n' w' vote in \<open>auto simp: tally_ok_def\<close>)
qed

lemma response_keeps:
  assumes inv: "elect_inv N w" and k: "k < length (flights w)" and rq: "flights w ! k = Rsp c v rpc r"
    and step: "net_step f now ms (Deliver k) w = Some w'"
  shows "elect_inv N w'"
proof -
  let ?w1 = "w\<lparr>flights := without k (flights w)\<rparr>" and ?a = "reply_event v rpc r" and ?n = "node_of w c"
  obtain out w2 where t: "turn f now ms c ?a ?w1 = Some (out, w2)"
    and w': "w' = w2\<lparr>tallied := tallied w2 @ counted_vote ?n c v rpc r\<rparr>"
    using step k rq by (auto simp: Let_def)
  obtain n' out1 n1 where nd: "node_of w2 = (node_of ?w1)(c := n')" "handle_event now ms ?a (node_of ?w1 c) = (out1, n1)"
    "ballot n' = ballot n1" "flights w2 = flights ?w1 @ map (\<lambda>(p, rpc). Req c p rpc) (out_rpcs out1)"
    "granted w2 = granted ?w1" "tallied w2 = tallied ?w1"
    by (rule turn_effect [OF t])
  have fo: "flight_ok N (node_of w) (set (granted w)) (Rsp c v rpc r)"
    using inv k rq nth_mem [OF k] by (auto simp: elect_inv_def)
  then have c: "c \<in> N" by simp
  have rp: "out_rpcs out1 = []"
    using nd(2) by (cases rpc) (auto simp: silent_def)
  have keys_w: "mset (keys (flights w)) = mset (keys (without k (flights w))) + mset (keys [Rsp c v rpc r])"
    using keys_without [OF k] rq by simp
  have flw: "flights w' = without k (flights w)" using w' nd(4) rp by simp
  have old: "x \<in> set (flights w)" if "x \<in> set (flights w')" for x using that flw set_without [of k "flights w"] by auto
  show ?thesis
  proof (cases "counted_vote ?n c v rpc r = []")
    case True
    have "bystander ?n n1"
    proof (cases "vote_request rpc")
      case rv: True
      then have "?a = VoteReply r" by (cases rpc) auto
      moreover have "\<nexists>t. r = RequestVoteResp t True \<and> nrole ?n = Candidate \<and> t = current_term ?n"
        using True rv by (cases rpc) auto
      ultimately show ?thesis using vote_reply_event(2) [of now ms r ?n out1 n1] nd(2) by simp
    next
      case False
      then have "?a = AppendReply v r" by (cases rpc) auto
      then show ?thesis using append_events(1) [OF nd(2)] by auto
    qed
    then have "bystander ?n n'" by (rule bystander_ballot [OF nd(3)])
    moreover have "mset (keys (flights w')) \<subseteq># mset (keys (flights w))"
      unfolding flw keys_w by (rule mset_subset_eq_add_left)
    ultimately show ?thesis
      using nd w' True old by (intro turn_bystander [OF inv c, where g = "[]" and n' = n']) auto
  next
    case False
    then obtain t c' li lt where rpc: "rpc = RequestVote t c' li lt" and r: "r = RequestVoteResp (current_term ?n) True"
      and cand: "nrole ?n = Candidate"
      by (cases "(?n, c, v, rpc, r)" rule: counted_vote.cases) (auto split: if_splits)
    have tt: "t = current_term ?n" "(v, t, c) \<in> set (granted w)" "v \<noteq> c" "v \<in> N" using fo rpc r by auto
    have cv: "counted_vote ?n c v rpc r = [(v, t, c)]" using rpc r cand tt by simp
    have n1: "node_name n' = node_name ?n" "peers n' = peers ?n" "current_term n' = current_term ?n" "voted_for n' = voted_for ?n"
      "nrole n' = Candidate \<and> votes_received n' = votes_received ?n + 1 \<or> nrole n' = Leader \<and> quorum ?n \<le> votes_received ?n + 1"
      using vote_reply_event(3) [of now ms r ?n out1 n1] nd(2,3) rpc r cand by (auto simp: ballot_def)
    have "keys [Rsp c v rpc r] = [(v, t, c)]" using rpc by (simp add: List.map_filter_simps)
    then show ?thesis
      using keys_w cv w' nd flw old by (intro counted_keeps [OF inv c _ n1 cand tt(1-3)]) auto
  qed
qed

section \<open>Election safety\<close>

fun action_of :: "bytes set \<Rightarrow> net_action \<Rightarrow> bool" where
  "action_of N (Tick i) \<longleftrightarrow> i \<in> N"
| "action_of N (Client i _ _) \<longleftrightarrow> i \<in> N"
| "action_of N _ \<longleftrightarrow> True"

lemma net_step_keeps:
  assumes "elect_inv N w" and "action_of N a" and "net_step f now ms a w = Some w'"
  shows "elect_inv N w'"
proof (cases a)
  case (Deliver k)
  show ?thesis
  proof (cases "k < length (flights w)")
    case True
    then show ?thesis
      using assms Deliver request_keeps [OF assms(1) True] response_keeps [OF assms(1) True]
      by (cases "flights w ! k") blast+
  qed (use assms Deliver in auto)
next
  case (Tick i)
  have "i \<in> N" using assms(2) Tick by simp
  from tick_keeps [OF assms(1) this assms(3) [unfolded Tick]] show ?thesis .
next
  case (Client i client cmd)
  have "i \<in> N" using assms(2) Client by simp
  from client_keeps [OF assms(1) this assms(3) [unfolded Client]] show ?thesis .
qed (use assms lose_keeps in auto)

lemma net_run_keeps:
  "elect_inv N w \<Longrightarrow> \<forall>(now, ms, a) \<in> set as. action_of N a \<Longrightarrow> net_run f as w = Some w' \<Longrightarrow> elect_inv N w'"
  by (induction f as w rule: net_run.induct) (auto split: option.splits intro: net_step_keeps)

lemma net_start_inv:
  assumes "distinct ids"
  shows "elect_inv (set ids) (net_start now ms s ids)"
  using assms by (auto simp: elect_inv_def net_start_def node_ok_def role_ok_def start_raft_def)

text \<open>The law the quorums need, and that the majorities of \<open>quorum\<close> have it.\<close>

locale quorum_system =
  fixes N :: "'a set" and is_quorum :: "'a set \<Rightarrow> bool"
  assumes meet: "is_quorum Q \<Longrightarrow> is_quorum Q' \<Longrightarrow> Q \<subseteq> N \<Longrightarrow> Q' \<subseteq> N \<Longrightarrow> Q \<inter> Q' \<noteq> {}"
begin

lemma one_winner:
  assumes "is_quorum {v \<in> N. votes v c}" and "is_quorum {v \<in> N. votes v c'}"
    and "\<And>v c c'. votes v c \<Longrightarrow> votes v c' \<Longrightarrow> c = c'"
  shows "c = c'"
  using meet [OF assms(1,2)] assms(3) by blast

end

interpretation majority: quorum_system "set ids" "\<lambda>Q. card (set ids) div 2 + 1 \<le> card Q" for ids :: "bytes list"
proof
  fix Q Q' :: "bytes set"
  assume q: "card (set ids) div 2 + 1 \<le> card Q" "card (set ids) div 2 + 1 \<le> card Q'" "Q \<subseteq> set ids" "Q' \<subseteq> set ids"
  show "Q \<inter> Q' \<noteq> {}"
  proof
    assume "Q \<inter> Q' = {}"
    moreover have "finite Q" "finite Q'" using q(3,4) by (auto intro: finite_subset)
    ultimately have "card Q + card Q' = card (Q \<union> Q')" by (simp add: card_Un_disjoint)
    also have "\<dots> \<le> card (set ids)" using q(3,4) by (intro card_mono) auto
    finally show False using q(1,2) by linarith
  qed
qed

lemma leader_quorum:
  assumes inv: "elect_inv (set ids) w" and "distinct ids" and i: "i \<in> set ids" "nrole (node_of w i) = Leader"
  shows "card (set ids) div 2 + 1 \<le> card {v \<in> set ids. (v, current_term (node_of w i), i) \<in> set (granted w)}"
proof -
  have ok: "node_ok (set ids) i (node_of w i)" and "role_ok (granted w) (tallied w) i (node_of w i)"
    and gr: "\<forall>x \<in> set (granted w). vote_ok (set ids) (node_of w) x"
    using inv i by (auto simp: elect_inv_def)
  then have "quorum (node_of w i) \<le> card (voters (granted w) (current_term (node_of w i)) i)" using i by (simp add: role_ok_def)
  moreover have "voters (granted w) t i = {v \<in> set ids. (v, t, i) \<in> set (granted w)}" for t
    using gr by (auto simp: voters_def vote_ok_def)
  moreover have "card (set ids) = length (peers (node_of w i)) + 1"
    using ok i by (metis node_ok_def distinct_card Suc_eq_plus1 List.finite_set card_Suc_Diff1)
  ultimately show ?thesis by (simp add: quorum_def)
qed

lemma one_leader:
  assumes "elect_inv (set ids) w" and "distinct ids" and i: "i \<in> set ids" "nrole (node_of w i) = Leader"
    and j: "j \<in> set ids" "nrole (node_of w j) = Leader" and eq: "current_term (node_of w i) = current_term (node_of w j)"
  shows "i = j"
proof (rule majority.one_winner [where votes = "\<lambda>v c. (v, current_term (node_of w i), c) \<in> set (granted w)"])
  show "card (set ids) div 2 + 1 \<le> card {v \<in> set ids. (v, current_term (node_of w i), i) \<in> set (granted w)}"
    by (rule leader_quorum [OF assms(1,2) i])
  show "card (set ids) div 2 + 1 \<le> card {v \<in> set ids. (v, current_term (node_of w i), j) \<in> set (granted w)}"
    using leader_quorum [OF assms(1,2) j] eq by simp
qed (use assms(1) in \<open>auto simp: elect_inv_def\<close>)

section \<open>A run in which two nodes apply different commands\<close>

text \<open>
  Three nodes, drawn timeouts of 150 ms. \<open>b\<close> leads in term 1 and appends a command that reaches
  nobody. \<open>a\<close> leads in term 2; its heartbeat, sent before it has any entry, reaches \<open>b\<close>, and \<open>b\<close> acknowledges
  its own last index. \<open>a\<close>, which has appended a command of its own by then, takes this for a copy
  of it and commits. \<open>b\<close> then leads in term 3, brings \<open>c\<close> to its log and commits that.
\<close>

definition at_time :: "nat \<Rightarrow> net_action list \<Rightarrow> (nat \<times> nat \<times> net_action) list" where
  "at_time t as = map (\<lambda>a. (t, 150, a)) as"

definition split_run :: "bytes \<Rightarrow> bytes \<Rightarrow> bytes \<Rightarrow> (nat \<times> nat \<times> net_action) list" where
  "split_run x y z =
     at_time 10200 [Tick ''b'', Deliver 1, Deliver 1, Lose 0, Client ''b'' 7 x, Lose 0, Lose 0] @
     at_time 10400 [Tick ''a'', Lose 0, Lose 0] @
     at_time 10600 [Tick ''a'', Lose 0, Deliver 0, Deliver 0, Tick ''a'', Client ''a'' 9 y, Deliver 0, Deliver 3,
       Lose 0, Lose 0, Lose 0] @
     at_time 11000 [Tick ''b'', Lose 0, Deliver 0, Deliver 0, Client ''b'' 8 z, Lose 0, Deliver 0, Deliver 0] @
     at_time 11100 [Tick ''b'', Lose 0, Deliver 0, Deliver 0]"

lemmas turn_simps = turn_def run_node_def without_def self_vote_def silent_def handler_defs send_append_entries_to_def
  try_advance_commit_def quorum_def last_log_index_def last_log_term_def log_term_at_def merge_entries_def
  HEARTBEAT_MS_def start_raft_def upt_rec apply_committed.simps

lemma parse_serialized: "wf_frame f \<Longrightarrow> parse_frame (serialize_frame f) = Inr (Some (f, length (serialize_frame f)))"
  using parse_frame_write [of f "[]"] by (simp add: serialize_frame_def)

lemma split_run_result:
  assumes "wf_frame X" and "wf_frame Y" and "wf_frame Z"
  shows "\<exists>w. net_run f (split_run (serialize_frame X) (serialize_frame Y) (serialize_frame Z))
      (net_start 10000 150 s [''a'', ''b'', ''c'']) = Some w \<and>
    machine_of w ''a'' = snd (f Y s) \<and> machine_of w ''b'' = snd (f Z (snd (f X s))) \<and>
    answers_to w = [(9, fst (f Y s)), (7, fst (f X s)), (8, fst (f Z (snd (f X s))))]"
  by (simp add: parse_serialized assms split_run_def at_time_def net_start_def turn_simps case_prod_unfold)

end
