(* ===== verification/Process.thy ===== *)
theory Process
  imports Server Raft_Election
begin

text \<open>
  A whole node: the connections of the server and the tasks beside them (the follower's stream, the
  heartbeats, the Raft loop), all on the shared context of the process. A task's turn is atomic. What
  the tasks keep in every interleaving, and a peer's \<open>PING\<close> as \<open>try_ping\<close> of \<open>src/cluster/mod.rs\<close> reads it.
\<close>

section \<open>The tasks\<close>

text \<open>
  The \<open>ApplyFn\<close> of \<open>main\<close>: a committed command runs in a replay context on the shared store. A panic of
  the command ends the task: \<open>None\<close>.
\<close>

type_synonym machine = "(nat \<times> store \<times> replication) option"

definition apply_fn :: "(nat \<Rightarrow> env) \<Rightarrow> frame \<Rightarrow> machine \<Rightarrow> frame \<times> machine" where
  "apply_fn ev f m =
     (case m of
        None \<Rightarrow> (Bulk None, None)
      | Some (k, s, r) \<Rightarrow>
          (case execute (ev k) f (replay_ctx s r) of
             None \<Rightarrow> (Bulk None, None)
           | Some (resp, c) \<Rightarrow> (resp, Some (k + 1, ctx_store c, repl c))))"

record node = process +
  stream_buf :: bytes
  raft_io :: "raft_out list"

datatype node_event =
    Connection server_event
  | LeaderStream bytes "nat \<Rightarrow> env"
  | Beat "bytes \<Rightarrow> bool" nat
  | RaftTurn nat nat raft_event "nat \<Rightarrow> env"

definition node_ctx :: "node \<Rightarrow> ctx" where
  "node_ctx p = shared (main_server p)"

definition with_ctx :: "ctx \<Rightarrow> node \<Rightarrow> node" where
  "with_ctx c p = p\<lparr>main_server := (main_server p)\<lparr>shared := c\<rparr>\<rparr>"

definition raft_view :: "raft_node \<Rightarrow> raft_handle" where
  "raft_view n = \<lparr>raft_is_leader = leader_flag n, raft_leader = leader_id n\<rparr>"

text \<open>One read of the follower's connection to its leader; the end of the stream drops the buffer.\<close>

definition stream_turn :: "(nat \<Rightarrow> env) \<Rightarrow> bytes \<Rightarrow> node \<Rightarrow> node option" where
  "stream_turn ev chunk p =
     (case follower_task p of
        None \<Rightarrow> Some p
      | Some leader \<Rightarrow>
          if chunk = [] then Some (p\<lparr>stream_buf := []\<rparr>)
          else (case follow ev (stream_buf p @ chunk)
                       \<lparr>applied = 0, fstore = ctx_store (node_ctx p), frepl = repl (node_ctx p)\<rparr> of
                  None \<Rightarrow> None
                | Some (buf, w) \<Rightarrow>
                    Some (with_ctx (with_store (fstore w) (node_ctx p)\<lparr>repl := frepl w\<rparr>) p\<lparr>stream_buf := buf\<rparr>)))"

text \<open>One round of the heartbeat task.\<close>

definition beat_turn :: "(bytes \<Rightarrow> bool) \<Rightarrow> nat \<Rightarrow> node \<Rightarrow> node option" where
  "beat_turn ping now p =
     (case (heartbeat_task p, cluster (node_ctx p), chealth (node_ctx p)) of
        (Some me, Some cfg, Some t) \<Rightarrow>
          (case heartbeat_round ping now me \<lparr>config = cfg, health = t, outbox = sent (node_ctx p)\<rparr> of
             None \<Rightarrow> None
           | Some m \<Rightarrow>
               Some (with_ctx (node_ctx p\<lparr>cluster := Some (config m), chealth := Some (health m), sent := outbox m\<rparr>) p))
      | _ \<Rightarrow> Some p)"

text \<open>One turn of the Raft loop; the handle the commands see follows the node.\<close>

definition raft_turn :: "nat \<Rightarrow> nat \<Rightarrow> raft_event \<Rightarrow> (nat \<Rightarrow> env) \<Rightarrow> node \<Rightarrow> node option" where
  "raft_turn now ms a ev p =
     (case raft_task p of
        None \<Rightarrow> Some p
      | Some n \<Rightarrow>
          (case run_node (apply_fn ev) now ms a (n, Some (0, ctx_store (node_ctx p), repl (node_ctx p))) of
             Some (out, n', Some (k, s, r)) \<Rightarrow>
               Some (with_ctx (with_store s (node_ctx p)\<lparr>repl := r, raft := Some (raft_view n')\<rparr>) p
                       \<lparr>raft_task := Some n', raft_io := raft_io p @ [out]\<rparr>)
           | _ \<Rightarrow> None))"

fun node_step :: "node_event \<Rightarrow> node \<Rightarrow> node option" where
  "node_step (Connection a) p = map_option (\<lambda>s. p\<lparr>main_server := s\<rparr>) (server_step a (main_server p))"
| "node_step (LeaderStream chunk ev) p = stream_turn ev chunk p"
| "node_step (Beat ping now) p = beat_turn ping now p"
| "node_step (RaftTurn now ms a ev) p = raft_turn now ms a ev p"

fun node_event_ok :: "node_event \<Rightarrow> bool" where
  "node_event_ok (Connection a) \<longleftrightarrow> event_ok a"
| "node_event_ok (LeaderStream chunk ev) \<longleftrightarrow> (\<forall>n. rand_ok (ev n))"
| "node_event_ok (Beat ping now) \<longleftrightarrow> True"
| "node_event_ok (RaftTurn now ms a ev) \<longleftrightarrow> (\<forall>n. rand_ok (ev n))"

definition node_start :: "process \<Rightarrow> node" where
  "node_start p = process.extend p \<lparr>stream_buf = [], raft_io = []\<rparr>"

inductive node_reachable :: "node \<Rightarrow> node \<Rightarrow> bool" for p0 where
  start: "node_reachable p0 p0"
| step: "node_reachable p0 p \<Longrightarrow> node_event_ok a \<Longrightarrow> node_step a p = Some p' \<Longrightarrow> node_reachable p0 p'"

section \<open>Commands and the cluster configuration\<close>

text \<open>
  A command leaves the configuration alone or replaces it by one that \<open>ClusterConfig::new\<close> built for the
  same address; it never touches the Raft handle.
\<close>

definition regroups :: "ctx \<Rightarrow> ctx \<Rightarrow> bool" where
  "regroups c c' \<longleftrightarrow> raft c' = raft c \<and> (chealth c' = None \<longleftrightarrow> chealth c = None) \<and>
     (cluster c' = cluster c \<or>
      (\<exists>cfg cfg' ns. cluster c = Some cfg \<and> cluster c' = Some cfg' \<and> cluster_new ns (my_addr cfg) = Some (Inr cfg')))"

lemma regroups_refl [simp]: "regroups c c"
  by (simp add: regroups_def)

text \<open>The parts of a context that only the cluster commands change.\<close>

definition settings :: "ctx \<Rightarrow> raft_handle option \<times> cluster_config option \<times> health_table option" where
  "settings c = (raft c, cluster c, chealth c)"

lemma settings_send [simp]:
  "settings (snd (send_internal e a f c)) = settings c" "settings (snd (proxy_to e a f c)) = settings c"
  by (simp_all add: send_internal_def proxy_to_def settings_def)

lemma settings_send_all [simp]: "settings (send_all e f as c) = settings c"
  by (induction as arbitrary: c) simp_all

lemma settings_push_loop: "settings (snd (push_loop e a es n c)) = settings c"
  by (induction es arbitrary: n c rule: list.induct)
    (auto simp: Let_def settings_def split: call_result.split prod.split)

lemma settings_push [simp]: "settings (snd (push_entries_to e a es c)) = settings c"
proof -
  obtain n c' where x: "push_loop e a es 0 c = (n, c')" by fastforce
  with settings_push_loop [of e a es 0 c] show ?thesis by (cases n) (simp_all add: push_entries_to_def)
qed

lemma settings_with_store [simp]: "settings (with_store s c) = settings c"
  by (simp add: settings_def with_store_def)

lemma settings_move [simp]: "settings (snd (move_slots e ts n c)) = settings c"
  by (induction e ts n c rule: move_slots.induct) (auto simp: case_prod_unfold)

lemma settings_regroups: "settings c' = settings c \<Longrightarrow> regroups c c'"
  by (simp add: settings_def regroups_def)

lemma settings_eq: "settings c = (raft c, cluster c, chealth c)"
  by (simp add: settings_def)

lemma rebalance_regroups:
  assumes "rebalance e old new (my_addr cfg) c0 = Some (r, c')" and "settings c0 = settings c" and "cluster c = Some cfg"
  shows "regroups c c'"
proof -
  obtain o' n' where n': "cluster_new new (my_addr cfg) = Some (Inr n')"
    and c': "c' = (snd (move_slots e (slots_to_send o' n') 0 c0))\<lparr>cluster := Some n'\<rparr>"
    using assms(1) by (auto simp: rebalance_def split: option.splits sum.splits)
  have "settings (snd (move_slots e (slots_to_send o' n') 0 c0)) = settings c" using assms(2) by simp
  with n' c' assms(3) show ?thesis by (auto simp: regroups_def settings_def)
qed

lemma meet_regroups: "cluster_meet e args c = Some (r, c') \<Longrightarrow> regroups c c'"
  by (auto simp: cluster_meet_def Let_def split: option.splits if_splits elim!: rebalance_regroups)

lemma sync_regroups: "cluster_sync e args c = Some (r, c') \<Longrightarrow> regroups c c'"
  by (auto simp: cluster_sync_def Let_def split: option.splits if_splits elim!: rebalance_regroups)

lemma drain_regroups: "cluster_drain e args c = Some (r, c') \<Longrightarrow> regroups c c'"
  by (auto simp: cluster_drain_def Let_def case_prod_unfold settings_regroups split: option.splits if_splits)

lemma forget_regroups:
  assumes "cluster_forget e args c = Some (r, c')"
  shows "regroups c c'"
proof -
  have "settings c' = settings c \<or> (\<exists>cfg n' ns. cluster c = Some cfg \<and> cluster_new ns (my_addr cfg) = Some (Inr n') \<and>
      settings c' = settings (c\<lparr>cluster := Some n'\<rparr>))"
    using assms by (auto simp: cluster_forget_def Let_def case_prod_unfold
      split: option.splits if_splits sum.splits frame.splits)
  then show ?thesis by (auto simp: regroups_def settings_def)
qed

lemma gossip_regroups: "regroups c (snd (cluster_gossip e args c))"
  by (simp add: cluster_gossip_def regroups_def split: option.split)

lemma cluster_regroups:
  assumes "cmd_cluster e args c = Some (r, c')"
  shows "regroups c c'"
proof -
  have "c' = c \<or> c' = snd (cluster_gossip e args c) \<or> cluster_meet e args c = Some (r, c') \<or>
    cluster_forget e args c = Some (r, c') \<or> cluster_sync e args c = Some (r, c') \<or> cluster_drain e args c = Some (r, c')"
    using assms by (simp add: cmd_cluster_def Let_def split: if_splits)
  then show ?thesis
    by (elim disjE) (simp_all add: gossip_regroups meet_regroups sync_regroups drain_regroups forget_regroups)
qed

lemma migrate_settings: "settings (snd (cmd_migrate e args c)) = settings c"
  by (auto simp: cmd_migrate_def Let_def send_internal_def case_prod_unfold with_store_def settings_def
      split: option.splits frame.splits)

lemma dispatch_regroups:
  assumes "dispatch cmd e args c = Some (r, c')"
  shows "regroups c c'"
proof -
  have entries: "map_of dispatch_table ''CLUSTER'' = Some cmd_cluster"
    "map_of dispatch_table ''MIGRATE'' = Some (\<lambda>e args c. Some (cmd_migrate e args c))" by (simp_all add: table_defs)
  show ?thesis
  proof (cases "cmd \<in> {''CLUSTER'', ''MIGRATE''}")
    case True
    then show ?thesis using assms migrate_settings [of e args c]
      by (auto simp: dispatch_def entries cluster_regroups settings_regroups)
  next
    case False
    from dispatch_data [OF assms False] show ?thesis
      by (metis settings_regroups settings_eq ctx.select_convs(3,4,5) ctx.surjective ctx.update_convs(1))
  qed
qed

lemma execute_regroups:
  assumes "execute e f c = Some (r, c')"
  shows "regroups c c'"
proof -
  have "settings c' = settings c \<or> (\<exists>args cmd. run_local e cmd args c = Some (r, c'))"
    using assms
    by (auto simp: execute_def proxy_to_def settings_def split: frame.splits option.splits sum.splits if_splits)
  moreover have "regroups c c'" if x: "run_local e cmd args c = Some (r, c')" for cmd args
  proof -
    have "\<exists>c1. regroups c c1 \<and> settings c' = settings c1"
      using x
      by (auto simp: run_local_def Let_def settings_def intro: regroups_refl split: option.splits if_splits dest!: dispatch_regroups)
    then show ?thesis by (auto simp: regroups_def settings_def)
  qed
  ultimately show ?thesis using settings_regroups by blast
qed

section \<open>The heartbeat task never panics\<close>

lemma wf_config_small:
  assumes "wf_config c"
  shows "card (set (nodes c)) \<le> NUM_SLOTS" and "my_addr c \<in> set (nodes c)"
  using assms slot_table_owner(3) [of "length (nodes c)"] by (auto simp: wf_config_def distinct_card my_addr_def)

lemma auto_heal_wf:
  assumes "wf_config (config m)" and "my_addr (config m) = me" and "f \<noteq> me"
  shows "\<exists>m'. auto_heal f me m = Some m' \<and> wf_config (config m') \<and> my_addr (config m') = me"
proof (cases "f \<in> set (nodes (config m))")
  case True
  let ?new = "filter (\<lambda>a. a \<noteq> f) (nodes (config m))"
  have me: "me \<in> set (nodes (config m))" using wf_config_small(2) [OF assms(1)] assms(2) by simp
  have "card (set ?new) \<le> card (set (nodes (config m)))" by (rule card_mono) auto
  then have "card (set ?new) \<le> NUM_SLOTS" using wf_config_small(1) [OF assms(1)] by linarith
  moreover have "me \<in> set ?new" using me assms(3) by simp
  ultimately obtain c where c: "cluster_new ?new me = Some (Inr c)" using cluster_new_defined by blast
  have "\<exists>m'. auto_heal f me m = Some m'"
    by (simp add: auto_heal_def Let_def c)
  then obtain m' where m': "auto_heal f me m = Some m'" by blast
  with auto_heal_spec(2,3) [OF True me _ m'] assms(3) show ?thesis by auto
qed (use assms in \<open>simp add: auto_heal_def\<close>)

lemma heartbeat_peer_wf:
  assumes "wf_config (config m)" and "my_addr (config m) = me"
  shows "\<exists>m'. heartbeat_peer ping now me p m = Some m' \<and> wf_config (config m') \<and> my_addr (config m') = me"
proof -
  obtain st t where x: "record_miss now p (health m) = (st, t)" by fastforce
  show ?thesis
    using assms auto_heal_wf [of "m\<lparr>health := t\<rparr>" me p]
    by (auto simp: heartbeat_peer_def x Let_def send_def)
qed

lemma heartbeat_peers_wf:
  assumes "wf_config (config m)" and "my_addr (config m) = me"
  shows "\<exists>m'. heartbeat_peers ping now me ps m = Some m' \<and> wf_config (config m') \<and> my_addr (config m') = me"
  using assms
proof (induction ps arbitrary: m)
  case (Cons p ps)
  obtain m1 where "heartbeat_peer ping now me p m = Some m1" "wf_config (config m1)" "my_addr (config m1) = me"
    using heartbeat_peer_wf [OF Cons.prems] by blast
  with Cons.IH [of m1] show ?case by simp
qed simp

lemma heartbeat_round_wf:
  assumes "wf_config (config m)"
  shows "\<exists>m'. heartbeat_round ping now (my_addr (config m)) m = Some m' \<and> wf_config (config m') \<and>
    my_addr (config m') = my_addr (config m)"
  using heartbeat_peers_wf [of "m\<lparr>health := sync_nodes now (nodes (config m)) (health m)\<rparr>" "my_addr (config m)"] assms
  by (simp add: heartbeat_round_def Let_def)

section \<open>The invariant of a node\<close>

definition settings_ok :: "bytes option \<Rightarrow> ctx \<Rightarrow> bool" where
  "settings_ok me c \<longleftrightarrow>
     (case cluster c of
        None \<Rightarrow> me = None
      | Some cfg \<Rightarrow> wf_config cfg \<and> me = Some (my_addr cfg) \<and> chealth c \<noteq> None)"

definition node_inv :: "node \<Rightarrow> bool" where
  "node_inv p \<longleftrightarrow> server_inv (main_server p) \<and> settings_ok (heartbeat_task p) (node_ctx p) \<and>
     raft (node_ctx p) = map_option raft_view (raft_task p) \<and> pred_option settled_node (raft_task p)"

lemma settings_ok_regroups: "regroups c c' \<Longrightarrow> settings_ok me c \<Longrightarrow> settings_ok me c'"
  by (auto simp: regroups_def settings_ok_def cluster_new_wf(1,2) split: option.splits)

lemma server_step_ctx:
  assumes step: "\<And>c e g r c'. P c \<Longrightarrow> execute e g c = Some (r, c') \<Longrightarrow> P c'"
    and close: "\<And>f c. P c \<Longrightarrow> P (map_metrics f c)"
    and s: "P (shared s)" and s': "server_step a s = Some s'"
  shows "P (shared s')"
proof (cases a)
  case Accept
  then show ?thesis using s s' close by (auto simp: Let_def)
next
  case (Receive i chunk ev)
  show ?thesis
  proof (cases "map_of (conns s) i")
    case (Some x)
    obtain buf se where x: "x = (buf, se)" by fastforce
    obtain buf' se' where r: "handle_read ev chunk (buf, se\<lparr>sctx := shared s\<rparr>) = Some (buf', se')"
      and t: "s' = settle i buf' se' s"
      using s' Receive Some x by (auto split: option.splits)
    have "P (sctx se')" by (rule handle_read_ctx [where P = P, OF step _ r]) (use s in simp_all)
    with t close show ?thesis by (simp add: settle_def)
  qed (use s s' Receive in simp)
next
  case (Forward i)
  then show ?thesis using s s' close by (auto simp: settle_def sync_forward_ctx split: option.splits)
qed

lemma settings_ok_simps [simp]:
  "settings_ok me (map_metrics f c) = settings_ok me c" "settings_ok me (with_store s c) = settings_ok me c"
  "settings_ok me (c\<lparr>repl := r\<rparr>) = settings_ok me c" "settings_ok me (c\<lparr>raft := h\<rparr>) = settings_ok me c"
  by (simp_all add: settings_ok_def map_metrics_def with_store_def split: option.split)

lemma raft_metrics [simp]: "raft (map_metrics f c) = raft c"
  by (simp add: map_metrics_def)

lemma connection_inv:
  assumes "node_inv p" and "event_ok a" and "server_step a (main_server p) = Some s"
  shows "node_inv (p\<lparr>main_server := s\<rparr>)"
proof -
  let ?P = "\<lambda>c. settings_ok (heartbeat_task p) c \<and> raft c = map_option raft_view (raft_task p)"
  have "?P (shared s)"
  proof (rule server_step_ctx [where P = ?P, OF _ _ _ assms(3)])
    show "?P c'" if "?P c" and "execute e g c = Some (r, c')" for c e g r c'
      using that execute_regroups [OF that(2)] settings_ok_regroups [of c c'] by (simp add: regroups_def)
  qed (use assms(1) in \<open>simp_all add: node_inv_def node_ctx_def\<close>)
  with assms server_step_inv show ?thesis by (auto simp: node_inv_def node_ctx_def)
qed

text \<open>A replay keeps the store well-formed, in the follower's task and in the Raft task.\<close>

lemma replay_inv:
  assumes "store_inv s" and "rand_ok e" and "execute e f (replay_ctx s r) = Some (resp, c)"
  shows "store_inv (ctx_store c)"
proof -
  have "keeps_inv e (cdb (replay_ctx s r)) (cdb c)" by (rule inv.execute_R [OF assms(3)]) simp
  with assms(1,2) show ?thesis by (simp add: keeps_inv_def replay_ctx_def)
qed

lemma follow_inv:
  assumes "follow ev buf w = Some (buf', w')" and "\<And>n. rand_ok (ev n)" and "store_inv (fstore w)"
  shows "store_inv (fstore w')"
  using assms
proof (induction ev buf w rule: follow.induct)
  case (1 ev buf w)
  show ?case
  proof (cases "parse_frame buf")
    case (Inr x)
    show ?thesis
    proof (cases x)
      case (Some y)
      obtain f n where y: "y = (f, n)" by fastforce
      obtain r c where e: "execute (ev (applied w)) f (replay_ctx (fstore w) (frepl w)) = Some (r, c)"
        and rest: "follow ev (drop n buf) \<lparr>applied = applied w + 1, fstore = ctx_store c, frepl = repl c\<rparr> = Some (buf', w')"
        using "1.prems"(1) Inr Some y by (subst (asm) follow.simps) (auto split: option.splits)
      have "store_inv (ctx_store c)" by (rule replay_inv [OF "1.prems"(3,2) e])
      with "1.IH" [OF Inr Some y [symmetric] e refl rest "1.prems"(2)] show ?thesis by simp
    qed (use "1.prems" Inr in \<open>subst (asm) follow.simps, simp\<close>)
  qed (use "1.prems" in \<open>subst (asm) follow.simps, auto\<close>)
qed

lemma node_ctx_with [simp]: "node_ctx (with_ctx c p) = c"
  by (simp add: node_ctx_def with_ctx_def)

lemma server_inv_store:
  assumes "server_inv s" and "store_inv st"
  shows "server_inv (s\<lparr>shared := (with_store st (shared s))\<lparr>repl := r\<rparr>\<rparr>)"
    and "server_inv (s\<lparr>shared := (with_store st (shared s))\<lparr>repl := r, raft := h\<rparr>\<rparr>)"
  using assms by (simp_all add: server_inv_def ctx_ok_def with_store_def)

lemma stream_inv:
  assumes "node_inv p" and "\<And>n. rand_ok (ev n)" and "stream_turn ev chunk p = Some p'"
  shows "node_inv p'"
proof (cases "follower_task p = None \<or> chunk = []")
  case True
  then show ?thesis using assms(1,3) by (auto simp: stream_turn_def node_inv_def node_ctx_def split: option.splits)
next
  case False
  let ?w = "\<lparr>applied = 0, fstore = ctx_store (node_ctx p), frepl = repl (node_ctx p)\<rparr>"
  from False obtain leader where l: "follower_task p = Some leader" "chunk \<noteq> []" by auto
  obtain x where x: "follow ev (stream_buf p @ chunk) ?w = Some x"
    using assms(3) l by (cases "follow ev (stream_buf p @ chunk) ?w") (simp_all add: stream_turn_def)
  obtain buf w where bw: "x = (buf, w)" by (rule prod.exhaust)
  note f = x [unfolded bw]
  have p': "p' = with_ctx (with_store (fstore w) (node_ctx p)\<lparr>repl := frepl w\<rparr>) p\<lparr>stream_buf := buf\<rparr>"
    using assms(3) l f by (simp add: stream_turn_def)
  have "store_inv (ctx_store (node_ctx p))" using assms(1) by (simp add: node_inv_def server_inv_def ctx_ok_def node_ctx_def)
  with follow_inv [OF f assms(2)] have "store_inv (fstore w)" by simp
  moreover have "server_inv (main_server p)" using assms(1) by (simp add: node_inv_def)
  ultimately have "server_inv (main_server p')"
    using server_inv_store(1) [of "main_server p" "fstore w" "frepl w"] by (simp add: p' with_ctx_def node_ctx_def)
  moreover have "node_ctx p' = with_store (fstore w) (node_ctx p)\<lparr>repl := frepl w\<rparr>"
    "heartbeat_task p' = heartbeat_task p" "raft_task p' = raft_task p"
    by (simp_all add: p' node_ctx_def with_ctx_def)
  ultimately show ?thesis using assms(1) by (simp add: node_inv_def) (simp add: with_store_def)
qed

lemma beat_inv:
  assumes "node_inv p"
  shows "\<exists>p'. beat_turn ping now p = Some p' \<and> node_inv p'"
proof (cases "cluster (node_ctx p)")
  case (Some cfg)
  then obtain t where wf: "wf_config cfg" and me: "heartbeat_task p = Some (my_addr cfg)" and t: "chealth (node_ctx p) = Some t"
    using assms by (auto simp: node_inv_def settings_ok_def)
  obtain m where "heartbeat_round ping now (my_addr cfg) \<lparr>config = cfg, health = t, outbox = sent (node_ctx p)\<rparr> = Some m"
    and "wf_config (config m)" "my_addr (config m) = my_addr cfg"
    using heartbeat_round_wf [of "\<lparr>config = cfg, health = t, outbox = sent (node_ctx p)\<rparr>"] wf by auto
  with Some me t assms show ?thesis
    by (simp add: beat_turn_def node_inv_def server_inv_def ctx_ok_def node_ctx_def with_ctx_def settings_ok_def)
qed (use assms in \<open>auto simp: beat_turn_def split: option.splits\<close>)

lemma apply_fn_inv:
  assumes "\<And>n. rand_ok (ev n)" and "\<forall>k s r. m = Some (k, s, r) \<longrightarrow> store_inv s"
  shows "\<forall>k s r. snd (apply_fn ev f m) = Some (k, s, r) \<longrightarrow> store_inv s"
  using assms replay_inv by (auto simp: apply_fn_def split: option.splits prod.splits) blast

lemma apply_committed_machine:
  assumes "\<And>fr s. P s \<Longrightarrow> P (snd (f fr s))" and "P s" and "apply_committed f n s = Some (rs, n', s')"
  shows "P s'"
  using assms
proof (induction f n s arbitrary: rs rule: apply_committed.induct)
  case (1 f n s)
  show ?case
  proof (cases "last_applied n < commit_index n \<and> \<not> length (log n) \<le> last_applied n + 1")
    case True
    let ?i = "last_applied n + 1"
    obtain resp s1 where x: "(case parse_frame (command (log n ! ?i)) of Inr (Some (fr, _)) \<Rightarrow> f fr s
        | _ \<Rightarrow> (Error ''ERR corrupt log entry'', s)) = (resp, s1)" by fastforce
    have "P s1" using x "1.prems"(1,2) by (auto split: sum.splits option.splits prod.splits) (metis snd_conv)
    moreover obtain rs' where "apply_committed f (n\<lparr>last_applied := ?i, pending := AList.delete ?i (pending n)\<rparr>) s1 = Some (rs', n', s')"
      using "1.prems"(3) True x by (subst (asm) apply_committed.simps) (auto simp: Let_def split: option.splits)
    ultimately show ?thesis using "1.IH" [OF _ refl _ x [symmetric] refl refl] True "1.prems"(1) by auto
  qed (use "1.prems" in \<open>subst (asm) apply_committed.simps, auto split: if_splits\<close>)
qed

lemma run_node_machine:
  assumes "\<And>fr s. P s \<Longrightarrow> P (snd (f fr s))" and "P s" and "run_node f now ms a (n, s) = Some (out, n', s')"
  shows "P s'"
proof (cases "skips a")
  case False
  obtain o1 n1 where h: "handle_event now ms a n = (o1, n1)" by fastforce
  obtain rs n2 where "apply_committed f n1 s = Some (rs, n2, s')"
    using assms(3) False h by (auto simp: run_node_def split: option.splits)
  from apply_committed_machine [of P, OF assms(1,2) this] show ?thesis .
qed (use assms in \<open>simp add: run_node_def\<close>)

lemma raft_inv:
  assumes "node_inv p" and "\<And>n. rand_ok (ev n)" and "raft_turn now ms a ev p = Some p'"
  shows "node_inv p'"
proof (cases "raft_task p")
  case (Some n)
  let ?m = "Some (0, ctx_store (node_ctx p), repl (node_ctx p))"
  let ?ok = "\<lambda>m :: machine. \<forall>k s r. m = Some (k, s, r) \<longrightarrow> store_inv s"
  obtain out n' m where t: "run_node (apply_fn ev) now ms a (n, ?m) = Some (out, n', m)" "settled_node n'"
    using run_node_total [of n "apply_fn ev" now ms a ?m] assms(1) Some by (auto simp: node_inv_def)
  have "m \<noteq> None" using assms(3) Some t(1) by (cases m) (simp_all add: raft_turn_def)
  then obtain k s r where m: "m = Some (k, s, r)" by (cases m) (simp_all, metis prod.exhaust)
  have "store_inv (ctx_store (node_ctx p))" using assms(1) by (simp add: node_inv_def server_inv_def ctx_ok_def node_ctx_def)
  then have "?ok m"
    by (intro run_node_machine [of ?ok "apply_fn ev", OF apply_fn_inv [OF assms(2)] _ t(1)]) auto
  then have "store_inv s" using m by simp
  moreover have p': "p' = with_ctx (with_store s (node_ctx p)\<lparr>repl := r, raft := Some (raft_view n')\<rparr>) p
      \<lparr>raft_task := Some n', raft_io := raft_io p @ [out]\<rparr>"
    using assms(3) Some t(1) m by (simp add: raft_turn_def)
  moreover have "server_inv (main_server p)" using assms(1) by (simp add: node_inv_def)
  ultimately have "server_inv (main_server p')"
    using server_inv_store(2) [where s = "main_server p" and st = s and r = r and h = "Some (raft_view n')"] by (simp add: with_ctx_def node_ctx_def)
  moreover have "node_ctx p' = with_store s (node_ctx p)\<lparr>repl := r, raft := Some (raft_view n')\<rparr>"
    "heartbeat_task p' = heartbeat_task p" "raft_task p' = Some n'"
    by (simp_all add: p' node_ctx_def with_ctx_def)
  ultimately show ?thesis using assms(1) t(2) by (simp add: node_inv_def)
qed (use assms in \<open>simp add: raft_turn_def\<close>)

lemma node_step_inv:
  assumes "node_inv p" and "node_event_ok a" and "node_step a p = Some p'"
  shows "node_inv p'"
proof (cases a)
  case (Connection x)
  then obtain s where "server_step x (main_server p) = Some s" "p' = p\<lparr>main_server := s\<rparr>"
    using assms(3) by (cases "server_step x (main_server p)") simp_all
  with connection_inv [OF assms(1)] assms(2) Connection show ?thesis by simp
next
  case (LeaderStream chunk ev)
  with assms(2,3) show ?thesis by (auto intro: stream_inv [OF assms(1)])
next
  case (Beat ping now)
  with beat_inv [OF assms(1)] assms(3) show ?thesis by (metis node_step.simps(3) option.inject)
next
  case (RaftTurn now ms x ev)
  with assms(2,3) show ?thesis by (auto intro: raft_inv [OF assms(1)])
qed

lemma node_reachable_inv: "node_reachable p0 p \<Longrightarrow> node_inv p0 \<Longrightarrow> node_inv p"
  by (induction rule: node_reachable.induct) (blast intro: node_step_inv)+

text \<open>A process that starts, starts in the invariant.\<close>

lemma boot_store_inv:
  assumes "boot_store ev files a = Some (d, r)" and "\<And>n. rand_ok (ev n)"
  shows "store_inv (kv d)"
proof (cases "arg_aof a")
  case (Some path)
  then obtain c where c: "execute_all ev (load_frames (files path)) (replay_ctx store_new (boot_repl a)) = Some c"
    and d: "kv d = ctx_store c"
    using assms(1) by (auto simp: boot_store_def split: option.splits)
  have "(\<lambda>x y. \<exists>i. keeps_inv (ev i) x y)\<^sup>*\<^sup>* (cdb (replay_ctx store_new (boot_repl a))) (cdb c)"
    by (rule inv.execute_all_R [OF _ c]) simp
  then have "store_inv (kv (cdb c))"
    by (induction rule: rtranclp_induct) (use assms(2) in \<open>auto simp: keeps_inv_def replay_ctx_def store_inv_new\<close>)
  with d show ?thesis by simp
qed (use assms in \<open>auto simp: boot_store_def store_inv_new\<close>)

lemma boot_inv:
  assumes "boot ev now ms files a = Some (Inr p)" and "\<And>n. rand_ok (ev n)"
  shows "node_inv (node_start p)"
proof -
  obtain d r where d: "boot_store ev files a = Some (d, r)"
    using assms(1) by (cases "boot_store ev files a") (auto simp: boot_def)
  obtain cl where cl: "boot_cluster now a = Some (Inr cl)"
    using assms(1) d by (auto simp: boot_def split: option.splits sum.splits)
  have "settings_ok (map_option (\<lambda>x. snd (snd x)) cl) c"
    if "cluster c = map_option fst cl" "chealth c = map_option (\<lambda>x. fst (snd x)) cl" for c
    using that cl by (auto simp: settings_ok_def boot_cluster_def cluster_new_wf split: option.splits sum.splits)
  moreover have "pred_option settled_node (boot_raft now ms a)"
    by (auto simp: boot_raft_def settled_node_def start_raft_def reset_election_timeout_def split: option.split)
  moreover have "metrics_inv (metrics_new now (arg_host a) (arg_port a))"
    "connections_active (metrics_new now (arg_host a) (arg_port a)) = 0"
    "connections_total (metrics_new now (arg_host a) (arg_port a)) = 0"
    by (simp_all add: metrics_new_def metrics_inv_def)
  moreover have "store_inv (kv d)" by (rule boot_store_inv [OF d assms(2)])
  moreover have "raft_view = (\<lambda>n. \<lparr>raft_is_leader = leader_flag n, raft_leader = leader_id n\<rparr>)"
    by (simp add: fun_eq_iff raft_view_def)
  ultimately show ?thesis
    using assms(1) d cl
    by (auto simp: boot_def node_start_def process.extend_def node_inv_def node_ctx_def server_inv_def ctx_ok_def i64_wrap_def)
qed

section \<open>PING\<close>

text \<open>
  The reader of \<open>send_internal\<close> and \<open>try_ping\<close>: the reads so far, until a whole frame is there. \<open>None\<close> is
  the timeout.
\<close>

fun read_reply :: "bytes \<Rightarrow> bytes list \<Rightarrow> frame option" where
  "read_reply buf [] = None"
| "read_reply buf (chunk # chunks) =
     (case parse_frame (buf @ chunk) of
        Inr (Some (f, _)) \<Rightarrow> Some f
      | _ \<Rightarrow> read_reply (buf @ chunk) chunks)"

definition ping_frame :: frame where
  "ping_frame = Array (Some [bulk_str ''PING''])"

definition try_ping :: "bytes list \<Rightarrow> bool" where
  "try_ping chunks \<longleftrightarrow> read_reply [] chunks = Some (SimpleString ''PONG'')"

lemma read_reply_whole:
  assumes "wf_frame f"
  shows "buf @ concat chunks = write_frame f \<Longrightarrow> chunks \<noteq> [] \<Longrightarrow> read_reply buf chunks = Some f"
proof (induction chunks arbitrary: buf)
  case (Cons chunk chunks)
  have w: "write_frame f = (buf @ chunk) @ concat chunks" using Cons.prems(1) by simp
  show ?case
  proof (cases "concat chunks = []")
    case True
    then have "write_frame f = buf @ chunk" using w by (simp only: append_Nil2)
    then show ?thesis using parse_frame_write [OF assms, of "[]"] by simp
  next
    case False
    have "parse_frame (buf @ chunk) = Inr None" by (rule parse_frame_prefix [OF assms w False])
    moreover have "chunks \<noteq> []" using False by auto
    ultimately show ?thesis using Cons.IH [of "buf @ chunk"] w by simp
  qed
qed simp

text \<open>Whatever its role, a node answers a \<open>PING\<close> that arrives on a fresh connection.\<close>

lemma ping_facts:
  "command_name [bulk_str ''PING''] = Some ''PING''" "\<not> is_write ''PING''" "command_slot ''PING'' args = NoSlot"
  subgoal by code_simp
  subgoal by code_simp
  subgoal by (simp add: command_slot_def single_key_commands_def)
  done

lemma execute_ping:
  "execute e ping_frame c = Some (pong, c\<lparr>cmetrics := map_option (record_cmd ''PING'' False) (cmetrics c)\<rparr>)"
proof -
  have "map_of dispatch_table ''PING'' = Some (answers (\<lambda>e args d. cmd_ping args))" by (simp add: table_defs)
  then have "dispatch ''PING'' e [bulk_str ''PING''] c = Some (pong, c)"
    by (simp add: dispatch_def answers_def cmd_ping_def)
  moreover have "is_error pong = False" by (simp add: pong_def)
  ultimately show ?thesis
    by (simp add: execute_def ping_frame_def ping_facts routing_def run_local_def Let_def split: option.split)
qed

lemma ping_no_sync: "\<not> is_sync_command ping_frame"
  by code_simp

lemma wf_ping: "wf_frame ping_frame" "wf_frame pong"
  subgoal by (simp add: ping_frame_def bulk_str_def)
  subgoal by code_simp
  done

lemma ping_answered:
  assumes "concat request = serialize_frame ping_frame" and "\<forall>chunk \<in> set request. chunk \<noteq> []"
  shows "\<exists>s. handle_connection ev request ([], new_session c) = Some ([], s) \<and>
    (\<forall>chunks. chunks \<noteq> [] \<longrightarrow> concat chunks = concat (written s) \<longrightarrow> try_ping chunks)"
proof -
  let ?c = "c\<lparr>cmetrics := map_option (record_cmd ''PING'' False) (cmetrics c)\<rparr>"
  have "in_turn (answer ev) [ping_frame] (0, [], c) = Some (1, write_frame pong, ?c)"
    by (simp add: answer_def execute_ping ping_no_sync)
  then obtain s where s: "handle_connection ev request ([], new_session c) = Some ([], s)"
    "concat (written s) = write_frame pong"
    using pipelined [of "[ping_frame]" request ev c] assms wf_ping(1) by (auto simp: serialize_frame_def)
  moreover have "try_ping chunks" if "chunks \<noteq> []" "concat chunks = concat (written s)" for chunks
    using read_reply_whole [OF wf_ping(2), of "[]" chunks] that s(2) by (simp add: try_ping_def pong_def)
  ultimately show ?thesis by blast
qed

end
