(* ===== verification/Raft_Log.thy ===== *)
theory Raft_Log
  imports Raft_Election
begin

text \<open>
  Log matching on the network of \<open>Raft_Election\<close>: two logs that have entries of the same term at an index
  are the same up to there. The proof keeps, beside the network, the set of all logs there have been
  and the set of all leaders there have been.
\<close>

section \<open>Logs\<close>

definition log_match :: "log_entry list \<Rightarrow> log_entry list \<Rightarrow> bool" where
  "log_match X Y \<longleftrightarrow> (\<forall>k. k < length X \<longrightarrow> k < length Y \<longrightarrow> entry_term (X ! k) = entry_term (Y ! k) \<longrightarrow>
     take (Suc k) X = take (Suc k) Y)"

definition log_ok :: "log_entry list \<Rightarrow> bool" where
  "log_ok X \<longleftrightarrow> X \<noteq> [] \<and> X ! 0 = \<lparr>entry_term = 0, command = []\<rparr> \<and> (\<forall>k. 0 < k \<longrightarrow> k < length X \<longrightarrow> 0 < entry_term (X ! k))"

lemma log_match_sym: "log_match X Y \<Longrightarrow> log_match Y X"
  by (simp add: log_match_def)

lemma log_match_refl: "log_match X X"
  by (simp add: log_match_def)

text \<open>What a message of a node with the log \<open>W\<close> says of it.\<close>

definition from_log :: "log_entry list \<Rightarrow> nat \<Rightarrow> nat \<Rightarrow> log_entry list \<Rightarrow> bool" where
  "from_log W pi pt es \<longleftrightarrow>
     pi < length W \<and> pt = entry_term (W ! pi) \<and> es = drop (Suc pi) W \<or> length W \<le> pi \<and> pt = 0 \<and> es = []"

lemma common_prefix:
  assumes "log_match X Y" and "take (Suc p) X = take (Suc p) Y" and "Suc p \<le> m" "m \<le> length X" "m \<le> length Y"
    and "\<And>k. p < k \<Longrightarrow> k < m \<Longrightarrow> entry_term (X ! k) = entry_term (Y ! k)"
  shows "take m X = take m Y"
proof (cases "m = Suc p")
  case False
  then obtain k where k: "m = Suc k" "p < k" using assms(3) by (cases m) auto
  with assms have "entry_term (X ! k) = entry_term (Y ! k)" "k < length X" "k < length Y" by auto
  with assms(1) k show ?thesis by (simp add: log_match_def)
qed (use assms in simp)

text \<open>A follower that accepts a message keeps its log or takes over the sender's.\<close>

lemma merge_either:
  assumes m: "log_match lg W" and ok: "log_ok lg" "log_ok W" and fl: "from_log W pi pt es" and pi: "pi < length lg"
    and pt: "pi = 0 \<or> entry_term (lg ! pi) = pt"
  shows "merge_entries pi es lg = lg \<or> merge_entries pi es lg = W"
proof -
  obtain j where j: "j \<le> length es" "merge_entries pi es lg =
      (if agrees (pi + 1) es lg then lg @ drop (length lg - (pi + 1)) es else take (pi + 1 + j) lg @ drop j es)"
    "\<not> agrees (pi + 1) es lg \<longrightarrow> pi + 1 + j < length lg" "agrees (pi + 1) (take j es) lg"
    using merge_entries_spec [OF pi] by blast
  show ?thesis
  proof (cases "pi < length W")
    case False
    then have "es = []" using fl by (auto simp: from_log_def)
    then show ?thesis using j(2) by (simp add: agrees_def)
  next
    case True
    have es: "es = drop (Suc pi) W" "pt = entry_term (W ! pi)" using True fl by (auto simp: from_log_def)
    have pre: "take (Suc pi) lg = take (Suc pi) W"
    proof (cases "pi = 0")
      case True
      then show ?thesis using ok by (cases lg; cases W) (auto simp: log_ok_def)
    qed (use m pt pi True es in \<open>auto simp: log_match_def\<close>)
    show ?thesis
    proof (cases "agrees (pi + 1) es lg")
      case agr: True
      have "entry_term (lg ! k) = entry_term (W ! k)" if "pi < k" "k < min (length lg) (length W)" for k
        using agr that es(1) by (auto simp: agrees_def dest!: spec [of _ "k - Suc pi"])
      then have eq: "take (min (length lg) (length W)) lg = take (min (length lg) (length W)) W"
        using pi True by (intro common_prefix [OF m pre]) auto
      have mg: "merge_entries pi es lg = lg @ drop (length lg) W" using j(2) agr es(1) pi by (cases lg) auto
      show ?thesis
      proof (cases "length W \<le> length lg")
        case False
        then have "lg = take (length lg) W" using eq by simp
        then have "lg @ drop (length lg) W = W" by (metis append_take_drop_id)
        with mg show ?thesis by simp
      qed (use mg in simp)
    next
      case con: False
      have len: "pi + 1 + j < length lg" "pi + 1 + j \<le> length W" using j(1,3) con es(1) True by auto
      have "entry_term (lg ! k) = entry_term (W ! k)" if "pi < k" "k < pi + 1 + j" for k
        using j(1,4) that es(1) len by (auto simp: agrees_def dest!: spec [of _ "k - Suc pi"])
      then have "take (pi + 1 + j) lg = take (pi + 1 + j) W"
        using len by (intro common_prefix [OF m pre]) auto
      moreover have "drop j es = drop (pi + 1 + j) W" using es(1) by (simp add: add.commute)
      ultimately have "merge_entries pi es lg = take (pi + 1 + j) W @ drop (pi + 1 + j) W" using j(2) con by simp
      then show ?thesis by simp
    qed
  qed
qed

section \<open>What an event does to a log\<close>

definition nx_ok :: "(bytes \<times> nat) list \<Rightarrow> bool" where
  "nx_ok m \<longleftrightarrow> (\<forall>p i. map_of m p = Some i \<longrightarrow> 0 < i)"

definition term_ok :: "raft_node \<Rightarrow> bool" where
  "term_ok n \<longleftrightarrow> (nrole n \<noteq> Follower \<longrightarrow> 0 < current_term n)"

definition sends_log :: "raft_node \<Rightarrow> (bytes \<times> raft_rpc) list \<Rightarrow> bool" where
  "sends_log n rpcs \<longleftrightarrow> (\<forall>p t l pi pt es lc. (p, AppendEntries t l pi pt es lc) \<in> set rpcs \<longrightarrow>
     nrole n = Leader \<and> t = current_term n \<and> from_log (log n) pi pt es)"

lemma send_from_log:
  assumes "nx_ok (next_index n)" and "log n \<noteq> []" and "send_append_entries_to n p = (q, AppendEntries t l pi pt es lc)"
  shows "t = current_term n" and "from_log (log n) pi pt es"
proof -
  define nxt where "nxt = (case map_of (next_index n) p of Some i \<Rightarrow> i | None \<Rightarrow> 1)"
  have "0 < nxt" using assms(1) by (auto simp: nxt_def nx_ok_def split: option.split)
  then show "t = current_term n" "from_log (log n) pi pt es"
    using assms(2,3) unfolding send_append_entries_to_def nxt_def [symmetric]
    by (auto simp: Let_def from_log_def log_term_at_def split: if_splits)
qed

lemma sends_log_all:
  assumes "nx_ok (next_index n)" and "log n \<noteq> []" and "nrole n = Leader"
  shows "sends_log n (map (send_append_entries_to n) ps)"
  using send_from_log [OF assms(1,2)] assms(3) by (auto simp: sends_log_def) metis+

lemma nx_ok_update: "nx_ok m \<Longrightarrow> 0 < k \<Longrightarrow> nx_ok (AList.update p k m)"
  by (auto simp: nx_ok_def update_conv')

lemma nx_ok_fold: "nx_ok m \<Longrightarrow> 0 < k \<Longrightarrow> nx_ok (fold (\<lambda>p m. AList.update p k m) ps m)"
  by (induction ps arbitrary: m) (auto intro: nx_ok_update)

text \<open>
  Three things happen to a log: nothing (and then only a candidate can become leader, and a leader
  that keeps its term stays one), a leader appends an entry of its term, or a message is merged.
\<close>

definition log_event :: "raft_event \<Rightarrow> raft_node \<Rightarrow> raft_node \<Rightarrow> bool" where
  "log_event a n n' \<longleftrightarrow>
     log n' = log n \<and>
       (nrole n' = Leader \<longrightarrow> nrole n \<noteq> Follower \<and> current_term n' = current_term n) \<and>
       (nrole n = Leader \<longrightarrow> current_term n' = current_term n \<longrightarrow> nrole n' = Leader) \<or>
     nrole n = Leader \<and> nrole n' = Leader \<and> current_term n' = current_term n \<and>
       (\<exists>cmd. log n' = log n @ [\<lparr>entry_term = current_term n, command = cmd\<rparr>]) \<or>
     (\<exists>t l pi pt es lc. a = Incoming (AppendEntries t l pi pt es lc) \<and> current_term n \<le> t \<and> current_term n' = t \<and>
       nrole n' = Follower \<and>
       (log n' = log n \<or> log n' = merge_entries pi es (log n) \<and> pi < length (log n) \<and> (pi = 0 \<or> entry_term (log n ! pi) = pt)))"

lemma append_received:
  assumes "handle_append_entries now ms t l pi pt es lc n = (r, n')" and "log n \<noteq> []"
  shows "n' = n \<or> current_term n \<le> t \<and> current_term n' = t \<and> nrole n' = Follower \<and> next_index n' = next_index n \<and>
    (log n' = log n \<or> log n' = merge_entries pi es (log n) \<and> pi < length (log n) \<and> (pi = 0 \<or> entry_term (log n ! pi) = pt))"
proof (cases "t < current_term n")
  case False
  let ?m = "set_leader l (step_down now ms t n)"
  have m: "log ?m = log n" "current_term ?m = t" "nrole ?m = Follower" "next_index ?m = next_index n"
    using False by (simp_all add: set_leader_def step_down_def reset_election_timeout_def Let_def)
  show ?thesis
  proof (cases "pi > 0 \<and> (pi \<ge> length (log n) \<or> entry_term (log n ! pi) \<noteq> pt)")
    case True
    then have "n' = ?m" using assms(1) False m by (simp add: handle_append_entries_def Let_def)
    with m False show ?thesis by simp
  next
    case ok: False
    then have "current_term n' = t" "nrole n' = Follower" "next_index n' = next_index n" "log n' = merge_entries pi es (log n)"
      using assms(1) False m by (auto simp: handle_append_entries_def Let_def split: if_splits)
    with ok False assms(2) show ?thesis by auto
  qed
qed (use assms(1) in \<open>simp add: handle_append_entries_def\<close>)

lemma wakeup_log:
  assumes "on_wakeup now ms n = (rpcs, n')" and "nx_ok (next_index n)" and "log n \<noteq> []" and "term_ok n"
  shows "log_event Wakeup n n' \<and> sends_log n' rpcs \<and> nx_ok (next_index n') \<and> term_ok n'"
proof (cases "nrole n = Leader")
  case True
  let ?n = "n\<lparr>last_heartbeat_sent := now\<rparr>"
  have "nx_ok (next_index ?n)" using assms(2) by simp
  then have "sends_log ?n (map (send_append_entries_to ?n) (peers n))" using True assms(3) by (intro sends_log_all) simp_all
  moreover have "rpcs = [] \<and> n' = n \<or> rpcs = map (send_append_entries_to ?n) (peers n) \<and> n' = ?n"
    using assms(1) True by (auto simp: on_wakeup_def send_heartbeats_def Let_def split: if_splits)
  moreover have "sends_log n []" by (simp add: sends_log_def)
  ultimately show ?thesis using True assms by (auto simp: log_event_def term_ok_def)
next
  case False
  with assms show ?thesis
    by (auto simp: on_wakeup_def start_election_def reset_election_timeout_def log_event_def Let_def term_ok_def sends_log_def
        split: if_splits)
qed

lemma propose_log:
  assumes "on_proposal client cmd n = (out, n')" and "nx_ok (next_index n)" and "log n \<noteq> []" and "term_ok n"
  shows "log_event (Propose client cmd) n n' \<and> sends_log n' (out_rpcs out) \<and> nx_ok (next_index n') \<and> term_ok n'"
proof (cases "nrole n = Leader")
  case True
  let ?n = "n\<lparr>log := log n @ [\<lparr>entry_term = current_term n, command = cmd\<rparr>],
      pending := AList.update (length (log n)) client (pending n)\<rparr>"
  have x: "nx_ok (next_index ?n)" using assms(2) by simp
  then have "sends_log ?n (map (send_append_entries_to ?n) (peers n))" using True by (intro sends_log_all) simp_all
  moreover have "n' = ?n" "out_rpcs out = map (send_append_entries_to ?n) (peers n)"
    using assms(1) True by (auto simp: on_proposal_def append_proposal_def Let_def silent_def)
  ultimately show ?thesis using True x assms(4) by (simp add: log_event_def term_ok_def)
qed (use assms in \<open>auto simp: on_proposal_def log_event_def sends_log_def silent_def\<close>)

lemma try_advance_next [simp]: "next_index (try_advance_commit n) = next_index n"
  by (simp add: try_advance_commit_def split: option.split)

lemma reply_log:
  assumes "nx_ok (next_index n)" and "term_ok n"
  shows "log_event a n (handle_vote_response now ms r n) \<and> nx_ok (next_index (handle_vote_response now ms r n)) \<and>
      term_ok (handle_vote_response now ms r n)"
    and "log_event a n (handle_append_response now ms p r n) \<and> nx_ok (next_index (handle_append_response now ms p r n)) \<and>
      term_ok (handle_append_response now ms p r n)"
proof -
  have pos: "0 < i" if "map_of (next_index n) p = Some i" for i using that assms(1) by (simp add: nx_ok_def)
  show "log_event a n (handle_vote_response now ms r n) \<and> nx_ok (next_index (handle_vote_response now ms r n)) \<and>
      term_ok (handle_vote_response now ms r n)"
    using assms by (cases r) (auto simp: handle_vote_response_def step_down_def reset_election_timeout_def become_leader_def
      set_leader_def Let_def log_event_def term_ok_def nx_ok_fold)
  show "log_event a n (handle_append_response now ms p r n) \<and> nx_ok (next_index (handle_append_response now ms p r n)) \<and>
      term_ok (handle_append_response now ms p r n)"
    using assms pos by (cases r) (auto simp: handle_append_response_def step_down_def reset_election_timeout_def
      Let_def log_event_def term_ok_def nx_ok_update split: option.split)
qed

lemma log_event_turn:
  assumes "handle_event now ms a n = (out, n')" and "nx_ok (next_index n)" and "log n \<noteq> []" and "term_ok n"
  shows "log_event a n n'" and "sends_log n' (out_rpcs out)" and "nx_ok (next_index n')" and "term_ok n'"
proof -
  have "log_event a n n' \<and> sends_log n' (out_rpcs out) \<and> nx_ok (next_index n') \<and> term_ok n'"
  proof (cases "(now, ms, a, n)" rule: handle_event.cases)
    case (1 now ms n)
    then show ?thesis using assms wakeup_log by (auto simp: silent_def split: prod.splits)
  next
    case (2 now ms t c li lt n)
    with assms show ?thesis
      by (auto simp: handle_request_vote_def step_down_def reset_election_timeout_def Let_def silent_def log_event_def
          sends_log_def term_ok_def split: if_splits)
  next
    case (3 now ms t l pi pt es lc n)
    then obtain r where r: "handle_append_entries now ms t l pi pt es lc n = (r, n')" "out_rpcs out = []"
      using assms(1) by (auto simp: silent_def split: prod.splits)
    have "sends_log n' []" by (simp add: sends_log_def)
    with append_received [OF r(1)] r(2) 3 assms(2-4) show ?thesis
      by (auto simp: term_ok_def log_event_def)
  next
    case (7 now ms client cmd n)
    then show ?thesis using assms propose_log by auto
  next
    case (5 now ms r n)
    then show ?thesis using assms reply_log(1) [of n a now ms r] by (auto simp: sends_log_def silent_def)
  next
    case (6 now ms p r n)
    then show ?thesis using assms reply_log(2) [of n a now ms p r] by (auto simp: sends_log_def silent_def)
  qed (use assms in \<open>auto simp: log_event_def sends_log_def silent_def\<close>)
  then show "log_event a n n'" and "sends_log n' (out_rpcs out)" and "nx_ok (next_index n')" and "term_ok n'" by blast+
qed

section \<open>The invariant\<close>

text \<open>
  \<open>H\<close> holds every log there has been, \<open>led\<close> every leader there has been, with its term. A leader's log extends
  every log of its term up to the last entry of that term; a message in flight was cut from some log.
\<close>

definition wins :: "bytes set \<Rightarrow> (bytes \<times> nat \<times> bytes) list \<Rightarrow> nat \<Rightarrow> bytes \<Rightarrow> bool" where
  "wins N gr t p \<longleftrightarrow> card N div 2 + 1 \<le> card {v \<in> N. (v, t, p) \<in> set gr}"

definition leads_logs :: "log_entry list set \<Rightarrow> raft_node \<Rightarrow> bool" where
  "leads_logs H n \<longleftrightarrow> (\<forall>X \<in> H. \<forall>k < length X. entry_term (X ! k) = current_term n \<longrightarrow>
     k < length (log n) \<and> take (Suc k) X = take (Suc k) (log n))"

definition leading :: "bytes set \<Rightarrow> 's raft_net \<Rightarrow> (nat \<times> bytes) set" where
  "leading N w = (\<lambda>i. (current_term (node_of w i), i)) ` {i \<in> N. nrole (node_of w i) = Leader}"

definition logs_ok :: "bytes set \<Rightarrow> 's raft_net \<Rightarrow> log_entry list set \<Rightarrow> (nat \<times> bytes) set \<Rightarrow> bool" where
  "logs_ok N w H led \<longleftrightarrow>
     (\<forall>i \<in> N. log (node_of w i) \<in> H \<and> nx_ok (next_index (node_of w i)) \<and> term_ok (node_of w i)) \<and>
     (\<forall>X \<in> H. log_ok X \<and> (\<forall>k. 0 < k \<longrightarrow> k < length X \<longrightarrow> (\<exists>p. (entry_term (X ! k), p) \<in> led))) \<and>
     (\<forall>X \<in> H. \<forall>Y \<in> H. log_match X Y) \<and>
     (\<forall>(t, p) \<in> led. p \<in> N \<and> wins N (granted w) t p \<and> t \<le> current_term (node_of w p) \<and>
        (t = current_term (node_of w p) \<longrightarrow> nrole (node_of w p) = Leader)) \<and>
     (\<forall>p \<in> N. nrole (node_of w p) = Leader \<longrightarrow> (current_term (node_of w p), p) \<in> led \<and> leads_logs H (node_of w p)) \<and>
     (\<forall>c v t l pi pt es lc. Req c v (AppendEntries t l pi pt es lc) \<in> set (flights w) \<longrightarrow>
        (t, c) \<in> led \<and> (\<exists>W \<in> H. from_log W pi pt es))"

lemma logs_okI:
  assumes "\<forall>i \<in> N. log (node_of w i) \<in> H \<and> nx_ok (next_index (node_of w i)) \<and> term_ok (node_of w i)"
    and "\<forall>X \<in> H. log_ok X \<and> (\<forall>k. 0 < k \<longrightarrow> k < length X \<longrightarrow> (\<exists>p. (entry_term (X ! k), p) \<in> led))"
    and "\<forall>X \<in> H. \<forall>Y \<in> H. log_match X Y"
    and "\<And>t p. (t, p) \<in> led \<Longrightarrow> p \<in> N \<and> wins N (granted w) t p \<and> t \<le> current_term (node_of w p) \<and>
        (t = current_term (node_of w p) \<longrightarrow> nrole (node_of w p) = Leader)"
    and "\<forall>p \<in> N. nrole (node_of w p) = Leader \<longrightarrow> (current_term (node_of w p), p) \<in> led \<and> leads_logs H (node_of w p)"
    and "\<And>c v t l pi pt es lc. Req c v (AppendEntries t l pi pt es lc) \<in> set (flights w) \<Longrightarrow>
        (t, c) \<in> led \<and> (\<exists>W \<in> H. from_log W pi pt es)"
  shows "logs_ok N w H led"
proof -
  have led: "\<forall>(t, p) \<in> led. p \<in> N \<and> wins N (granted w) t p \<and> t \<le> current_term (node_of w p) \<and>
        (t = current_term (node_of w p) \<longrightarrow> nrole (node_of w p) = Leader)"
    using assms(4) by (simp add: split_paired_all)
  have ms: "\<forall>c v t l pi pt es lc. Req c v (AppendEntries t l pi pt es lc) \<in> set (flights w) \<longrightarrow>
        (t, c) \<in> led \<and> (\<exists>W \<in> H. from_log W pi pt es)"
    by (intro allI impI) (rule assms(6))
  show ?thesis unfolding logs_ok_def by (intro conjI assms(1-3) led assms(5) ms)
qed

lemma logs_okD:
  assumes "logs_ok N w H led"
  shows "\<forall>i \<in> N. log (node_of w i) \<in> H \<and> nx_ok (next_index (node_of w i)) \<and> term_ok (node_of w i)"
    and "\<forall>X \<in> H. log_ok X \<and> (\<forall>k. 0 < k \<longrightarrow> k < length X \<longrightarrow> (\<exists>p. (entry_term (X ! k), p) \<in> led))"
    and "\<forall>X \<in> H. \<forall>Y \<in> H. log_match X Y"
    and "(t, p) \<in> led \<Longrightarrow> p \<in> N \<and> wins N (granted w) t p \<and> t \<le> current_term (node_of w p) \<and>
        (t = current_term (node_of w p) \<longrightarrow> nrole (node_of w p) = Leader)"
    and "\<forall>p \<in> N. nrole (node_of w p) = Leader \<longrightarrow> (current_term (node_of w p), p) \<in> led \<and> leads_logs H (node_of w p)"
    and "Req c v (AppendEntries t l pi pt es lc) \<in> set (flights w) \<Longrightarrow>
        (t, c) \<in> led \<and> (\<exists>W \<in> H. from_log W pi pt es)"
proof -
  note ok = assms [unfolded logs_ok_def]
  show "\<forall>i \<in> N. log (node_of w i) \<in> H \<and> nx_ok (next_index (node_of w i)) \<and> term_ok (node_of w i)"
    using ok by (elim conjE)
  show "\<forall>X \<in> H. log_ok X \<and> (\<forall>k. 0 < k \<longrightarrow> k < length X \<longrightarrow> (\<exists>p. (entry_term (X ! k), p) \<in> led))"
    using ok by (elim conjE)
  show "\<forall>X \<in> H. \<forall>Y \<in> H. log_match X Y" using ok by (elim conjE)
  show "\<forall>p \<in> N. nrole (node_of w p) = Leader \<longrightarrow> (current_term (node_of w p), p) \<in> led \<and> leads_logs H (node_of w p)"
    using ok by (elim conjE)
  have "\<forall>(t, p) \<in> led. p \<in> N \<and> wins N (granted w) t p \<and> t \<le> current_term (node_of w p) \<and>
      (t = current_term (node_of w p) \<longrightarrow> nrole (node_of w p) = Leader)" using ok by (elim conjE)
  then show "(t, p) \<in> led \<Longrightarrow> p \<in> N \<and> wins N (granted w) t p \<and> t \<le> current_term (node_of w p) \<and>
      (t = current_term (node_of w p) \<longrightarrow> nrole (node_of w p) = Leader)" by blast
  have "\<forall>c v t l pi pt es lc. Req c v (AppendEntries t l pi pt es lc) \<in> set (flights w) \<longrightarrow>
      (t, c) \<in> led \<and> (\<exists>W \<in> H. from_log W pi pt es)" using ok by (elim conjE)
  then show "Req c v (AppendEntries t l pi pt es lc) \<in> set (flights w) \<Longrightarrow>
      (t, c) \<in> led \<and> (\<exists>W \<in> H. from_log W pi pt es)" by blast
qed

lemma wins_mono: "wins N gr t p \<Longrightarrow> finite N \<Longrightarrow> set gr \<subseteq> set gr' \<Longrightarrow> wins N gr' t p"
  unfolding wins_def by (rule order_trans, assumption) (auto intro!: card_mono)

text \<open>The messages after a turn of \<open>i\<close>: old ones, and those the turn sent.\<close>

definition sent_by :: "bytes \<Rightarrow> raft_node \<Rightarrow> flight list \<Rightarrow> flight list \<Rightarrow> bool" where
  "sent_by i n fl fl' \<longleftrightarrow> (\<forall>c v t l pi pt es lc. Req c v (AppendEntries t l pi pt es lc) \<in> set fl' \<longrightarrow>
     Req c v (AppendEntries t l pi pt es lc) \<in> set fl \<or>
     c = i \<and> nrole n = Leader \<and> t = current_term n \<and> from_log (log n) pi pt es)"

lemma sent_byE:
  assumes "sent_by i n fl fl'" and "Req c v (AppendEntries t l pi pt es lc) \<in> set fl'"
  obtains (old) "Req c v (AppendEntries t l pi pt es lc) \<in> set fl"
    | (new) "c = i" "nrole n = Leader" "t = current_term n" "from_log (log n) pi pt es"
  using assms unfolding sent_by_def by blast

lemma sent_logs:
  assumes "logs_ok N w H led" and "sent_by i n (flights w) fl" and "H \<subseteq> H'" "led \<subseteq> led'"
    and "nrole n = Leader \<Longrightarrow> (current_term n, i) \<in> led'" "log n \<in> H'"
    and "Req c v (AppendEntries t l pi pt es lc) \<in> set fl"
  shows "(t, c) \<in> led' \<and> (\<exists>W \<in> H'. from_log W pi pt es)"
  using assms(2,7)
proof (cases rule: sent_byE)
  case old
  from logs_okD(6) [OF assms(1) old] assms(3,4) show ?thesis by blast
qed (use assms(5,6) in auto)

lemma keep_logs:
  assumes inv: "logs_ok N w H led" and "finite N" and i: "i \<in> N" and node: "node_of w' = (node_of w)(i := n')"
    and n': "log n' \<in> H" "nx_ok (next_index n')" "term_ok n'" "current_term (node_of w i) \<le> current_term n'"
    and lead: "nrole n' = Leader \<Longrightarrow> nrole (node_of w i) = Leader \<and> current_term n' = current_term (node_of w i) \<and> log n' = log (node_of w i)"
    and stay: "(current_term (node_of w i), i) \<in> led \<Longrightarrow> current_term n' = current_term (node_of w i) \<Longrightarrow> nrole n' = Leader"
    and gr: "set (granted w) \<subseteq> set (granted w')" and fl: "sent_by i n' (flights w) (flights w')"
  shows "logs_ok N w' H led"
proof -
  note ok = logs_okD [OF inv]
  have lead': "(current_term n', i) \<in> led \<and> leads_logs H n'" if "nrole n' = Leader"
    using lead [OF that] ok(5) i by (auto simp: leads_logs_def)
  show ?thesis
  proof (rule logs_okI [OF _ ok(2,3)])
    show "\<forall>j \<in> N. log (node_of w' j) \<in> H \<and> nx_ok (next_index (node_of w' j)) \<and> term_ok (node_of w' j)"
      using ok(1) n' node by simp
    show "p \<in> N \<and> wins N (granted w') t p \<and> t \<le> current_term (node_of w' p) \<and>
        (t = current_term (node_of w' p) \<longrightarrow> nrole (node_of w' p) = Leader)" if tp: "(t, p) \<in> led" for t p
    proof -
      note old = ok(4) [OF tp] and won = wins_mono [OF _ assms(2) gr, of t p]
      show ?thesis
      proof (cases "p = i")
        case True
        have "nrole n' = Leader" if "t = current_term n'"
        proof -
          have eq: "current_term n' = current_term (node_of w i)" using old True that n'(4) by simp
          with tp True that have "(current_term (node_of w i), i) \<in> led" by simp
          from stay [OF this eq] show ?thesis .
        qed
        with old won True n'(4) node show ?thesis by simp
      qed (use old won node in simp)
    qed
    show "\<forall>p \<in> N. nrole (node_of w' p) = Leader \<longrightarrow> (current_term (node_of w' p), p) \<in> led \<and> leads_logs H (node_of w' p)"
      using ok(5) lead' node by simp
    show "(t, c) \<in> led \<and> (\<exists>W \<in> H. from_log W pi pt es)"
      if "Req c v (AppendEntries t l pi pt es lc) \<in> set (flights w')" for c v t l pi pt es lc
      by (rule sent_logs [OF inv fl _ _ _ n'(1) that]) (use lead' in auto)
  qed
qed

text \<open>A candidate that wins: nobody led in its term, so there is no entry of that term yet.\<close>

lemma elect_logs:
  assumes inv: "logs_ok N w H led" and "finite N" and i: "i \<in> N" and node: "node_of w' = (node_of w)(i := n')"
    and n': "log n' = log (node_of w i)" "nx_ok (next_index n')" "term_ok n'" "current_term n' = current_term (node_of w i)"
    and lead: "nrole n' = Leader" and won: "wins N (granted w') (current_term n') i"
    and first: "\<And>p. (current_term n', p) \<notin> led"
    and gr: "set (granted w) \<subseteq> set (granted w')" and fl: "sent_by i n' (flights w) (flights w')"
  shows "logs_ok N w' H (insert (current_term n', i) led)"
proof -
  note ok = logs_okD [OF inv]
  have new: "leads_logs H n'"
    unfolding leads_logs_def
  proof (intro ballI allI impI)
    fix X k assume X: "X \<in> H" "k < length X" "entry_term (X ! k) = current_term n'"
    have "0 < current_term n'" using n'(3) lead by (simp add: term_ok_def)
    then have "0 < k" using ok(2) X by (cases k) (auto simp: log_ok_def)
    then obtain p where "(current_term n', p) \<in> led" using ok(2) X by metis
    with first show "k < length (log n') \<and> take (Suc k) X = take (Suc k) (log n')" by blast
  qed
  show ?thesis
  proof (rule logs_okI [OF _ _ ok(3)])
    show "\<forall>j \<in> N. log (node_of w' j) \<in> H \<and> nx_ok (next_index (node_of w' j)) \<and> term_ok (node_of w' j)"
      using ok(1) i n' node by simp
    show "\<forall>X \<in> H. log_ok X \<and> (\<forall>k. 0 < k \<longrightarrow> k < length X \<longrightarrow> (\<exists>p. (entry_term (X ! k), p) \<in> insert (current_term n', i) led))"
      using ok(2) by blast
    show "p \<in> N \<and> wins N (granted w') t p \<and> t \<le> current_term (node_of w' p) \<and>
        (t = current_term (node_of w' p) \<longrightarrow> nrole (node_of w' p) = Leader)" if tp: "(t, p) \<in> insert (current_term n', i) led" for t p
    proof (cases "(t, p) = (current_term n', i)")
      case False
      with tp have "(t, p) \<in> led" by blast
      from ok(4) [OF this] wins_mono [OF _ assms(2) gr, of t p] n'(4) lead node show ?thesis by (cases "p = i") auto
    qed (use won i lead node in simp)
    show "\<forall>p \<in> N. nrole (node_of w' p) = Leader \<longrightarrow>
        (current_term (node_of w' p), p) \<in> insert (current_term n', i) led \<and> leads_logs H (node_of w' p)"
      using ok(5) new node by simp
    show "(t, c) \<in> insert (current_term n', i) led \<and> (\<exists>W \<in> H. from_log W pi pt es)"
      if "Req c v (AppendEntries t l pi pt es lc) \<in> set (flights w')" for c v t l pi pt es lc
      by (rule sent_logs [OF inv fl _ _ _ _ that]) (use ok(1) i n'(1) in auto)
  qed
qed

text \<open>A leader appends: no log has an entry of its term at the new index.\<close>

lemma match_append:
  assumes "log_match L X" and "\<And>k. k < length X \<Longrightarrow> entry_term (X ! k) = entry_term e \<Longrightarrow> k < length L"
  shows "log_match (L @ [e]) X"
  unfolding log_match_def
proof (intro allI impI)
  fix k assume k: "k < length (L @ [e])" "k < length X" "entry_term ((L @ [e]) ! k) = entry_term (X ! k)"
  have "k < length L"
  proof (rule ccontr)
    assume "\<not> k < length L"
    with k(1,3) have "entry_term (X ! k) = entry_term e" by (simp add: nth_append)
    with assms(2) [OF k(2)] \<open>\<not> k < length L\<close> show False by blast
  qed
  with assms(1) k show "take (Suc k) (L @ [e]) = take (Suc k) X" by (simp add: log_match_def nth_append)
qed

lemma leads_self:
  assumes "leads_logs H n" and "current_term n' = current_term n" "log n' = log n @ [e]"
  shows "leads_logs (insert (log n') H) n'"
  unfolding leads_logs_def
proof (intro ballI allI impI)
  fix X k assume x: "X \<in> insert (log n') H" "k < length X" "entry_term (X ! k) = current_term n'"
  show "k < length (log n') \<and> take (Suc k) X = take (Suc k) (log n')"
  proof (cases "X = log n'")
    case False
    with x assms(1,2) have "k < length (log n) \<and> take (Suc k) X = take (Suc k) (log n)" by (simp add: leads_logs_def)
    with assms(3) show ?thesis by simp
  qed (use x in simp)
qed

lemma leads_other:
  assumes p: "leads_logs H p" and L: "L \<in> H" and e: "entry_term e \<noteq> current_term p"
  shows "leads_logs (insert (L @ [e]) H) p"
  unfolding leads_logs_def
proof (intro ballI allI impI)
  fix X k assume x: "X \<in> insert (L @ [e]) H" "k < length X" "entry_term (X ! k) = current_term p"
  note old = p [unfolded leads_logs_def, rule_format]
  show "k < length (log p) \<and> take (Suc k) X = take (Suc k) (log p)"
  proof (cases "X = L @ [e]")
    case True
    then have k: "k < length L" using x e by (auto simp: nth_append split: if_splits)
    with old [OF L k] x(3) True show ?thesis by (simp add: nth_append)
  qed (use old [OF _ x(2,3)] x(1) in blast)
qed

lemma append_good:
  assumes "log_ok L \<and> (\<forall>k. 0 < k \<longrightarrow> k < length L \<longrightarrow> (\<exists>p. (entry_term (L ! k), p) \<in> led))"
    and "0 < entry_term e" "(entry_term e, i) \<in> led"
  shows "log_ok (L @ [e]) \<and> (\<forall>k. 0 < k \<longrightarrow> k < length (L @ [e]) \<longrightarrow> (\<exists>p. (entry_term ((L @ [e]) ! k), p) \<in> led))"
  using assms by (auto simp: log_ok_def nth_append less_Suc_eq)

lemma append_logs:
  assumes inv: "logs_ok N w H led" and "finite N" and i: "i \<in> N" and node: "node_of w' = (node_of w)(i := n')"
    and n': "log n' = log (node_of w i) @ [e]" "entry_term e = current_term n'" "nx_ok (next_index n')" "term_ok n'"
      "current_term n' = current_term (node_of w i)"
    and lead: "nrole (node_of w i) = Leader" "nrole n' = Leader"
    and one: "\<And>p. (current_term n', p) \<in> led \<Longrightarrow> p = i"
    and gr: "set (granted w) \<subseteq> set (granted w')" and fl: "sent_by i n' (flights w) (flights w')"
  shows "logs_ok N w' (insert (log n') H) led"
proof -
  note ok = logs_okD [OF inv]
  let ?L = "log (node_of w i)"
  have L: "?L \<in> H" "leads_logs H (node_of w i)" "(current_term n', i) \<in> led" using ok(1,5) i lead(1) n'(5) by auto
  have pos: "0 < current_term n'" using n'(4) lead(2) by (simp add: term_ok_def)
  have match: "log_match (log n') X" if "X \<in> H" for X
    unfolding n'(1) using ok(3) L that n'(2,5) by (intro match_append) (auto simp: leads_logs_def)
  have lead': "(current_term (node_of w' p), p) \<in> led \<and> leads_logs (insert (log n') H) (node_of w' p)"
    if p: "p \<in> N" "nrole (node_of w' p) = Leader" for p
  proof (cases "p = i")
    case False
    then have pl: "(current_term (node_of w p), p) \<in> led" "leads_logs H (node_of w p)" using ok(5) p node by auto
    then have "entry_term e \<noteq> current_term (node_of w p)" using one False n'(2) by auto
    from leads_other [OF pl(2) L(1) this] pl(1) False node n'(1) show ?thesis by simp
  qed (use L(3) leads_self [OF L(2) n'(5,1)] node in simp)
  show ?thesis
  proof (rule logs_okI)
    show "\<forall>j \<in> N. log (node_of w' j) \<in> insert (log n') H \<and> nx_ok (next_index (node_of w' j)) \<and> term_ok (node_of w' j)"
      using ok(1) n' node by simp
    show "\<forall>X \<in> insert (log n') H. log_ok X \<and> (\<forall>k. 0 < k \<longrightarrow> k < length X \<longrightarrow> (\<exists>p. (entry_term (X ! k), p) \<in> led))"
      using ok(2) append_good [OF bspec [OF ok(2) L(1)], of e i] pos L(3) n'(1,2) by simp
    show "\<forall>X \<in> insert (log n') H. \<forall>Y \<in> insert (log n') H. log_match X Y"
      using ok(3) match log_match_sym log_match_refl by blast
    show "p \<in> N \<and> wins N (granted w') t p \<and> t \<le> current_term (node_of w' p) \<and>
        (t = current_term (node_of w' p) \<longrightarrow> nrole (node_of w' p) = Leader)" if tp: "(t, p) \<in> led" for t p
      using ok(4) [OF tp] wins_mono [OF _ assms(2) gr, of t p] n'(5) lead node by (cases "p = i") auto
    show "(t, c) \<in> led \<and> (\<exists>W \<in> insert (log n') H. from_log W pi pt es)"
      if "Req c v (AppendEntries t l pi pt es lc) \<in> set (flights w')" for c v t l pi pt es lc
      by (rule sent_logs [OF inv fl _ _ _ _ that]) (use L(3) in auto)
  qed (use lead' in blast)
qed

section \<open>Every step keeps it\<close>

text \<open>One winner per term, over all time: the votes are never forgotten.\<close>

lemma one_led:
  assumes "elect_inv (set ids) w" and "wins (set ids) (granted w) t p" and "wins (set ids) (granted w) t q"
  shows "p = q"
proof (rule majority.one_winner [where votes = "\<lambda>v c. (v, t, c) \<in> set (granted w)" and ids = ids])
  show "c = c'" if "(v, t, c) \<in> set (granted w)" "(v, t, c') \<in> set (granted w)" for v c c'
    using assms(1) that by (auto simp: elect_inv_def)
qed (use assms(2,3) in \<open>simp_all add: wins_def\<close>)

lemma leader_wins:
  assumes "elect_inv (set ids) w" and "distinct ids" and "i \<in> set ids" "nrole (node_of w i) = Leader"
  shows "wins (set ids) (granted w) (current_term (node_of w i)) i"
  using leader_quorum [OF assms] by (simp add: wins_def)

lemma wins_led:
  assumes "logs_ok (set ids) w H led" and "elect_inv (set ids) w'" and "set (granted w) \<subseteq> set (granted w')"
    and "(t, p) \<in> led" and "wins (set ids) (granted w') t i"
  shows "p = i"
  using logs_okD(4) [OF assms(1,4)] wins_mono [OF _ _ assms(3)] one_led [OF assms(2) _ assms(5)] by blast

text \<open>A turn that leaves the log alone: the node steps down, stays what it is, or wins its election.\<close>

lemma steady_logs:
  assumes ok: "logs_ok (set ids) w H led" and inv: "elect_inv (set ids) w'" and ids: "distinct ids"
    and i: "i \<in> set ids" and node: "node_of w' = (node_of w)(i := n')"
    and same: "log n' = log (node_of w i)" "nx_ok (next_index n')" "term_ok n'"
      "current_term (node_of w i) \<le> current_term n'"
    and lead: "nrole n' = Leader \<Longrightarrow> nrole (node_of w i) \<noteq> Follower \<and> current_term n' = current_term (node_of w i)"
    and stay: "nrole (node_of w i) = Leader \<Longrightarrow> current_term n' = current_term (node_of w i) \<Longrightarrow> nrole n' = Leader"
    and gr: "set (granted w) \<subseteq> set (granted w')" and fl: "sent_by i n' (flights w) (flights w')"
  shows "\<exists>led'. logs_ok (set ids) w' H led' \<and> led' \<subseteq> led \<union> leading (set ids) w'"
proof (cases "nrole n' = Leader \<and> nrole (node_of w i) = Candidate")
  case True
  then have t: "current_term n' = current_term (node_of w i)" using lead by simp
  have won: "wins (set ids) (granted w') (current_term n') i" using leader_wins [OF inv ids i] node True by simp
  have "(current_term n', p) \<notin> led" for p
  proof
    assume p: "(current_term n', p) \<in> led"
    then have "p = i" by (rule wins_led [OF ok inv gr _ won])
    with logs_okD(4) [OF ok p] t True show False by simp
  qed
  then have "logs_ok (set ids) w' H (insert (current_term n', i) led)"
    using same t won True by (intro elect_logs [OF ok _ i node _ _ _ _ _ _ _ gr fl]) simp_all
  moreover have "(current_term n', i) \<in> leading (set ids) w'" using True i node by (auto simp: leading_def)
  ultimately show ?thesis by blast
next
  case False
  have "logs_ok (set ids) w' H led"
  proof (rule keep_logs [OF ok _ i node _ same(2-4) _ _ gr fl])
    show "log n' \<in> H" using logs_okD(1) [OF ok] i same(1) by simp
    show "nrole (node_of w i) = Leader \<and> current_term n' = current_term (node_of w i) \<and> log n' = log (node_of w i)"
      if "nrole n' = Leader" using that False lead same(1) by (cases "nrole (node_of w i)") auto
    show "nrole n' = Leader" if "(current_term (node_of w i), i) \<in> led" "current_term n' = current_term (node_of w i)"
      using logs_okD(4) [OF ok that(1)] stay that(2) by blast
  qed simp
  then show ?thesis by blast
qed

text \<open>A follower that takes a message in: its log is one there has been.\<close>

lemma recv_logs:
  assumes ok: "logs_ok (set ids) w H led" and inv: "elect_inv (set ids) w"
    and i: "i \<in> set ids" and node: "node_of w' = (node_of w)(i := n')"
    and n': "nx_ok (next_index n')" "term_ok n'" "current_term (node_of w i) \<le> current_term n'" "nrole n' = Follower"
    and log: "log n' = log (node_of w i) \<or> log n' = merge_entries pi es (log (node_of w i)) \<and>
      pi < length (log (node_of w i)) \<and> (pi = 0 \<or> entry_term (log (node_of w i) ! pi) = pt)"
    and msg: "c \<noteq> i" "Req c v (AppendEntries (current_term n') l pi pt es lc) \<in> set (flights w)"
    and gr: "set (granted w) \<subseteq> set (granted w')" and fl: "sent_by i n' (flights w) (flights w')"
  shows "logs_ok (set ids) w' H led"
proof -
  note okD = logs_okD [OF ok]
  have n: "log (node_of w i) \<in> H" using okD(1) i by blast
  obtain W where W: "(current_term n', c) \<in> led" "W \<in> H" "from_log W pi pt es" using okD(6) [OF msg(2)] by blast
  have "merge_entries pi es (log (node_of w i)) = log (node_of w i) \<or> merge_entries pi es (log (node_of w i)) = W"
    if "pi < length (log (node_of w i))" "pi = 0 \<or> entry_term (log (node_of w i) ! pi) = pt"
    using okD(2,3) W n that by (intro merge_either) auto
  then have H: "log n' \<in> H" using log n W(2) by metis
  show ?thesis
  proof (rule keep_logs [OF ok _ i node H n'(1-3) _ _ gr fl])
    show "nrole n' = Leader" if "(current_term (node_of w i), i) \<in> led" "current_term n' = current_term (node_of w i)"
    proof -
      have "(current_term n', i) \<in> led" using that by simp
      from okD(4) [OF this] wins_led [OF ok inv _ W(1)] msg(1) show ?thesis by blast
    qed
  qed (use n'(4) in simp_all)
qed

lemma turn_logs:
  assumes ok: "logs_ok (set ids) w H led" and inv: "elect_inv (set ids) w" "elect_inv (set ids) w'" and ids: "distinct ids"
    and i: "i \<in> set ids" and node: "node_of w' = (node_of w)(i := n')"
    and h: "handle_event now ms a (node_of w i) = (out1, n1)"
    and same: "ballot n' = ballot n1" "log n' = log n1" "next_index n' = next_index n1"
    and gr: "set (granted w) \<subseteq> set (granted w')" and fl: "sent_by i n' (flights w) (flights w')"
    and msg: "\<And>t l pi pt es lc. a = Incoming (AppendEntries t l pi pt es lc) \<Longrightarrow>
      \<exists>c. c \<noteq> i \<and> Req c i (AppendEntries t l pi pt es lc) \<in> set (flights w)"
  shows "\<exists>H' led'. logs_ok (set ids) w' H' led' \<and> led' \<subseteq> led \<union> leading (set ids) w'"
proof -
  let ?n = "node_of w i"
  have n: "log ?n \<noteq> []" "nx_ok (next_index ?n)" "term_ok ?n" using logs_okD(1,2) [OF ok] i by (auto simp: log_ok_def)
  note ev = log_event_turn [OF h n(2,1,3)]
  have r: "nrole n' = nrole n1" "current_term n' = current_term n1" using same(1) by (simp_all add: ballot_def)
  have ok': "nx_ok (next_index n')" "term_ok n'" using ev(3,4) same(3) r by (simp_all add: term_ok_def)
  have mono: "current_term ?n \<le> current_term n'" using vote_kept_event(1) [OF h] r by simp
  from ev(1) consider
    (steady) "log n1 = log ?n" "nrole n1 = Leader \<longrightarrow> nrole ?n \<noteq> Follower \<and> current_term n1 = current_term ?n"
      "nrole ?n = Leader \<longrightarrow> current_term n1 = current_term ?n \<longrightarrow> nrole n1 = Leader"
  | (append) cmd where "nrole ?n = Leader" "nrole n1 = Leader" "current_term n1 = current_term ?n"
      "log n1 = log ?n @ [\<lparr>entry_term = current_term ?n, command = cmd\<rparr>]"
  | (recv) t l pi pt es lc where "a = Incoming (AppendEntries t l pi pt es lc)" "current_term ?n \<le> t" "current_term n1 = t"
      "nrole n1 = Follower"
      "log n1 = log ?n \<or> log n1 = merge_entries pi es (log ?n) \<and> pi < length (log ?n) \<and> (pi = 0 \<or> entry_term (log ?n ! pi) = pt)"
    unfolding log_event_def by blast
  then show ?thesis
  proof cases
    case steady
    have "\<exists>led'. logs_ok (set ids) w' H led' \<and> led' \<subseteq> led \<union> leading (set ids) w'"
      by (rule steady_logs [OF ok inv(2) ids i node _ ok' mono _ _ gr fl]) (use steady same(2) r in simp_all)
    then show ?thesis by blast
  next
    case (append cmd)
    have "wins (set ids) (granted w') (current_term n') i" using leader_wins [OF inv(2) ids i] node append(2) r by simp
    from wins_led [OF ok inv(2) gr _ this] have "logs_ok (set ids) w' (insert (log n') H) led"
      using append same(2) ok' r
      by (intro append_logs [OF ok _ i node, where e = "\<lparr>entry_term = current_term ?n, command = cmd\<rparr>"] gr fl) simp_all
    then show ?thesis by blast
  next
    case (recv t l pi pt es lc)
    obtain c where c: "c \<noteq> i" "Req c i (AppendEntries (current_term n') l pi pt es lc) \<in> set (flights w)"
      using msg [OF recv(1)] recv(3) r by auto
    have "logs_ok (set ids) w' H led"
      by (rule recv_logs [OF ok inv(1) i node ok' mono _ _ c gr fl]) (use recv(4,5) r same(2) in simp_all)
    then show ?thesis by blast
  qed
qed

lemma turn_log:
  assumes "turn f now ms i a w = Some (out, w')"
  obtains n' out1 n1 where "node_of w' = (node_of w)(i := n')" "handle_event now ms a (node_of w i) = (out1, n1)"
    "ballot n' = ballot n1" "log n' = log n1" "next_index n' = next_index n1"
    "flights w' = flights w @ map (\<lambda>(p, rpc). Req i p rpc) (out_rpcs out1)" "granted w' = granted w"
proof -
  obtain n' s' where r: "run_node f now ms a (node_of w i, machine_of w i) = Some (out, n', s')"
    and w': "node_of w' = (node_of w)(i := n')" "flights w' = flights w @ map (\<lambda>(p, rpc). Req i p rpc) (out_rpcs out)"
      "granted w' = granted w"
    using assms by (auto simp: turn_def split: option.splits)
  obtain out1 n1 where h: "handle_event now ms a (node_of w i) = (out1, n1)" by fastforce
  from r have "ballot n' = ballot n1 \<and> log n' = log n1 \<and> next_index n' = next_index n1 \<and> out_rpcs out = out_rpcs out1"
  proof (cases rule: run_node_cases)
    case skipped
    then show ?thesis using h by (cases a rule: skips.cases) auto
  next
    case (turn out2 n2 rs pend)
    then show ?thesis using h by (simp add: ballot_def)
  qed
  with w' h that show thesis by simp
qed

lemma sent_turn:
  assumes "sends_log n1 (out_rpcs out1)" and "ballot n' = ballot n1" "log n' = log n1" and "set old \<subseteq> set fl"
    and "\<And>x. x \<in> set new \<Longrightarrow> \<exists>c v rpc r. x = Rsp c v rpc r"
  shows "sent_by i n' fl (old @ map (\<lambda>(p, rpc). Req i p rpc) (out_rpcs out1) @ new)"
  unfolding sent_by_def
proof (intro allI impI)
  fix c v t l pi pt es lc
  assume x: "Req c v (AppendEntries t l pi pt es lc) \<in> set (old @ map (\<lambda>(p, rpc). Req i p rpc) (out_rpcs out1) @ new)"
  then consider "Req c v (AppendEntries t l pi pt es lc) \<in> set old" | "c = i" "(v, AppendEntries t l pi pt es lc) \<in> set (out_rpcs out1)"
    using assms(5) by fastforce
  then show "Req c v (AppendEntries t l pi pt es lc) \<in> set fl \<or>
      c = i \<and> nrole n' = Leader \<and> t = current_term n' \<and> from_log (log n') pi pt es"
  proof cases
    case 1
    then show ?thesis using assms(4) by blast
  next
    case 2
    then have "nrole n1 = Leader \<and> t = current_term n1 \<and> from_log (log n1) pi pt es"
      using assms(1) unfolding sends_log_def by blast
    then show ?thesis using assms(2,3) 2(1) by (simp add: ballot_def)
  qed
qed

text \<open>A turn of \<open>i\<close> on the network \<open>w\<close>, from which one message may have been taken.\<close>

lemma net_turn_logs:
  assumes ok: "logs_ok (set ids) w H led" and inv: "elect_inv (set ids) w" "elect_inv (set ids) w'" and ids: "distinct ids"
    and i: "i \<in> set ids" and t: "turn f now ms i a (w\<lparr>flights := fl\<rparr>) = Some (out, w2)" and fl: "set fl \<subseteq> set (flights w)"
    and w': "node_of w' = node_of w2" "set (granted w2) \<subseteq> set (granted w')" "flights w' = flights w2 @ new"
    and new: "\<And>x. x \<in> set new \<Longrightarrow> \<exists>c v rpc r. x = Rsp c v rpc r"
    and msg: "\<And>t l pi pt es lc. a = Incoming (AppendEntries t l pi pt es lc) \<Longrightarrow>
      \<exists>c. c \<noteq> i \<and> Req c i (AppendEntries t l pi pt es lc) \<in> set (flights w)"
  shows "\<exists>H' led'. logs_ok (set ids) w' H' led' \<and> led' \<subseteq> led \<union> leading (set ids) w'"
proof -
  obtain n' out1 n1 where n': "node_of w2 = (node_of w)(i := n')" "handle_event now ms a (node_of w i) = (out1, n1)"
    "ballot n' = ballot n1" "log n' = log n1" "next_index n' = next_index n1"
    "flights w2 = fl @ map (\<lambda>(p, rpc). Req i p rpc) (out_rpcs out1)" "granted w2 = granted w"
    by (rule turn_log [OF t]) simp
  have n: "log (node_of w i) \<noteq> []" "nx_ok (next_index (node_of w i))" "term_ok (node_of w i)"
    using logs_okD(1,2) [OF ok] i by (auto simp: log_ok_def)
  have "sent_by i n' (flights w) (fl @ map (\<lambda>(p, rpc). Req i p rpc) (out_rpcs out1) @ new)"
    by (rule sent_turn [OF log_event_turn(2) [OF n'(2) n(2,1,3)] n'(3,4) fl new])
  then have s: "sent_by i n' (flights w) (flights w')" using w'(3) n'(6) by simp
  have nd: "node_of w' = (node_of w)(i := n')" and gr: "set (granted w) \<subseteq> set (granted w')" using w' n'(1,7) by auto
  show ?thesis by (rule turn_logs [OF ok inv ids i nd n'(2-5) gr s msg])
qed

lemma deliver_logs:
  assumes ok: "logs_ok (set ids) w H led" and inv: "elect_inv (set ids) w" "elect_inv (set ids) w'" and ids: "distinct ids"
    and k: "k < length (flights w)" and step: "net_step f now ms (Deliver k) w = Some w'"
  shows "\<exists>H' led'. logs_ok (set ids) w' H' led' \<and> led' \<subseteq> led \<union> leading (set ids) w'"
proof -
  have sub: "set (without k (flights w)) \<subseteq> set (flights w)" using set_without by fast
  have fo: "flight_ok (set ids) (node_of w) (set (granted w)) (flights w ! k)" using inv(1) k by (simp add: elect_inv_def)
  show ?thesis
  proof (cases "flights w ! k")
    case (Req c v rpc)
    obtain out w2 where t: "turn f now ms v (Incoming rpc) (w\<lparr>flights := without k (flights w)\<rparr>) = Some (out, w2)"
      and w': "w' = w2\<lparr>flights := flights w2 @ (case out_reply out of Some r \<Rightarrow> [Rsp c v rpc r] | None \<Rightarrow> []),
        granted := granted w2 @ given_vote v rpc (out_reply out)\<rparr>"
      using step k Req by (auto simp: Let_def split: option.splits)
    have "Req c v rpc \<in> set (flights w)" using k Req by (metis nth_mem)
    with fo Req w' show ?thesis
      by (intro net_turn_logs [OF ok inv ids _ t sub,
            where new = "case out_reply out of Some r \<Rightarrow> [Rsp c v rpc r] | None \<Rightarrow> []"])
        (auto split: option.splits)
  next
    case (Rsp c v rpc r)
    obtain out w2 where t: "turn f now ms c (reply_event v rpc r) (w\<lparr>flights := without k (flights w)\<rparr>) = Some (out, w2)"
      and w': "w' = w2\<lparr>tallied := tallied w2 @ counted_vote (node_of w c) c v rpc r\<rparr>"
      using step k Rsp by (auto simp: Let_def)
    have "reply_event v rpc r \<noteq> Incoming x" for x by (cases rpc) auto
    with fo Rsp w' show ?thesis by (intro net_turn_logs [OF ok inv ids _ t sub, where new = "[]"]) auto
  qed
qed

lemma lose_logs:
  assumes ok: "logs_ok N w H led" and sub: "set fl \<subseteq> set (flights w)"
  shows "logs_ok N (w\<lparr>flights := fl\<rparr>) H led"
proof (rule logs_okI)
  show "(t, c) \<in> led \<and> (\<exists>W \<in> H. from_log W pi pt es)"
    if "Req c v (AppendEntries t l pi pt es lc) \<in> set (flights (w\<lparr>flights := fl\<rparr>))" for c v t l pi pt es lc
    using that sub by (intro logs_okD(6) [OF ok, where v = v and l = l and lc = lc]) auto
qed (use logs_okD(1-5) [OF ok] in simp_all)

lemma net_step_logs:
  assumes ok: "logs_ok (set ids) w H led" and inv: "elect_inv (set ids) w" and ids: "distinct ids"
    and a: "action_of (set ids) a" and step: "net_step f now ms a w = Some w'"
  shows "\<exists>H' led'. logs_ok (set ids) w' H' led' \<and> led' \<subseteq> led \<union> leading (set ids) w'"
proof -
  have inv': "elect_inv (set ids) w'" by (rule net_step_keeps [OF inv a step])
  show ?thesis
  proof (cases a)
    case (Tick i)
    obtain out w2 where t: "turn f now ms i Wakeup (w\<lparr>flights := flights w\<rparr>) = Some (out, w2)"
      and w': "w' = w2\<lparr>granted := granted w2 @ self_vote i (node_of w i) (node_of w2 i)\<rparr>"
      using step Tick by (auto split: option.splits)
    show ?thesis by (rule net_turn_logs [OF ok inv inv' ids _ t, where new = "[]"]) (use a Tick w' in auto)
  next
    case (Client i client cmd)
    obtain out where t: "turn f now ms i (Propose client cmd) (w\<lparr>flights := flights w\<rparr>) = Some (out, w')"
      using step Client by auto
    show ?thesis by (rule net_turn_logs [OF ok inv inv' ids _ t, where new = "[]"]) (use a Client in auto)
  next
    case (Deliver k)
    show ?thesis
      by (cases "k < length (flights w)") (use deliver_logs [OF ok inv inv' ids] step Deliver ok in auto)
  next
    case (Lose k)
    have "set (without k (flights w)) \<subseteq> set (flights w)" using set_without by fast
    from lose_logs [OF ok this] show ?thesis using step Lose by auto
  qed
qed

lemma net_run_logs:
  assumes "distinct ids"
  shows "logs_ok (set ids) w H led \<Longrightarrow> elect_inv (set ids) w \<Longrightarrow> \<forall>(now, ms, a) \<in> set as. action_of (set ids) a \<Longrightarrow>
    net_run f as w = Some w' \<Longrightarrow> \<exists>H' led'. logs_ok (set ids) w' H' led'"
proof (induction f as w arbitrary: H led rule: net_run.induct)
  case (2 f now ms a as w)
  obtain w1 where w1: "net_step f now ms a w = Some w1" "net_run f as w1 = Some w'"
    using "2.prems"(4) by (auto split: option.splits)
  have a: "action_of (set ids) a" using "2.prems"(3) by simp
  obtain H1 led1 where "logs_ok (set ids) w1 H1 led1" using net_step_logs [OF "2.prems"(1,2) assms a w1(1)] by blast
  moreover have "elect_inv (set ids) w1" by (rule net_step_keeps [OF "2.prems"(2) a w1(1)])
  ultimately show ?case using "2.IH" [OF w1(1)] "2.prems"(3) w1(2) by simp
qed auto

lemma net_start_logs: "logs_ok (set ids) (net_start now ms s ids) {[\<lparr>entry_term = 0, command = []\<rparr>]} {}"
  by (simp add: logs_ok_def net_start_def start_raft_def nx_ok_def term_ok_def log_ok_def log_match_refl)

lemma logs_match:
  assumes "distinct ids" and "\<forall>(t, m, a) \<in> set as. action_of (set ids) a"
    and "net_run f as (net_start now ms s ids) = Some w" and "i \<in> set ids" "j \<in> set ids"
  shows "log_match (log (node_of w i)) (log (node_of w j))"
proof -
  obtain H led where "logs_ok (set ids) w H led"
    using net_run_logs [OF assms(1) net_start_logs net_start_inv [OF assms(1)] assms(2,3)] by blast
  from logs_okD(1,3) [OF this] assms(4,5) show ?thesis by blast
qed

end
