(* ===== verification/Raft_Agreement.thy ===== *)
theory Raft_Agreement
  imports Raft_Log "HOL-Library.Sublist"
begin

text \<open>
  Agreement of the state machines while one node leads. A run that diverges needs a change of leaders
  (\<open>split_run_result\<close>). As long as only one node has led, in one term, no log is ever cut: all logs are prefixes of
  the longest, and the state machine of every node is the result of a prefix of that log.
\<close>

section \<open>Runs with one leader\<close>

definition sole_leader :: "bytes list \<Rightarrow> nat \<times> bytes \<Rightarrow> 's raft_net \<Rightarrow> bool" where
  "sole_leader ids l w \<longleftrightarrow> (\<forall>i \<in> set ids. nrole (node_of w i) = Leader \<longrightarrow> (current_term (node_of w i), i) = l)"

text \<open>In every state of the run, the first and the last included, nobody leads but \<open>l\<close>.\<close>

fun led_by :: "(frame \<Rightarrow> 's \<Rightarrow> frame \<times> 's) \<Rightarrow> bytes list \<Rightarrow> nat \<times> bytes \<Rightarrow> (nat \<times> nat \<times> net_action) list \<Rightarrow> 's raft_net \<Rightarrow> bool" where
  "led_by f ids l [] w \<longleftrightarrow> sole_leader ids l w"
| "led_by f ids l ((now, ms, a) # as) w \<longleftrightarrow> sole_leader ids l w \<and>
     (case net_step f now ms a w of None \<Rightarrow> True | Some w' \<Rightarrow> led_by f ids l as w')"

lemma sole_leading: "sole_leader ids l w \<Longrightarrow> leading (set ids) w \<subseteq> {l}"
  by (auto simp: sole_leader_def leading_def)

lemma led_by_start: "led_by f ids l as w \<Longrightarrow> sole_leader ids l w"
  by (cases as) auto

section \<open>Logs only grow\<close>

text \<open>With one leader there is one term, so two logs never conflict.\<close>

lemma one_term:
  assumes "logs_ok N w H led" and "led \<subseteq> {l}" and "X \<in> H" and "0 < k" "k < length X"
  shows "entry_term (X ! k) = fst l"
proof -
  obtain p where "(entry_term (X ! k), p) \<in> led" using logs_okD(2) [OF assms(1)] assms(3-5) by blast
  then show ?thesis using assms(2) by auto
qed

lemma logs_comparable:
  assumes ok: "logs_ok N w H led" and "led \<subseteq> {l}" and X: "X \<in> H" and Y: "Y \<in> H" and len: "length X \<le> length Y"
  shows "prefix X Y"
proof -
  have ne: "X \<noteq> []" using logs_okD(2) [OF ok] X by (auto simp: log_ok_def)
  let ?k = "length X - 1"
  have k: "?k < length X" "?k < length Y" using ne len by (cases X; simp)+
  have "entry_term (X ! ?k) = entry_term (Y ! ?k)"
  proof (cases "?k = 0")
    case True
    then show ?thesis using logs_okD(2) [OF ok] X Y by (simp add: log_ok_def)
  next
    case False
    then show ?thesis using one_term [OF ok assms(2)] X Y k by simp
  qed
  with k logs_okD(3) [OF ok] X Y have "take (Suc ?k) X = take (Suc ?k) Y" by (simp add: log_match_def)
  then have "X = take (length X) Y" using ne by (simp add: Suc_diff_1)
  then show ?thesis by (metis take_is_prefix)
qed

lemma grown_log:
  assumes ok: "logs_ok N w H led" and led: "led \<subseteq> {l}" and i: "i \<in> N" and ev: "log_event a (node_of w i) n1"
    and msg: "\<And>t l pi pt es lc. a = Incoming (AppendEntries t l pi pt es lc) \<Longrightarrow>
      \<exists>c v. Req c v (AppendEntries t l pi pt es lc) \<in> set (flights w)"
  shows "prefix (log (node_of w i)) (log n1)"
proof -
  let ?lg = "log (node_of w i)"
  have lg: "?lg \<in> H" using logs_okD(1) [OF ok] i by blast
  from ev consider "log n1 = ?lg" | e where "log n1 = ?lg @ [e]"
    | t l pi pt es lc where "a = Incoming (AppendEntries t l pi pt es lc)" "log n1 = merge_entries pi es ?lg" "pi < length ?lg"
    unfolding log_event_def by blast
  then show ?thesis
  proof cases
    case (3 t l' pi pt es lc)
    obtain W where W: "W \<in> H" "from_log W pi pt es" using msg [OF 3(1)] logs_okD(6) [OF ok] by blast
    have "agrees (pi + 1) es ?lg"
      unfolding agrees_def
    proof (intro allI impI)
      fix j assume j: "j < length es" "pi + 1 + j < length ?lg"
      then have e: "es ! j = W ! (pi + 1 + j)" "pi + 1 + j < length W" using W(2) by (auto simp: from_log_def)
      show "entry_term (?lg ! (pi + 1 + j)) = entry_term (es ! j)"
        unfolding e(1) using one_term [OF ok led lg _ j(2)] one_term [OF ok led W(1) _ e(2)] by simp
    qed
    then have "take (length ?lg) (log n1) = ?lg" using merge_entries_laws(4) [OF 3(3)] 3(2) by simp
    then show ?thesis by (metis take_is_prefix)
  qed simp_all
qed

section \<open>What a node has applied\<close>

definition run_entries :: "(frame \<Rightarrow> 's \<Rightarrow> frame \<times> 's) \<Rightarrow> log_entry list \<Rightarrow> 's \<Rightarrow> 's" where
  "run_entries f es s = fold (\<lambda>e s. snd (apply_entry f e s)) es s"

definition applied_ok :: "(frame \<Rightarrow> 's \<Rightarrow> frame \<times> 's) \<Rightarrow> 's \<Rightarrow> raft_node \<Rightarrow> 's \<Rightarrow> bool" where
  "applied_ok f s n m \<longleftrightarrow> last_applied n < length (log n) \<and> commit_index n \<le> last_applied n \<and>
     m = run_entries f (drop 1 (take (last_applied n + 1) (log n))) s"

lemma run_entries_append: "run_entries f (xs @ ys) s = run_entries f ys (run_entries f xs s)"
  by (simp add: run_entries_def)

lemma prefix_take: "prefix X Y \<Longrightarrow> k \<le> length X \<Longrightarrow> take k Y = take k X"
  by (auto simp: prefix_def)

lemma split_applied:
  assumes "m \<le> c"
  shows "drop 1 (take (Suc c) L) = drop 1 (take (Suc m) L) @ drop (Suc m) (take (Suc c) L)"
  using assms by (cases L) (simp_all add: take_drop [symmetric], metis le_add_diff_inverse take_add add.commute take_drop)

lemma run_node_applied:
  assumes ok: "applied_ok f s n m" and run: "run_node f now ms a (n, m) = Some (out, n', m')"
    and grow: "\<And>out1 n1. handle_event now ms a n = (out1, n1) \<Longrightarrow> prefix (log n) (log n1)"
  shows "applied_ok f s n' m'"
  using run
proof (cases rule: run_node_cases)
  case (turn out1 n1 rs pend)
  have p: "prefix (log n) (log n1)" by (rule grow [OF turn(2)])
  have la: "last_applied n1 = last_applied n" by (rule commit_bound(1) [OF turn(2)])
  have len: "last_applied n < length (log n)" "length (log n) \<le> length (log n1)"
    using ok prefix_length_le [OF p] by (simp_all add: applied_ok_def)
  then have c: "commit_index n1 < length (log n1)"
    using commit_bound(2) [OF turn(2)] ok by (auto simp: applied_ok_def)
  have m: "m = run_entries f (drop 1 (take (last_applied n + 1) (log n1))) s"
    using ok prefix_take [OF p, of "last_applied n + 1"] len by (simp add: applied_ok_def)
  have m': "m' = run_entries f (drop (last_applied n + 1) (take (commit_index n1 + 1) (log n1))) m"
    using apply_committed_spec [OF c, of f m] turn(3) la by (auto simp: run_entries_def)
  show ?thesis
  proof (cases "last_applied n \<le> commit_index n1")
    case True
    have "m' = run_entries f (drop 1 (take (commit_index n1 + 1) (log n1))) s"
      using m m' split_applied [OF True, of "log n1"] by (simp add: run_entries_append)
    then show ?thesis using turn(5) True c la by (simp add: applied_ok_def max_def)
  next
    case False
    then have "m' = m" using m' by (simp add: run_entries_def)
    then show ?thesis using turn(5) False m len la by (simp add: applied_ok_def max_def)
  qed
qed (use ok in simp)

section \<open>The network\<close>

lemma turn_applied:
  assumes t: "turn f now ms i a w = Some (out, w')" and ok: "applied_ok f s (node_of w i) (machine_of w i)"
    and grow: "\<And>out1 n1. handle_event now ms a (node_of w i) = (out1, n1) \<Longrightarrow> prefix (log (node_of w i)) (log n1)"
    and j: "j = i \<or> applied_ok f s (node_of w j) (machine_of w j)"
  shows "applied_ok f s (node_of w' j) (machine_of w' j)"
proof -
  obtain n' m' where r: "run_node f now ms a (node_of w i, machine_of w i) = Some (out, n', m')"
    and w': "node_of w' = (node_of w)(i := n')" "machine_of w' = (machine_of w)(i := m')"
    using t by (auto simp: turn_def split: option.splits)
  from run_node_applied [OF ok r grow] j w' show ?thesis by auto
qed

text \<open>A step of the network is a turn of one node, on an event that came out of the network, or nothing to the nodes.\<close>

lemma net_step_turn:
  assumes inv: "elect_inv N w" and a: "action_of N a" and step: "net_step f now ms a w = Some w'"
  obtains (quiet) "node_of w' = node_of w" "machine_of w' = machine_of w"
    | (turned) i ev fl out w2 where "i \<in> N" "turn f now ms i ev (w\<lparr>flights := fl\<rparr>) = Some (out, w2)"
        "node_of w' = node_of w2" "machine_of w' = machine_of w2"
        "\<And>rpc. ev = Incoming rpc \<Longrightarrow> \<exists>c v. Req c v rpc \<in> set (flights w)"
proof (cases a)
  case (Tick i)
  then obtain out w2 where "turn f now ms i Wakeup (w\<lparr>flights := flights w\<rparr>) = Some (out, w2)"
      "node_of w' = node_of w2" "machine_of w' = machine_of w2"
    using step by (auto split: option.splits)
  from turned [OF _ this] a Tick show ?thesis by simp
next
  case (Client i client cmd)
  then obtain out where "turn f now ms i (Propose client cmd) (w\<lparr>flights := flights w\<rparr>) = Some (out, w')"
    using step by (auto split: option.splits)
  from turned [OF _ this] a Client show ?thesis by simp
next
  case (Deliver k)
  show ?thesis
  proof (cases "k < length (flights w)")
    case k: True
    have fo: "flight_ok N (node_of w) (set (granted w)) (flights w ! k)" using inv k by (simp add: elect_inv_def)
    have mem: "flights w ! k \<in> set (flights w)" using k by simp
    show ?thesis
    proof (cases "flights w ! k")
      case (Req c v rpc)
      then obtain out w2 where "turn f now ms v (Incoming rpc) (w\<lparr>flights := without k (flights w)\<rparr>) = Some (out, w2)"
          "node_of w' = node_of w2" "machine_of w' = machine_of w2"
        using step Deliver k by (auto simp: Let_def split: option.splits)
      from turned [OF _ this] fo mem Req show ?thesis by auto
    next
      case (Rsp c v rpc r)
      then obtain out w2 where "turn f now ms c (reply_event v rpc r) (w\<lparr>flights := without k (flights w)\<rparr>) = Some (out, w2)"
          "node_of w' = node_of w2" "machine_of w' = machine_of w2"
        using step Deliver k by (auto simp: Let_def split: option.splits)
      moreover have "reply_event v rpc r \<noteq> Incoming x" for x by (cases rpc) auto
      ultimately show ?thesis using turned [of c "reply_event v rpc r" "without k (flights w)" out w2] fo Rsp by simp
    qed
  qed (use step Deliver quiet in auto)
qed (use step quiet in auto)

lemma net_step_applied:
  assumes ok: "logs_ok N w H led" and led: "led \<subseteq> {l}" and inv: "elect_inv N w" and a: "action_of N a"
    and step: "net_step f now ms a w = Some w'" and ap: "\<forall>i \<in> N. applied_ok f s (node_of w i) (machine_of w i)"
  shows "\<forall>i \<in> N. applied_ok f s (node_of w' i) (machine_of w' i)"
  using inv a step
proof (cases rule: net_step_turn)
  case (turned i ev fl out w2)
  have n: "log (node_of w i) \<noteq> []" "nx_ok (next_index (node_of w i))" "term_ok (node_of w i)"
    using logs_okD(1,2) [OF ok] turned(1) by (auto simp: log_ok_def)
  have "prefix (log (node_of w i)) (log n1)" if "handle_event now ms ev (node_of w i) = (out1, n1)" for out1 n1
    using turned(5) by (intro grown_log [OF ok led turned(1) log_event_turn(1) [OF that n(2,1,3)]])
  then have "applied_ok f s (node_of w2 j) (machine_of w2 j)" if "j \<in> N" for j
    using that turned(1) ap by (intro turn_applied [OF turned(2)]) auto
  with turned(3,4) show ?thesis by simp
qed (use ap in simp)

lemma net_run_applied:
  assumes "distinct ids"
  shows "logs_ok (set ids) w H led \<Longrightarrow> led \<subseteq> {l} \<Longrightarrow> elect_inv (set ids) w \<Longrightarrow>
    \<forall>(now, ms, a) \<in> set as. action_of (set ids) a \<Longrightarrow> led_by f ids l as w \<Longrightarrow>
    \<forall>i \<in> set ids. applied_ok f s (node_of w i) (machine_of w i) \<Longrightarrow> net_run f as w = Some w' \<Longrightarrow>
    (\<exists>H' led'. logs_ok (set ids) w' H' led' \<and> led' \<subseteq> {l}) \<and>
    (\<forall>i \<in> set ids. applied_ok f s (node_of w' i) (machine_of w' i))"
proof (induction f as w arbitrary: H led rule: net_run.induct)
  case (2 f now ms a as w)
  obtain w1 where w1: "net_step f now ms a w = Some w1" "net_run f as w1 = Some w'"
    using "2.prems"(7) by (auto split: option.splits)
  have a: "action_of (set ids) a" using "2.prems"(4) by simp
  have by1: "led_by f ids l as w1" using "2.prems"(5) w1(1) by simp
  obtain H1 led1 where L: "logs_ok (set ids) w1 H1 led1" "led1 \<subseteq> led \<union> leading (set ids) w1"
    using net_step_logs [OF "2.prems"(1,3) assms a w1(1)] by blast
  have "led1 \<subseteq> {l}" using L(2) "2.prems"(2) sole_leading [OF led_by_start [OF by1]] by blast
  moreover have "elect_inv (set ids) w1" by (rule net_step_keeps [OF "2.prems"(3) a w1(1)])
  moreover have "\<forall>i \<in> set ids. applied_ok f s (node_of w1 i) (machine_of w1 i)"
    by (rule net_step_applied [OF "2.prems"(1,2,3) a w1(1) "2.prems"(6)])
  ultimately show ?case using "2.IH" [OF w1(1) L(1)] "2.prems"(4) by1 w1(2) by simp
qed auto

lemma net_start_applied: "applied_ok f s (node_of (net_start now ms s ids) i) (machine_of (net_start now ms s ids) i)"
  by (simp add: applied_ok_def net_start_def start_raft_def run_entries_def)

text \<open>The node with the longest log has every command that any node has applied.\<close>

lemma machines_agree:
  assumes ids: "distinct ids" "ids \<noteq> []" and as: "\<forall>(t, m, a) \<in> set as. action_of (set ids) a"
    and led: "led_by f ids l as (net_start now ms s ids)" and run: "net_run f as (net_start now ms s ids) = Some w"
  shows "\<exists>i \<in> set ids. \<forall>j \<in> set ids.
    machine_of w j = run_entries f (take (last_applied (node_of w j)) (tl (log (node_of w i)))) s"
proof -
  have "(\<exists>H' led'. logs_ok (set ids) w H' led' \<and> led' \<subseteq> {l}) \<and>
    (\<forall>i \<in> set ids. applied_ok f s (node_of w i) (machine_of w i))"
    by (rule net_run_applied [OF ids(1) net_start_logs _ net_start_inv [OF ids(1)] as led _ run]) (simp_all add: net_start_applied)
  then obtain H led' where ok: "logs_ok (set ids) w H led'" "led' \<subseteq> {l}"
    and ap: "\<forall>i \<in> set ids. applied_ok f s (node_of w i) (machine_of w i)" by blast
  obtain i where i: "i \<in> set ids" "\<forall>j \<in> set ids. length (log (node_of w j)) \<le> length (log (node_of w i))"
    using ids(2) finite_imageI [of "set ids" "\<lambda>j. length (log (node_of w j))"]
      Max_in [of "(\<lambda>j. length (log (node_of w j))) ` set ids"] Max_ge [of "(\<lambda>j. length (log (node_of w j))) ` set ids"] by fastforce
  have "machine_of w j = run_entries f (take (last_applied (node_of w j)) (tl (log (node_of w i)))) s" if j: "j \<in> set ids" for j
  proof -
    have "prefix (log (node_of w j)) (log (node_of w i))"
      using logs_comparable [OF ok] logs_okD(1) [OF ok(1)] i j by blast
    moreover have a: "applied_ok f s (node_of w j) (machine_of w j)" using ap j by blast
    ultimately have "take (last_applied (node_of w j) + 1) (log (node_of w i)) = take (last_applied (node_of w j) + 1) (log (node_of w j))"
      by (intro prefix_take) (simp_all add: applied_ok_def)
    then have "drop 1 (take (last_applied (node_of w j) + 1) (log (node_of w j))) = take (last_applied (node_of w j)) (tl (log (node_of w i)))"
      by (metis drop_Suc drop_0 One_nat_def add.commute drop_take plus_1_eq_Suc diff_Suc_1)
    with a show ?thesis by (simp add: applied_ok_def)
  qed
  with i(1) show ?thesis by blast
qed

end
