(* ===== verification/Type_Laws.thy ===== *)
theory Type_Laws
  imports Command_Laws
begin

text \<open>
  The kinds of values. A command that does not overwrite whole values never changes the kind of the value at
  a key: it may add keys, or drop them, and a key that stays holds the same kind of value.
\<close>

section \<open>Operations\<close>

text \<open>Adding and changing values keeps every key; dropping and reading keeps what is left.\<close>

definition kinds_grow :: "store \<Rightarrow> store \<Rightarrow> bool" where
  "kinds_grow s s' \<longleftrightarrow> (\<forall>k e. lookup s k = Some e \<longrightarrow>
     (\<exists>e'. lookup s' k = Some e' \<and> kind_text (entry_value e') = kind_text (entry_value e)))"

definition kinds_shrink :: "store \<Rightarrow> store \<Rightarrow> bool" where
  "kinds_shrink s s' \<longleftrightarrow> kinds_grow s' s"

lemma kinds_grow_refl [simp]: "kinds_grow s s" and kinds_shrink_refl [simp]: "kinds_shrink s s"
  by (simp_all add: kinds_grow_def kinds_shrink_def)

lemma kinds_grow_trans [trans]: "kinds_grow s1 s2 \<Longrightarrow> kinds_grow s2 s3 \<Longrightarrow> kinds_grow s1 s3"
  unfolding kinds_grow_def by metis

lemma kinds_shrink_trans [trans]: "kinds_shrink s1 s2 \<Longrightarrow> kinds_shrink s2 s3 \<Longrightarrow> kinds_shrink s1 s3"
  unfolding kinds_shrink_def by (rule kinds_grow_trans)

lemma kinds_put_same:
  "lookup s k = Some e \<Longrightarrow> kind_text (entry_value e') = kind_text (entry_value e) \<Longrightarrow>
     kinds_grow s (put k e' s) \<and> kinds_shrink s (put k e' s)"
  by (auto simp: kinds_grow_def kinds_shrink_def)

lemma kinds_remove: "kinds_shrink s (remove k s)"
  by (auto simp: kinds_grow_def kinds_shrink_def split: if_splits)

text \<open>What a view of one kind of value says of it.\<close>

definition view_of :: "(store_value \<Rightarrow> 'a option) \<Rightarrow> ('a \<Rightarrow> store_value) \<Rightarrow> bool" where
  "view_of proj con \<longleftrightarrow> (\<forall>v x y. proj v = Some x \<longrightarrow> kind_text (con y) = kind_text v) \<and> (\<forall>x. proj (con x) = Some x)"

lemma views [simp]:
  "view_of as_string VString" "view_of as_list VList" "view_of as_hash VHash" "view_of as_set VSet" "view_of as_zset VZSet"
  by (auto simp: view_of_def elim: as_string.elims as_list.elims as_hash.elims as_set.elims as_zset.elims)

lemma kinds_upd:
  assumes "view_of proj con"
  shows "kinds_grow s (snd (typed_upd proj con new f k s))"
proof (cases "lookup s k")
  case None
  then show ?thesis
    using assms by (auto simp: typed_upd_def or_insert_def Let_def view_of_def case_prod_unfold kinds_grow_def)
next
  case (Some e)
  show ?thesis
  proof (cases "proj (entry_value e)")
    case (Some x)
    then have "kind_text (con y) = kind_text (entry_value e)" for y using assms by (simp add: view_of_def)
    with \<open>lookup s k = Some e\<close> Some show ?thesis
      by (simp add: typed_upd_def or_insert_def case_prod_unfold kinds_put_same)
  qed (use Some in \<open>simp add: typed_upd_def or_insert_def\<close>)
qed

lemma kinds_mod:
  assumes "view_of proj con"
  shows "kinds_grow s (snd (typed_mod proj con z f k s))"
proof (cases "lookup s k")
  case (Some e)
  show ?thesis
  proof (cases "proj (entry_value e)")
    case (Some x)
    then have "kind_text (con y) = kind_text (entry_value e)" for y using assms by (simp add: view_of_def)
    with \<open>lookup s k = Some e\<close> Some show ?thesis by (simp add: typed_mod_def case_prod_unfold kinds_put_same)
  qed (use Some in \<open>simp add: typed_mod_def\<close>)
qed (simp add: typed_mod_def)

lemmas kinds_typed = kinds_upd [OF views(1)] kinds_upd [OF views(2)] kinds_upd [OF views(3)] kinds_upd [OF views(4)]
  kinds_upd [OF views(5)] kinds_mod [OF views(2)] kinds_mod [OF views(3)] kinds_mod [OF views(4)] kinds_mod [OF views(5)]

lemma kinds_moves: "kinds_grow s (snd (lmove src dst fl tt s))" "kinds_grow s (snd (smove src dst m s))"
proof -
  have "kinds_grow s (snd (lmove_pop src fl s))" "kinds_grow s1 (snd (lmove_push dst tt v s1))" for s1 v
    by (simp_all add: lmove_pop_def lmove_push_def kinds_typed)
  then show "kinds_grow s (snd (lmove src dst fl tt s))"
    by (auto simp: lmove_def split: prod.splits sum.splits option.splits) (metis kinds_grow_trans snd_conv)
  have "kinds_grow s (snd (smove_remove src m s))" "kinds_grow s1 (snd (smove_add dst m s1))" for s1
    by (simp_all add: smove_remove_def smove_add_def kinds_typed)
  then show "kinds_grow s (snd (smove src dst m s))"
    by (auto simp: smove_def split: prod.splits sum.splits) (metis kinds_grow_trans snd_conv)+
qed

lemma kinds_get: "kinds_shrink s (snd (store_get now k s))"
  by (simp add: store_get_def kinds_remove split: option.split)

lemma kinds_del: "kinds_shrink s (snd (store_del ks s))"
  by (induction ks arbitrary: s) (auto simp: Let_def case_prod_unfold intro: kinds_shrink_trans [OF kinds_remove])

lemma kinds_expire: "store_expire now k ttl s = Some (b, s') \<Longrightarrow> kinds_grow s s'"
  by (auto simp: store_expire_def kinds_put_same split: option.splits if_splits)

lemma kinds_persist: "kinds_grow s (snd (store_persist k s))"
  by (auto simp: store_persist_def kinds_put_same split: option.splits)

section \<open>Commands\<close>

definition kinds_kept :: "env \<Rightarrow> db \<Rightarrow> db \<Rightarrow> bool" where
  "kinds_kept e d d' \<longleftrightarrow> kinds_grow (kv d) (kv d') \<or> kinds_shrink (kv d) (kv d')"

lemma kinds_kept_refl: "kinds_kept e d d"
  by (simp add: kinds_kept_def)

lemma kinds_kept_grow: "kinds_grow (kv d) (kv d') \<Longrightarrow> kinds_kept e d d'"
  and kinds_kept_shrink: "kinds_shrink (kv d) (kv d') \<Longrightarrow> kinds_kept e d d'"
  by (simp_all add: kinds_kept_def)

lemma kv_ops [simp]:
  "kv (snd (store_op out f d)) = snd (f (kv d))" "kv (snd (logged_op out logs lg f d)) = snd (f (kv d))"
  by (simp_all add: store_op_def logged_op_def case_prod_unfold split: sum.split)

text \<open>The commands that put a whole new value under a key.\<close>

definition overwrites :: "bytes set" where
  "overwrites = {''SET'', ''MSET'', ''GETSET'', ''SETNX'', ''SUNIONSTORE'', ''SINTERSTORE'', ''SDIFFSTORE''}"

lemma key_cmds_kinds:
  "kinds_shrink (kv d) (kv (snd (cmd_del args d)))" "kinds_grow (kv d) (kv (snd (cmd_persist args d)))"
  "expire_with u name e args d = Some (r, d') \<Longrightarrow> kinds_grow (kv d) (kv d')"
  by (auto simp: cmd_del_def cmd_persist_def expire_with_def Let_def case_prod_unfold kinds_del kinds_persist
      split: option.splits if_splits intro: kinds_expire)

lemma mget_items_kinds: "kinds_shrink s (snd (mget_items now fs s))"
  by (induction fs arbitrary: s) (auto simp: case_prod_unfold split: option.split intro: kinds_shrink_trans [OF kinds_get])

lemma string_reads_kinds:
  "kinds_shrink (kv d) (kv (snd (cmd_get e args d)))" "kinds_shrink (kv d) (kv (snd (cmd_mget e args d)))"
  "kinds_shrink (kv d) (kv (snd (cmd_strlen e args d)))"
  by (auto simp: cmd_get_def cmd_mget_def cmd_strlen_def case_prod_unfold kinds_get mget_items_kinds split: option.split)

lemma string_writes_kinds:
  "kinds_grow (kv d) (kv (snd (cmd_append args d)))" "kinds_grow (kv d) (kv (snd (cmd_incrby i args d)))"
  "kinds_grow (kv d) (kv (snd (cmd_incrby_by i args d)))"
  by (auto simp: cmd_append_def cmd_incrby_def cmd_incrby_by_def store_append_def incrby_def Let_def kinds_typed split: option.split)

lemma list_cmds_kinds:
  "kinds_grow (kv d) (kv (snd (cmd_lpush args d)))" "kinds_grow (kv d) (kv (snd (cmd_rpush args d)))"
  "kinds_grow (kv d) (kv (snd (cmd_lpop args d)))" "kinds_grow (kv d) (kv (snd (cmd_rpop args d)))"
  "kinds_grow (kv d) (kv (snd (cmd_lset args d)))" "kinds_grow (kv d) (kv (snd (cmd_linsert args d)))"
  "kinds_grow (kv d) (kv (snd (cmd_lrem args d)))" "kinds_grow (kv d) (kv (snd (cmd_ltrim args d)))"
  "kinds_grow (kv d) (kv (snd (cmd_lmove args d)))"
  by (auto simp: cmd_lpush_def cmd_rpush_def cmd_lpop_def cmd_rpop_def cmd_lset_def cmd_linsert_def cmd_lrem_def
      cmd_ltrim_def cmd_lmove_def lpush_def rpush_def lpop_def rpop_def lset_def linsert_def store_lrem_def store_ltrim_def
      Let_def kinds_typed kinds_moves split: option.split)

lemma hset_pairs_kinds: "kinds_grow (kv d) (kv (snd (hset_pairs k n fs d)))"
proof (induction fs arbitrary: n d rule: induct_list012)
  case (3 ff vf fs)
  have h: "kinds_grow s (snd (store_hset k a b s))" for a b s by (simp add: store_hset_def kinds_typed)
  have rest: "kinds_grow (kv d) (kv (snd (hset_pairs k m fs (logged g (d\<lparr>kv := snd (store_hset k a b (kv d))\<rparr>)))))" for a b m g
    using kinds_grow_trans [OF h "3.IH"(1) [of "logged g (d\<lparr>kv := snd (store_hset k a b (kv d))\<rparr>)" m, simplified]] .
  show ?case by (auto simp: case_prod_unfold "3.IH"(1) h rest split: option.split sum.split)
qed simp_all

lemma hash_cmds_kinds:
  "kinds_grow (kv d) (kv (snd (cmd_hset args d)))" "kinds_grow (kv d) (kv (snd (cmd_hdel args d)))"
  "kinds_grow (kv d) (kv (snd (cmd_hsetnx args d)))" "kinds_grow (kv d) (kv (snd (cmd_hincrby args d)))"
  "kinds_grow (kv d) (kv (snd (cmd_hincrbyfloat e args d)))"
  by (auto simp: cmd_hset_def cmd_hdel_def cmd_hsetnx_def cmd_hincrby_def cmd_hincrbyfloat_def store_hdel_def
      store_hsetnx_def hincrby_def hincrbyfloat_def hset_pairs_kinds kinds_typed split: option.split)

lemma set_cmds_kinds:
  "kinds_grow (kv d) (kv (snd (cmd_sadd args d)))" "kinds_grow (kv d) (kv (snd (cmd_srem args d)))"
  "kinds_grow (kv d) (kv (snd (cmd_smove args d)))" "kinds_grow (kv d) (kv (snd (cmd_spop e args d)))"
  by (auto simp: cmd_sadd_def cmd_srem_def cmd_smove_def cmd_spop_def store_sadd_def store_srem_def store_spop_def
      Let_def kinds_typed kinds_moves split: option.split)

lemma zadd_pairs_kinds: "kinds_grow s (snd (zadd_pairs k opts fs cnt s))"
proof (induction fs arbitrary: cnt s rule: induct_list012)
  case (3 ff vf fs)
  have z: "kinds_grow s (snd (store_zadd k x m a b c d s))" for x m a b c d s by (simp add: store_zadd_def kinds_typed)
  have rest: "kinds_grow s (snd (zadd_pairs k opts fs n (snd (store_zadd k x m a b c d s))))" for x m a b c d n
    by (rule kinds_grow_trans [OF z "3.IH"(1)])
  show ?case by (cases cnt) (auto simp: case_prod_unfold z rest "3.IH"(1) split: option.split sum.split)
qed simp_all

lemma zset_cmds_kinds:
  "kinds_grow (kv d) (kv (snd (cmd_zadd args d)))" "kinds_grow (kv d) (kv (snd (cmd_zincrby e args d)))"
  "kinds_grow (kv d) (kv (snd (cmd_zrem args d)))" "kinds_grow (kv d) (kv (snd (cmd_zpopmin e args d)))"
  "kinds_grow (kv d) (kv (snd (cmd_zpopmax e args d)))" "kinds_grow (kv d) (kv (snd (cmd_zremrangebyrank args d)))"
  "kinds_grow (kv d) (kv (snd (cmd_zremrangebyscore args d)))"
  by (auto simp: cmd_zadd_def cmd_zincrby_def cmd_zrem_def cmd_zpopmin_def cmd_zpopmax_def cmd_zremrangebyrank_def
      cmd_zremrangebyscore_def store_zincrby_def store_zrem_def store_zpopmin_def store_zpopmax_def
      store_zremrangebyrank_def store_zremrangebyscore_def Let_def case_prod_unfold zadd_pairs_kinds kinds_typed
      split: option.split sum.split)

text \<open>Moving slots and keys to other nodes only drops them here.\<close>

lemma drain_keys_kinds: "kinds_shrink s (snd (drain_keys now ks s))"
proof (induction ks arbitrary: s)
  case (Cons k ks)
  obtain v s1 where g: "store_get now k s = (v, s1)" by fastforce
  have got: "kinds_shrink s s1" using kinds_get [of s now k] g by simp
  have "kinds_shrink s (snd (drain_keys now ks s1))" by (rule kinds_shrink_trans [OF got Cons.IH])
  moreover have "kinds_shrink s (snd (drain_keys now ks (snd (store_del [k] s1))))"
    by (rule kinds_shrink_trans [OF kinds_shrink_trans [OF got kinds_del] Cons.IH])
  ultimately show ?case using g by (simp add: Let_def case_prod_unfold del: store_del.simps split: option.split)
qed simp

lemma move_slots_kinds: "kinds_shrink (ctx_store c) (ctx_store (snd (move_slots e ts n c)))"
proof (induction e ts n c rule: move_slots.induct)
  case (2 e target slots rest n c)
  obtain es s where d: "drain_slots (env_now e) slots (ctx_store c) = (es, s)" by fastforce
  have "kinds_shrink (ctx_store c) s" using d drain_keys_kinds by (metis drain_slots_def snd_conv)
  with "2.IH" [OF d [symmetric]] d show ?case by (auto intro: kinds_shrink_trans)
qed simp

lemma cmd_migrate_kinds: "kinds_shrink (ctx_store c) (ctx_store (snd (cmd_migrate e args c)))"
proof -
  have "kinds_shrink (ctx_store c) (remove k (snd (store_get (env_now e) k (ctx_store c))))" for k
    by (rule kinds_shrink_trans [OF kinds_get kinds_remove])
  then show ?thesis
    by (auto simp: cmd_migrate_def Let_def send_internal_def case_prod_unfold kinds_get split: option.splits frame.splits)
qed

lemma kinds_server_table: "(cmd, h) \<in> set server_table \<Longrightarrow> abides kinds_kept h"
proof -
  have "abides kinds_kept cmd_cluster"
    unfolding abides_def by (auto dest!: cmd_cluster_moves simp: moves_def intro!: kinds_kept_shrink) (metis move_slots_kinds)
  moreover have "abides kinds_kept (\<lambda>e args c. Some (cmd_migrate e args c))"
    unfolding abides_def by (auto intro!: kinds_kept_shrink) (metis cmd_migrate_kinds snd_conv)
  ultimately show "(cmd, h) \<in> set server_table \<Longrightarrow> abides kinds_kept h"
    by (auto simp: server_table_def intro: abides_answers kinds_kept_refl) (auto simp: abides_def kinds_kept_refl)
qed

lemma kinds_flush: "kinds_shrink s (flush s)"
  by (simp add: kinds_shrink_def kinds_grow_def flush_def lookup_def)

lemmas shrink_cmds = key_cmds_kinds(1) string_reads_kinds

lemmas grow_cmds = key_cmds_kinds(2) string_writes_kinds list_cmds_kinds hash_cmds_kinds set_cmds_kinds zset_cmds_kinds

lemma abides_grow: "(\<And>e args d. kinds_grow (kv d) (kv (snd (f e args d)))) \<Longrightarrow> abides kinds_kept (updates f)"
  by (rule abides_updates) (rule kinds_kept_grow)

lemma abides_shrink: "(\<And>e args d. kinds_shrink (kv d) (kv (snd (f e args d)))) \<Longrightarrow> abides kinds_kept (updates f)"
  by (rule abides_updates) (rule kinds_kept_shrink)

lemma abides_expire: "abides kinds_kept (attempts (expire_with u name))"
  by (rule abides_attempts) (rule kinds_kept_grow [OF key_cmds_kinds(3)])

lemma kinds_data_tables:
  "list_all (\<lambda>(cmd, h). cmd \<in> overwrites \<or> abides kinds_kept h)
     (key_table @ string_table @ list_table @ hash_table @ set_table @ zset_table)"
  by (simp add: key_table_def string_table_def list_table_def hash_table_def set_table_def zset_table_def overwrites_def
      cmd_expire_def cmd_pexpire_def abides_answers [OF kinds_kept_refl] abides_grow grow_cmds abides_shrink shrink_cmds
      kinds_flush abides_expire)

interpretation kinds: command_contract kinds_kept "\<lambda>cmd. cmd \<notin> overwrites"
proof
  show "abides kinds_kept h" if "(cmd, h) \<in> set dispatch_table" "cmd \<notin> overwrites" for cmd h
    using that kinds_server_table kinds_data_tables unfolding dispatch_table_def list_all_iff by fastforce
qed (rule kinds_kept_refl)

lemma kinds_kept_type:
  assumes "kinds_kept e d d'" and "type_of t k (kv d) \<noteq> ''none''" and "type_of t' k (kv d') \<noteq> ''none''"
  shows "type_of t' k (kv d') = type_of t k (kv d)"
proof -
  obtain x x' where "lookup (kv d) k = Some x" "lookup (kv d') k = Some x'"
    "type_of t k (kv d) = kind_text (entry_value x)" "type_of t' k (kv d') = kind_text (entry_value x')"
    using assms(2,3) by (auto simp: type_of_def split: option.splits if_splits)
  moreover from assms(1) have "kinds_grow (kv d) (kv d') \<or> kinds_grow (kv d') (kv d)"
    by (simp add: kinds_kept_def kinds_shrink_def)
  ultimately show ?thesis unfolding kinds_grow_def by fastforce
qed

end
