(* ===== verification/Instances.thy ===== *)
theory Instances
  imports Process Raft_Agreement Type_Laws
begin

text \<open>
  Concrete environments, contexts and start-up arguments, and runs on them: the instances at which
  the properties of the root theory are applied.
\<close>

definition sample_env :: "nat \<Rightarrow> env" where
  "sample_env i =
     \<lparr>env_now = i, env_fmt = (\<lambda>x. ''1''), env_choose = (\<lambda>ms n. take n ms), env_draw = (\<lambda>ms i. hd ms),
      env_shuffle = (\<lambda>ms. ms), env_call = (\<lambda>a f. Answer frame_ok), env_propose = (\<lambda>b. frame_ok)\<rparr>"

lemma sample_rand: "rand_ok (sample_env i)"
  by (simp add: rand_ok_def sample_env_def)

definition sample_ctx :: "db \<Rightarrow> ctx" where
  "sample_ctx d =
     \<lparr>cdb = d, repl = new_leader, raft = None, cluster = None, chealth = None, cmetrics = None,
      is_replica_replay = False, sent = []\<rparr>"

definition sample_db :: db where
  "sample_db = \<lparr>kv = store_new, journal = Some \<lparr>aof_file = [], aof_path = ''f.aof''\<rparr>\<rparr>"

definition sample_args :: cli_args where
  "sample_args =
     \<lparr>arg_host = ''127.0.0.1'', arg_port = 6379, arg_aof = Some ''f.aof'', replicaof = None, raft_addr = None, arg_peers = None,
      cluster_nodes = None, cluster_self = None, metrics_addr = ''127.0.0.1:9090'', no_metrics = True\<rparr>"

text \<open>A leader outside a cluster executes a command of the table.\<close>

lemma leader_updates:
  assumes "command_name args = Some nm" and "map_of dispatch_table nm = Some (updates g)" and "leads c"
  shows "\<exists>c'. execute e (Array (Some args)) c = Some (fst (g e args (cdb c)), c') \<and> cdb c' = snd (g e args (cdb c)) \<and> leads c'"
proof -
  have "args \<noteq> []" using assms(1) by (auto simp: command_name_def bulk_at_def)
  with assms show ?thesis
    by (auto simp: execute_def run_local_def dispatch_def updates_def leads_def Let_def broadcast_def split: prod.splits)
qed

definition sample_calls :: "bytes list list" where
  "sample_calls = [[''RPUSH'', ''l'', ''a'', ''b''], [''INCR'', ''n'']]"

lemma sample_leads: "leads (sample_ctx d)"
  by (simp add: leads_def sample_ctx_def new_leader_def)

lemma sample_names:
  "command_name (map (\<lambda>p. Bulk (Some p)) [''RPUSH'', ''l'', ''a'', ''b'']) = Some ''RPUSH''"
  "command_name (map (\<lambda>p. Bulk (Some p)) [''INCR'', ''n'']) = Some ''INCR''"
  by code_simp+

lemma sample_run:
  "\<exists>c'. execute_all ev (map command_frame sample_calls) (sample_ctx d) = Some c' \<and>
     cdb c' = snd (cmd_incrby 1 (bulk_args [''INCR'', ''n'']) (snd (cmd_rpush (bulk_args [''RPUSH'', ''l'', ''a'', ''b'']) d))) \<and> leads c'"
proof -
  have entries: "map_of dispatch_table ''RPUSH'' = Some (updates (\<lambda>e. cmd_rpush))"
    "map_of dispatch_table ''INCR'' = Some (updates (\<lambda>e. cmd_incrby 1))" by (simp_all add: table_defs)
  obtain c1 where c1: "execute (ev 0) (command_frame [''RPUSH'', ''l'', ''a'', ''b'']) (sample_ctx d) =
      Some (fst (cmd_rpush (bulk_args [''RPUSH'', ''l'', ''a'', ''b'']) d), c1)"
    "cdb c1 = snd (cmd_rpush (bulk_args [''RPUSH'', ''l'', ''a'', ''b'']) d)" "leads c1"
    using leader_updates [OF sample_names(1) entries(1) sample_leads, of "ev 0" d] unfolding command_frame_def
    by (auto simp: sample_ctx_def)
  obtain c2 where "execute (ev 1) (command_frame [''INCR'', ''n'']) c1 =
      Some (fst (cmd_incrby 1 (bulk_args [''INCR'', ''n'']) (cdb c1)), c2)"
    "cdb c2 = snd (cmd_incrby 1 (bulk_args [''INCR'', ''n'']) (cdb c1))" "leads c2"
    using leader_updates [OF sample_names(2) entries(2) c1(3), of "ev 1"] unfolding command_frame_def by auto
  with c1 show ?thesis by (simp add: sample_calls_def)
qed

lemma sample_durable: "\<forall>bs \<in> set sample_calls. durable_call bs"
  by (simp add: sample_calls_def durable_call_def small_args_def small_def sample_names [simplified] durable_writes_def)

lemma sample_replicable: "\<forall>bs \<in> set sample_calls. replicable bs"
  by (simp add: sample_calls_def replicable_def sendable_def sample_names [simplified] replicated_writes_def)

definition sample_follower :: follower where
  "sample_follower = \<lparr>applied = 0, fstore = store_new, frepl = new_follower ''leader''\<rparr>"

lemma streamed_chunks: "streamed c c' \<Longrightarrow> \<forall>chunk \<in> set (received (subscribe (repl c)) (repl c')). chunk \<noteq> []"
  by (auto simp: streamed_def received_def subscribe_def) (metis write_frame_pos)

lemma sample_boot: "\<exists>p. boot sample_env 0 150 (\<lambda>_. None) sample_args = Some (Inr p)"
  by (simp add: boot_def boot_store_def boot_cluster_def sample_args_def load_frames_def)

text \<open>A log entry and a Raft node with one committed entry that is not applied yet.\<close>

definition sample_entry :: log_entry where
  "sample_entry = \<lparr>entry_term = 1, command = serialize_frame (command_frame [''SET'', ''k'', ''v''])\<rparr>"

definition sample_node :: raft_node where
  "sample_node = (start_raft 0 150 ''a'' [''b'', ''c''])
     \<lparr>current_term := 1, log := [\<lparr>entry_term = 0, command = []\<rparr>, sample_entry], commit_index := 1\<rparr>"

definition collect :: "frame \<Rightarrow> frame list \<Rightarrow> frame \<times> frame list" where
  "collect f fs = (frame_ok, fs @ [f])"

text \<open>A cluster of two nodes; the empty key is in slot 0, which belongs to the first.\<close>

lemma sample_cluster:
  obtains cfg where "cluster_new [''a:1'', ''b:2''] ''b:2'' = Some (Inr cfg)" and "\<not> is_mine cfg 0" and "node_for_slot cfg 0 = ''a:1''"
proof -
  let ?t = "map (\<lambda>s. min (s div (NUM_SLOTS div 2)) (2 - 1)) [0 ..< NUM_SLOTS]"
  have t: "slot_table 2 = Some ?t" by (rule slot_table_eq) (simp_all add: NUM_SLOTS_def)
  have s: "remdups_adj (sort [''a:1'', ''b:2'']) = [''a:1'', ''b:2'']" by code_simp
  have "cluster_new [''a:1'', ''b:2''] ''b:2'' = Some (Inr \<lparr>nodes = [''a:1'', ''b:2''], my_index = 1, slot_to_node = ?t\<rparr>)"
    unfolding cluster_new_def s using t by (simp add: Let_def numeral_2_eq_2)
  then show thesis by (rule that) (simp_all add: is_mine_def node_for_slot_def NUM_SLOTS_def)
qed

text \<open>Zero and one as scores, and the sorted set with one member.\<close>

lemma zero_one_bits:
  "f64_mag f64_zero = 0" "\<not> f64_neg f64_zero" "f64_mag f64_one = 1023 * 2 ^ 52" "\<not> f64_neg f64_one"
  by (simp_all add: f64_zero_def f64_one_def f64_of_def f64_mag_def f64_neg_def unat_of_nat)

lemma zero_one: "\<not> is_nan f64_one" "f64_lt f64_zero f64_one"
  using mag_val_one by (simp_all add: is_nan_def f64_lt_def f64_val_def zero_one_bits mag_val_def)

lemma sample_zset:
  obtains z where "zset_inv z" "zset_nan_free z" "zscore z = [''m'' \<mapsto> f64_one]"
proof (rule that [of "snd (zadd f64_one ''m'' False False False False zset_new)"])
  have "zset_nan_free zset_new" by (simp add: zset_nan_free_def zset_new_def)
  then show "zset_nan_free (snd (zadd f64_one ''m'' False False False False zset_new))"
    by (rule zset_nan_free_zadd [OF zset_inv_new])
  show "zset_inv (snd (zadd f64_one ''m'' False False False False zset_new))" by (rule zset_inv_zadd [OF zset_inv_new])
  show "zscore (snd (zadd f64_one ''m'' False False False False zset_new)) = [''m'' \<mapsto> f64_one]"
    unfolding zadd_scores by (simp add: zadd_score_def zero_one fun_eq_iff zscore_fun zset_new_def)
qed

end
