(* ===== verification/Spec2Isabelle.thy ===== *)
theory Spec2Isabelle
  imports Instances
begin

text \<open>
  loony-redis: a verification of the server in \<open>src/src\<close>.

  \<^bold>\<open>The program.\<close> loony-redis is a Redis-compatible in-memory store. A client's bytes are parsed into RESP
  frames (\<open>protocol\<close>), executed as commands (\<open>commands\<close>) on a store of typed values (\<open>storage\<close>), logged to an
  append-only file (\<open>persistence\<close>), broadcast to replicas (\<open>replication\<close>, \<open>network\<close>), or first agreed on by a Raft
  group (\<open>consensus\<close>). In a cluster (\<open>cluster\<close>) keys are sharded over 16384 slots, and heartbeats with gossip
  detect and remove failed nodes. \<open>observability\<close> keeps counters and serves them over HTTP. \<open>main\<close> starts it all.

  \<^bold>\<open>The theories\<close>, in the order in which they build on each other:
  \<^item> \<open>Redis_Prelude\<close>: bytes, \<open>i64\<close> and \<open>usize\<close> with their wrap-around, list helpers, the collections of lemmas.
    \<open>Rust_Text\<close>: UTF-8, upper case, trimming, integer parsing and printing of the standard library.
    \<open>Rust_F64\<close>: \<open>f64\<close> as 64-bit patterns with comparison, rounding arithmetic and parsing.
  \<^item> \<open>Adt_Interfaces\<close>: the contracts of the value types as locales (sequence, map, set), and Redis index ranges.
  \<^item> \<open>Redis_List\<close>, \<open>Redis_Hash\<close>, \<open>Redis_Set\<close>, \<open>Redis_ZSet\<close> (\<open>storage/list.rs\<close>, \<open>hash.rs\<close>, \<open>set.rs\<close>, \<open>zset.rs\<close>): both encodings of
    each type and every operation; each interprets its contract. A sorted set has a score table and an
    ordered index; \<open>zset_inv\<close> says that they agree.
  \<^item> \<open>Redis_Store\<close> and \<open>Store_Laws\<close> (\<open>storage/mod.rs\<close>): the keyspace with expiry, every operation of \<open>Store\<close>, the
    invariant \<open>store_inv\<close>, and what each operation does to the abstract list, map, set or counter at a key
    (\<open>list_at\<close>, \<open>hash_at\<close>, \<open>set_at\<close>, \<open>zset_at\<close>, \<open>counter_at\<close>; \<open>live\<close> is what a reader sees).
  \<^item> \<open>Resp_Protocol\<close> (\<open>protocol\<close>): parser and serialiser; a locale for any self-delimiting code, with streams and cuts.
  \<^item> \<open>Aof_Replication\<close> (\<open>persistence\<close>, \<open>replication\<close>): the file, its replay, broadcast and snapshot frames.
  \<^item> \<open>Cluster\<close>, \<open>Health\<close> (\<open>cluster\<close>): slots, slot table, routing, draining; health table, gossip, heartbeats, healing.
  \<^item> \<open>Raft\<close>, \<open>Raft_Loop\<close>, \<open>Raft_Election\<close>, \<open>Raft_Log\<close> (\<open>consensus\<close>): the node and its handlers; the event loop and
    the RPC connections; nodes on a lossy network, at most one leader per term, and a run that diverges; that
    logs which agree on the term of an entry agree up to it. \<open>Raft_Agreement\<close>: one state machine while one node leads.
  \<^item> \<open>Command_Data\<close>, \<open>Command_Collections\<close>, \<open>Observability\<close>, \<open>Command_Cluster\<close>, \<open>Commands\<close> (\<open>commands\<close>, \<open>observability\<close>):
    every command, the dispatch table and \<open>execute\<close> with its Raft, routing, \<open>READONLY\<close> and broadcast stages.
  \<^item> \<open>Command_Laws\<close>: the locale \<open>command_contract\<close> lifts a relation that every handler keeps to \<open>execute\<close> and to
    runs; it is interpreted for the store invariant, the growth of the file and the view of readers, and in
    \<open>Type_Laws\<close> for the types of values.
  \<^item> \<open>Replay\<close>, \<open>Durability\<close>: replaying a snapshot; the commands the file is complete for.
  \<^item> \<open>Network\<close>, \<open>Replica\<close>, \<open>Server\<close>, \<open>Process\<close> (\<open>network\<close>, \<open>main\<close>): connections and the follower's stream (locale
    \<open>frame_loop\<close>: only the frames matter, not the reads); convergence of a follower; the accept loop;
    start-up and all tasks of a node on its shared state. \<open>Instances\<close>: concrete contexts and runs.

  \<^bold>\<open>How the code is modelled.\<close> Strings and byte buffers are HOL strings; \<open>i64\<close> is \<open>int\<close> with the wrap-around of a
  release build written out, \<open>usize\<close> is \<open>nat\<close>, \<open>f64\<close> a 64-bit word. A \<open>HashMap\<close>, \<open>DashMap\<close> or \<open>HashSet\<close> is an association
  list or a distinct list, whose order stands for the unspecified iteration order; a \<open>BTreeMap\<close> is a strictly
  sorted list. Operations thread the state they change. \<open>Inl\<close> is an error value; a \<open>None\<close> of a function that
  may panic is the panic (\<open>Instant\<close> overflow, \<open>chunks_mut(0)\<close>, \<open>unwrap\<close>, an index). What the program takes from
  outside is in the record \<open>env\<close>, one per command: the clock, the choices of \<open>rand\<close>, the printing of \<open>f64\<close>, the
  replies of other nodes and of the Raft group. The broadcast channel is its history and the position of
  each receiver, with \<open>Lagged\<close> beyond its capacity. A task's turn (one read, one event, one round) is atomic; the
  interleavings are the sequences of turns of \<open>node_reachable\<close> and \<open>net_run\<close>.

  \<^bold>\<open>Fuel and termination.\<close> Only the parser has fuel, the length of the buffer: every value takes at least one
  byte, and any fuel of at least that length gives the same result (\<open>parse_value_fuel\<close>). The loops over a
  buffer shrink it with each frame, and \<open>apply_committed\<close> closes the gap to the commit index. The endless loops
  (accepting, following, the Raft loop, heartbeats) are modelled by their turn.

  \<^bold>\<open>What is shown.\<close> The properties C1 to C40 below, in this order: wire format and connections; durability and
  replication; the invariant of a whole node; Raft; the file and the kinds of commands; the cluster; keys,
  lists, hashes, sets and sorted sets. Most state that the code does what it means to; C9, C35 and C40
  prove behaviour that it should not have, and C27 one that an operator should know.

  \<^bold>\<open>Not modelled.\<close> Sockets, file handles and timers as such (a read is a chunk, writes succeed, time is an
  argument); the listening loop of the metrics server, whose replies are modelled; \<open>clap\<close> and logging; how buffers
  grow, memory and stack limits; the benchmarks. A command reads the clock once. Two commands of
  different connections do not interleave inside a command.
\<close>

section \<open>The wire protocol\<close>

lemma serialize_eq: "serialize_frame = write_frame"
  by (rule ext) (simp add: serialize_frame_def)

lemma resp_bytes_eq: "resp_bytes = (\<lambda>ps. write_frame (command_frame ps))"
  by (rule ext) (rule resp_bytes_frame)

lemma command_frame_eq: "command_frame = (\<lambda>bs. Array (Some (bulk_args bs)))"
  by (rule ext) (simp add: command_frame_def)

text \<open>
  C1 (round trip). Parsing the bytes of a well-formed frame, whatever bytes follow it in the
  buffer, gives the frame back and consumes exactly its bytes.
\<close>

theorem resp_roundtrip:
  assumes "wf_frame f"
  shows "parse_frame (serialize_frame f @ rest) = Inr (Some (f, length (serialize_frame f)))"
  using parse_frame_write [OF assms] by (simp add: serialize_frame_def)

theorem resp_roundtrip_witness:
  "parse_frame (serialize_frame (Array (Some [Bulk (Some ''GET''), Integer (- 7), Bulk None])) @ ''+x'') =
     Inr (Some (Array (Some [Bulk (Some ''GET''), Integer (- 7), Bulk None]),
       length (serialize_frame (Array (Some [Bulk (Some ''GET''), Integer (- 7), Bulk None])))))"
  by (rule resp_roundtrip) (simp add: is_i64_def)

section \<open>A client connection\<close>



section \<open>Durability\<close>

lemma fold_path: "aof_path (fold write_resp ws a) = aof_path a"
  by (induction ws arbitrary: a) (simp_all add: write_resp_def)

lemma reload_run:
  assumes "\<forall>bs \<in> set calls. durable_call bs"
    and "cdb c = \<lparr>kv = store_new, journal = Some \<lparr>aof_file = [], aof_path = path\<rparr>\<rparr>"
    and "execute_all ev (map command_frame calls) c = Some c'"
    and "arg_aof a = Some path" and "files path = map_option aof_file (journal (cdb c'))"
  shows "boot_store ev' files a = Some (cdb c', boot_repl a)"
proof -
  have "exact (cdb c) (cdb c')" by (rule exact_run [OF assms(1) assms(3) [unfolded command_frame_eq]])
  then have rec: "recorded (cdb c) (cdb c')"
    using assms(2) by (simp add: exact_def no_ttl_def store_new_def lookup_def)
  then obtain ws where "journal (cdb c') = Some (fold write_resp ws \<lparr>aof_file = [], aof_path = path\<rparr>)"
    using assms(2) by (auto simp: recorded_def)
  then obtain f where f: "journal (cdb c') = Some \<lparr>aof_file = f, aof_path = path\<rparr>"
    using fold_path [of ws "\<lparr>aof_file = [], aof_path = path\<rparr>"] by (metis aof.cases aof.select_convs(2))
  have "execute_all ev' (load_frames (Some f)) (replay_ctx store_new (boot_repl a)) =
      Some (replay_ctx (kv (cdb c')) (boot_repl a))"
    using recorded_reload [OF rec _ _ f, of "\<lparr>aof_file = [], aof_path = path\<rparr>" ev' "boot_repl a"] assms(2) by simp
  then show ?thesis using assms(4,5) f by (simp add: boot_store_def replay_ctx_def)
qed

text \<open>
  C3 (refinement). Commands the append-only file is complete for, run from an empty store and file:
  a restart on the file that they leave has the same store and the same file.
\<close>

theorem durable_restart:
  assumes "\<forall>bs \<in> set calls. durable_call bs"
    and "cdb c = \<lparr>kv = store_new, journal = Some \<lparr>aof_file = [], aof_path = path\<rparr>\<rparr>"
    and "execute_all ev (map command_frame calls) c = Some c'"
    and "arg_aof a = Some path" and "files path = map_option aof_file (journal (cdb c'))"
  shows "boot_store ev' files a = Some (cdb c', boot_repl a)"
  by (rule reload_run [where files = files, OF assms])

theorem durable_restart_witness:
  "\<exists>c'. execute_all sample_env (map command_frame sample_calls) (sample_ctx sample_db) = Some c' \<and>
     boot_store sample_env (\<lambda>p. map_option aof_file (journal (cdb c'))) sample_args = Some (cdb c', boot_repl sample_args)"
proof -
  obtain c' where c': "execute_all sample_env (map command_frame sample_calls) (sample_ctx sample_db) = Some c'"
    using sample_run by blast
  have "boot_store sample_env (\<lambda>p. map_option aof_file (journal (cdb c'))) sample_args = Some (cdb c', boot_repl sample_args)"
    by (rule durable_restart [OF sample_durable _ c']) (simp_all add: sample_args_def sample_ctx_def sample_db_def)
  with c' show ?thesis by blast
qed

section \<open>Replication\<close>



section \<open>A whole node\<close>



section \<open>Raft\<close>

text \<open>
  C6 (safety). On a network that may lose and delay messages, at most one node leads in a term.
\<close>

theorem one_leader_per_term:
  assumes "distinct ids" and "\<forall>(t, m, a) \<in> set as. action_of (set ids) a"
    and "net_run f as (net_start now ms s ids) = Some w"
    and "i \<in> set ids" "nrole (node_of w i) = Leader" and "j \<in> set ids" "nrole (node_of w j) = Leader"
    and "current_term (node_of w i) = current_term (node_of w j)"
  shows "i = j"
  by (rule one_leader [OF net_run_keeps [OF net_start_inv [OF assms(1)] assms(2,3)] assms(1,4-8)])

theorem one_leader_per_term_witness:
  "\<exists>w. net_run collect (at_time 10200 [Tick ''b'', Deliver 1, Deliver 1]) (net_start 10000 150 [] [''a'', ''b'', ''c'']) = Some w \<and>
     (\<exists>!i. i \<in> {''a'', ''b'', ''c''} \<and> nrole (node_of w i) = Leader \<and>
       current_term (node_of w i) = current_term (node_of w ''b''))"
proof -
  let ?as = "at_time 10200 [Tick ''b'', Deliver 1, Deliver 1]" and ?ids = "[''a'', ''b'', ''c'']"
  obtain w where w: "net_run collect ?as (net_start 10000 150 [] ?ids) = Some w" "nrole (node_of w ''b'') = Leader"
    by (simp add: at_time_def net_start_def turn_simps)
  have as: "\<forall>(t, m, a) \<in> set ?as. action_of (set ?ids) a" by (simp add: at_time_def)
  have only: "i = ''b''" if "i \<in> set ?ids" "nrole (node_of w i) = Leader"
      "current_term (node_of w i) = current_term (node_of w ''b'')" for i
    by (rule one_leader_per_term [OF _ as w(1) that(1,2) _ w(2) that(3)]) simp_all
  have "\<exists>!i. i \<in> {''a'', ''b'', ''c''} \<and> nrole (node_of w i) = Leader \<and>
      current_term (node_of w i) = current_term (node_of w ''b'')"
    by (rule ex1I [of _ "''b''"]) (use w(2) only in auto)
  with w show ?thesis by blast
qed

text \<open>
  C7 (safety). Log matching: on that network, if the logs of two nodes have entries of the same term at
  an index, they are equal up to and including it.
\<close>

theorem log_matching:
  assumes "distinct ids" and "\<forall>(t, m, a) \<in> set as. action_of (set ids) a"
    and "net_run f as (net_start now ms s ids) = Some w" and "i \<in> set ids" "j \<in> set ids"
    and "k < length (log (node_of w i))" "k < length (log (node_of w j))"
    and "entry_term (log (node_of w i) ! k) = entry_term (log (node_of w j) ! k)"
  shows "take (Suc k) (log (node_of w i)) = take (Suc k) (log (node_of w j))"
  using logs_match [OF assms(1-5)] assms(6-8) by (simp add: log_match_def)

theorem log_matching_witness:
  "\<exists>w. net_run collect (at_time 10200 [Tick ''b'', Deliver 1, Deliver 1, Client ''b'' 7 ''x'', Deliver 2])
      (net_start 10000 150 [] [''a'', ''b'', ''c'']) = Some w \<and>
     length (log (node_of w ''c'')) = 2 \<and> take 2 (log (node_of w ''c'')) = take 2 (log (node_of w ''b''))"
proof -
  let ?as = "at_time 10200 [Tick ''b'', Deliver 1, Deliver 1, Client ''b'' 7 ''x'', Deliver 2]"
    and ?ids = "[''a'', ''b'', ''c'']"
  obtain w where w: "net_run collect ?as (net_start 10000 150 [] ?ids) = Some w"
      "length (log (node_of w ''c'')) = 2" "length (log (node_of w ''b'')) = 2"
      "entry_term (log (node_of w ''c'') ! 1) = entry_term (log (node_of w ''b'') ! 1)"
    by (simp add: at_time_def net_start_def turn_simps)
  have as: "\<forall>(t, m, a) \<in> set ?as. action_of (set ?ids) a" by (simp add: at_time_def)
  have "take (Suc 1) (log (node_of w ''c'')) = take (Suc 1) (log (node_of w ''b''))"
    by (rule log_matching [OF _ as w(1)]) (use w(2-4) in simp_all)
  with w show ?thesis by (simp add: numeral_2_eq_2)
qed

text \<open>
  C8 (refinement). While leadership does not change, the replicated state machine is one machine: there is
  a node whose log explains all. The state of every node is the result of running the first
  entries of that log, as many as the node has applied, on the initial state.
\<close>

theorem one_leader_agreement:
  assumes "distinct ids" "ids \<noteq> []" and "\<forall>(t, m, a) \<in> set as. action_of (set ids) a"
    and "led_by f ids l as (net_start now ms s ids)" and "net_run f as (net_start now ms s ids) = Some w"
  shows "\<exists>i \<in> set ids. \<forall>j \<in> set ids.
    machine_of w j = run_entries f (take (last_applied (node_of w j)) (tl (log (node_of w i)))) s"
  by (rule machines_agree [OF assms])

theorem one_leader_agreement_witness:
  "\<exists>w. net_run collect (at_time 10200 [Tick ''b'', Deliver 1, Deliver 1, Client ''b'' 7 ''x'', Deliver 2])
      (net_start 10000 150 [] [''a'', ''b'', ''c'']) = Some w \<and> nrole (node_of w ''b'') = Leader \<and>
     (\<exists>i \<in> {''a'', ''b'', ''c''}. \<forall>j \<in> {''a'', ''b'', ''c''}.
       machine_of w j = run_entries collect (take (last_applied (node_of w j)) (tl (log (node_of w i)))) [])"
proof -
  let ?as = "at_time 10200 [Tick ''b'', Deliver 1, Deliver 1, Client ''b'' 7 ''x'', Deliver 2]"
    and ?ids = "[''a'', ''b'', ''c'']"
  obtain w where w: "net_run collect ?as (net_start 10000 150 [] ?ids) = Some w" "nrole (node_of w ''b'') = Leader"
    by (simp add: at_time_def net_start_def turn_simps)
  have as: "\<forall>(t, m, a) \<in> set ?as. action_of (set ?ids) a" by (simp add: at_time_def)
  have "led_by collect ?ids (1, ''b'') ?as (net_start 10000 150 [] ?ids)"
    by (simp add: at_time_def net_start_def turn_simps sole_leader_def)
  from one_leader_agreement [OF _ _ as this w(1)] w show ?thesis by simp
qed

text \<open>
  C9 (safety, refuted). Committed commands are not safe: in this run of three nodes, all three clients
  are answered, node \<open>a\<close> has applied \<open>SET k y\<close> and node \<open>b\<close> has applied \<open>SET k x\<close> and \<open>SET k z\<close> instead. The cause is
  that a follower acknowledges its own last index instead of the last index the leader sent.
\<close>

theorem raft_diverges:
  "\<exists>w. net_run collect
      (split_run (serialize_frame (command_frame [''SET'', ''k'', ''x''])) (serialize_frame (command_frame [''SET'', ''k'', ''y'']))
        (serialize_frame (command_frame [''SET'', ''k'', ''z''])))
      (net_start 10000 150 [] [''a'', ''b'', ''c'']) = Some w \<and>
    machine_of w ''a'' = [command_frame [''SET'', ''k'', ''y'']] \<and>
    machine_of w ''b'' = [command_frame [''SET'', ''k'', ''x''], command_frame [''SET'', ''k'', ''z'']] \<and>
    answers_to w = [(9, frame_ok), (7, frame_ok), (8, frame_ok)]"
proof -
  have wf: "wf_frame (command_frame [''SET'', ''k'', v])" if "length v < 2" for v
    using that by (simp add: command_frame_def)
  show ?thesis
    using split_run_result [OF wf [of "''x''"] wf [of "''y''"] wf [of "''z''"], where f = collect and s = "[]"]
    by (simp add: collect_def)
qed



text \<open>
  C11 (functional). Applying runs the state machine through exactly the committed entries that are not
  applied yet, in log order and each once, and moves \<open>last_applied\<close> to the commit index.
\<close>

theorem committed_applied_in_order:
  assumes "commit_index n < length (log n)"
  shows "\<exists>rs n'. apply_committed f n s =
      Some (rs, n', fold (\<lambda>e s. snd (apply_entry f e s)) (drop (last_applied n + 1) (take (commit_index n + 1) (log n))) s) \<and>
    last_applied n' = max (last_applied n) (commit_index n) \<and> log n' = log n"
  using apply_committed_spec [OF assms, of f s] by auto

theorem committed_applied_in_order_witness:
  "\<exists>rs n'. apply_committed collect sample_node [] = Some (rs, n', snd (apply_entry collect sample_entry [])) \<and>
    last_applied n' = 1 \<and> log n' = log sample_node"
  using committed_applied_in_order [of sample_node collect "[]"] by (simp add: sample_node_def start_raft_def)



text \<open>
  C13 (functional). Merging the entries of a message after the index \<open>prev\<close> keeps the log up to \<open>prev\<close>, ends up
  with the sender's terms at the sender's positions, removes nothing when nothing conflicts, and is
  idempotent, so a repeated message does no harm.
\<close>

theorem log_merge_laws:
  assumes "prev < length lg"
  shows "take (prev + 1) (merge_entries prev es lg) = take (prev + 1) lg \<and>
    prev + 1 + length es \<le> length (merge_entries prev es lg) \<and>
    agrees (prev + 1) es (merge_entries prev es lg) \<and>
    (agrees (prev + 1) es lg \<longrightarrow> take (length lg) (merge_entries prev es lg) = lg) \<and>
    merge_entries prev es (merge_entries prev es lg) = merge_entries prev es lg"
  using merge_entries_laws [OF assms] by blast

theorem log_merge_laws_witness:
  "merge_entries 0 [\<lparr>entry_term = 2, command = ''y''\<rparr>]
      (merge_entries 0 [\<lparr>entry_term = 2, command = ''y''\<rparr>] [\<lparr>entry_term = 0, command = []\<rparr>, sample_entry]) =
    [\<lparr>entry_term = 0, command = []\<rparr>, \<lparr>entry_term = 2, command = ''y''\<rparr>]"
proof -
  have "merge_entries 0 [\<lparr>entry_term = 2, command = ''y''\<rparr>] [\<lparr>entry_term = 0, command = []\<rparr>, sample_entry] =
      [\<lparr>entry_term = 0, command = []\<rparr>, \<lparr>entry_term = 2, command = ''y''\<rparr>]"
    by (simp add: merge_entries_def sample_entry_def)
  with log_merge_laws [of 0 "[\<lparr>entry_term = 0, command = []\<rparr>, sample_entry]" "[\<lparr>entry_term = 2, command = ''y''\<rparr>]"]
  show ?thesis by simp
qed

text \<open>
  C14 (round trip). An RPC arrives as it was sent: the server's end waits while the bytes are incomplete
  and then hands over the RPC, and the sender reads the reply whatever the cut into reads.
\<close>

theorem rpc_over_the_wire:
  assumes "rpc_ok r"
  shows "rpc_server_read (serialize_frame (rpc_to_frame r)) = Got r \<and>
    (\<forall>p q. serialize_frame (rpc_to_frame r) = p @ q \<longrightarrow> q \<noteq> [] \<longrightarrow> rpc_server_read p = More) \<and>
    (\<forall>chunks. chunks \<noteq> [] \<longrightarrow> concat chunks = serialize_frame (rpc_to_frame r) \<longrightarrow> send_rpc_to [] chunks = Some r)"
  using rpc_delivered [OF assms] rpc_answered [OF assms, of "[]"] by simp

theorem rpc_over_the_wire_witness:
  "rpc_server_read (serialize_frame (rpc_to_frame (AppendEntries 2 ''a'' 1 1 [sample_entry] 0))) =
    Got (AppendEntries 2 ''a'' 1 1 [sample_entry] 0)"
proof -
  have "is_utf8 ''a''" by code_simp
  moreover have "length (command sample_entry) < 2 ^ 63"
    by (simp add: sample_entry_def serialize_eq command_frame_def) (simp add: show_nat.simps)
  ultimately have "rpc_ok (AppendEntries 2 ''a'' 1 1 [sample_entry] 0)" by (simp add: sample_entry_def)
  from rpc_over_the_wire [OF this] show ?thesis by blast
qed

section \<open>Full synchronisation\<close>



section \<open>The append-only file and the commands\<close>

text \<open>
  C16 (error). A file that was cut anywhere, as by a crash in the middle of a write, loads as a prefix
  of the commands that were written: none is garbled, and only those past the cut are missing.
\<close>

theorem aof_cut_recovers:
  assumes "\<forall>c \<in> set cmds. sendable c" and "aof_file a = []" and "aof_file (fold write_resp cmds a) = p @ lost"
  shows "\<exists>k \<le> length cmds. load_frames (Some p) = map command_frame (take k cmds) \<and>
    length (concat (map resp_bytes (take k cmds))) \<le> length p \<and> (lost \<noteq> [] \<longrightarrow> k < length cmds)"
  by (rule load_frames_cut [OF assms])

theorem aof_cut_recovers_witness:
  "\<exists>k \<le> 1. load_frames (Some ''*2'') = map command_frame (take k [[''INCR'', ''n'']]) \<and> k < 1"
proof -
  let ?a = "\<lparr>aof_file = [], aof_path = ''f''\<rparr>"
  have "aof_file (fold write_resp [[''INCR'', ''n'']] ?a) = ''*2'' @ (CRLF @ ''$4'' @ CRLF @ ''INCR'' @ CRLF @ ''$1'' @ CRLF @ ''n'' @ CRLF)"
    by code_simp
  from aof_cut_recovers [OF _ _ this] show ?thesis by (simp add: sendable_def)
qed

text \<open>
  C17 (safety). A command only ever appends whole commands to the file; what is there is never changed.
\<close>

theorem aof_append_only:
  assumes "execute e f c = Some (resp, c')"
  shows "\<exists>ws. map_option aof_file (journal (cdb c')) = map_option (\<lambda>a. aof_file a @ concat (map resp_bytes ws)) (journal (cdb c))"
proof -
  have "journal_grows e (cdb c) (cdb c')" by (rule aof.execute_R [OF assms]) simp
  then obtain ws where ws: "journal (cdb c') = map_option (fold write_resp ws) (journal (cdb c))" by (auto simp: journal_grows_def)
  have "aof_file (fold write_resp ws a) = aof_file a @ concat (map resp_bytes ws)" for a
    using aof_file_writes [of ws a] by (simp add: comp_def resp_bytes_eq)
  with ws show ?thesis by (intro exI [of _ ws]) (simp add: option.map_comp comp_def)
qed

theorem aof_append_only_witness:
  "\<exists>resp c' ws. execute (sample_env 0) ping_frame (sample_ctx sample_db) = Some (resp, c') \<and>
    map_option aof_file (journal (cdb c')) = Some (concat (map resp_bytes ws))"
proof -
  obtain resp c' where e: "execute (sample_env 0) ping_frame (sample_ctx sample_db) = Some (resp, c')"
    by (simp add: execute_ping)
  from aof_append_only [OF e] e show ?thesis by (auto simp: sample_ctx_def sample_db_def)
qed





section \<open>The cluster\<close>



text \<open>
  C21 (safety). Nodes started with the same member list, in whatever order they were given it, agree on
  one owner for every slot, a member; and exactly the owner takes the slot for its own.
\<close>

theorem one_owner_per_slot:
  assumes "cluster_new ns a = Some (Inr c)" and "cluster_new ns' b = Some (Inr c')" and "set ns = set ns'" and "s < NUM_SLOTS"
  shows "node_for_slot c s \<in> set ns \<and> node_for_slot c s = node_for_slot c' s \<and> (is_mine c s \<longleftrightarrow> node_for_slot c' s = a)"
  using one_owner [OF assms] by blast

theorem one_owner_per_slot_witness:
  "\<exists>c c'. cluster_new [''a:1'', ''b:2''] ''a:1'' = Some (Inr c) \<and> cluster_new [''b:2'', ''a:1''] ''b:2'' = Some (Inr c') \<and>
    node_for_slot c (slot_for_key ''x'') = node_for_slot c' (slot_for_key ''x'') \<and>
    is_mine c (slot_for_key ''x'') = (node_for_slot c' (slot_for_key ''x'') = ''a:1'')"
proof -
  have "card (set [''a:1'', ''b:2'']) \<le> NUM_SLOTS" "card (set [''b:2'', ''a:1'']) \<le> NUM_SLOTS" by (simp_all add: NUM_SLOTS_def)
  then obtain c c' where c: "cluster_new [''a:1'', ''b:2''] ''a:1'' = Some (Inr c)" "cluster_new [''b:2'', ''a:1''] ''b:2'' = Some (Inr c')"
    using cluster_new_defined [of "''a:1''" "[''a:1'', ''b:2'']"] cluster_new_defined [of "''b:2''" "[''b:2'', ''a:1'']"] by auto
  have "set [''a:1'', ''b:2''] = set [''b:2'', ''a:1'']" by auto
  from one_owner_per_slot [OF c this slot_for_key_less, of "''x''"] c show ?thesis by blast
qed



text \<open>
  C23 (functional). Draining slots removes from the store exactly the live keys of those slots and
  returns exactly their values and times to live; every other key stays as it is.
\<close>

theorem drain_slots_exact:
  assumes "store_inv s"
  shows "lookup (snd (drain_slots now slots s)) k =
      (if slot_for_key k \<in> set slots \<and> drainable now s k then None else lookup s k) \<and>
    set (fst (drain_slots now slots s)) =
      {(k, v, pttl) | k v pttl. slot_for_key k \<in> set slots \<and> live now s k = Some v \<and> pttl = store_pttl now k s \<and> pttl \<noteq> - 2}"
  using drain_slots_spec [OF assms, of now slots] by simp

theorem drain_slots_exact_witness:
  "set (fst (drain_slots 0 [0] (snd (rpush [] [''a''] store_new)))) = {([], VList (LSmall [''a'']), - 1)} \<and>
    lookup (snd (drain_slots 0 [0] (snd (rpush [] [''a''] store_new)))) [] = None"
proof -
  have "store_inv (snd (rpush [] [''a''] store_new))" by (intro store_inv_list_ops store_inv_new)
  moreover have st: "snd (rpush [] [''a''] store_new) = \<lparr>data = [([], \<lparr>entry_value = VList (LSmall [''a'']), expires_at = None\<rparr>)]\<rparr>"
    by code_simp
  moreover have "slot_for_key [] = 0" by (simp add: slot_for_key_def hash_tag_def crc16_def)
  moreover have l: "live 0 (snd (rpush [] [''a''] store_new)) k = (if k = [] then Some (VList (LSmall [''a''])) else None)"
    "store_pttl 0 [] (snd (rpush [] [''a''] store_new)) = - 1" for k
    unfolding st by (simp_all add: live_def store_pttl_def lookup_def is_expired_def)
  ultimately show ?thesis
    using drain_slots_exact [of "snd (rpush [] [''a''] store_new)" 0 "[0]" "[]"] by (auto simp: drainable_def split: if_splits)
qed

text \<open>
  C24 (functional). Gossip is a join: a peer's state becomes the worst of what was known and what
  arrived. So the order of messages and their repetition make no difference.
\<close>

theorem gossip_is_a_join:
  "severity (state_or_alive (apply_gossip now us t) a) =
     Max (insert (severity (state_or_alive t a)) {severity st | st. (a, st) \<in> set us})"
  by (rule apply_gossip_severity)

text \<open>
  C25 (round trip). What one node gossips, another reads back as the same list of peers and states,
  for addresses that hold neither a comma nor an equals sign nor surrounding white space.
\<close>

theorem gossip_roundtrip:
  assumes "\<forall>(a, h) \<in> set t. plain_addr a"
  shows "parse_gossip (to_csv t) = health_snapshot t"
  by (rule parse_gossip_csv [OF assms])

theorem gossip_roundtrip_witness:
  "parse_gossip (to_csv (mark_alive 7 ''a:1'' [])) = health_snapshot (mark_alive 7 ''a:1'' [])"
proof (rule gossip_roundtrip)
  have "trim ''a:1'' = ''a:1''" by code_simp
  then show "\<forall>(a, h) \<in> set (mark_alive 7 ''a:1'' []). plain_addr a"
    by (simp add: mark_alive_def plain_addr_def)
qed

text \<open>
  C26 (termination). A round of heartbeats ends without a panic, whichever peers answer, and leaves a
  well-formed configuration with this node in it.
\<close>

theorem heartbeat_round_total:
  assumes "wf_config (config m)"
  shows "\<exists>m'. heartbeat_round ping now (my_addr (config m)) m = Some m' \<and> wf_config (config m') \<and>
    my_addr (config m') = my_addr (config m)"
  by (rule heartbeat_round_wf [OF assms])

theorem heartbeat_round_total_witness:
  "\<exists>cfg m'. cluster_new [''a:1'', ''b:2''] ''b:2'' = Some (Inr cfg) \<and>
    heartbeat_round (\<lambda>p. False) 7 ''b:2'' \<lparr>config = cfg, health = [], outbox = []\<rparr> = Some m' \<and> wf_config (config m')"
proof -
  obtain cfg where cfg: "cluster_new [''a:1'', ''b:2''] ''b:2'' = Some (Inr cfg)" by (rule sample_cluster)
  with heartbeat_round_total [of "\<lparr>config = cfg, health = [], outbox = []\<rparr>" "\<lambda>p. False" 7] cluster_new_wf [OF cfg]
  show ?thesis by auto
qed

text \<open>
  C27 (safety). A peer once marked failed stays failed: no round of heartbeats, even one in which the peer
  would answer, marks it alive again while it is a member.
\<close>

theorem failed_peer_stays_failed:
  assumes "is_failed a (health m)" and "a \<in> set (nodes (config m))" and "heartbeat_round ping now me m = Some m'"
  shows "is_failed a (health m')"
  by (rule heartbeat_round_failed [OF assms])

theorem failed_peer_stays_failed_witness:
  "\<exists>cfg m'. cluster_new [''a:1'', ''b:2''] ''b:2'' = Some (Inr cfg) \<and>
    heartbeat_round (\<lambda>p. True) 7 ''b:2'' \<lparr>config = cfg, health = apply_gossip 5 [(''a:1'', Failed)] [], outbox = []\<rparr> = Some m' \<and>
    is_failed ''a:1'' (health m')"
proof -
  obtain cfg where cfg: "cluster_new [''a:1'', ''b:2''] ''b:2'' = Some (Inr cfg)" by (rule sample_cluster)
  let ?m = "\<lparr>config = cfg, health = apply_gossip 5 [(''a:1'', Failed)] [], outbox = []\<rparr>"
  note wf = cluster_new_wf [OF cfg]
  obtain m' where m': "heartbeat_round (\<lambda>p. True) 7 ''b:2'' ?m = Some m'" using heartbeat_round_wf [of ?m "\<lambda>p. True" 7] wf by auto
  have "is_failed ''a:1'' (health ?m)"
    by (simp add: apply_gossip_def Let_def is_failed_def entry_or_default_def default_health_def)
  from failed_peer_stays_failed [OF this _ m'] wf m' cfg show ?thesis by auto
qed

text \<open>
  C28 (liveness). A node that serves a connection answers the heartbeat \<open>PING\<close>, whatever its role and however
  request and reply are cut into reads, so that \<open>try_ping\<close> succeeds.
\<close>

theorem ping_succeeds:
  assumes "concat request = serialize_frame ping_frame" and "\<forall>chunk \<in> set request. chunk \<noteq> []"
  shows "\<exists>s. handle_connection ev request ([], new_session c) = Some ([], s) \<and>
    (\<forall>chunks. chunks \<noteq> [] \<longrightarrow> concat chunks = concat (written s) \<longrightarrow> try_ping chunks)"
  by (rule ping_answered [OF assms])

theorem ping_succeeds_witness:
  "\<exists>s. handle_connection sample_env [serialize_frame ping_frame] ([], new_session (sample_ctx sample_db)) = Some ([], s) \<and>
    try_ping [concat (written s)]"
  using ping_succeeds [of "[serialize_frame ping_frame]" sample_env "sample_ctx sample_db"] write_frame_pos [of ping_frame]
  by (auto simp: serialize_eq)

section \<open>The types of values\<close>

text \<open>
  C29 (type). A command other than the seven that overwrite whole values never changes the type of a key: if
  \<open>TYPE\<close> reports a type before the command and a type after it, at whatever times, it is the same.
\<close>

theorem types_are_kept:
  assumes "execute e (Array (Some args)) c = Some (r, c')" and "command_name args = Some cmd" and "cmd \<notin> overwrites"
    and "type_of t k (ctx_store c) \<noteq> ''none''" and "type_of t' k (ctx_store c') \<noteq> ''none''"
  shows "type_of t' k (ctx_store c') = type_of t k (ctx_store c)"
proof -
  have "kinds_kept e (cdb c) (cdb c')" using assms(2,3) by (intro kinds.execute_R [OF assms(1)]) auto
  from kinds_kept_type [OF this assms(4,5)] show ?thesis .
qed

theorem types_are_kept_witness:
  "\<exists>c c' r. execute_all sample_env (map command_frame sample_calls) (sample_ctx sample_db) = Some c \<and>
    execute (sample_env 2) (command_frame [''INCR'', ''l'']) c = Some (r, c') \<and>
    type_of 2 ''l'' (ctx_store c') = ''list''"
proof -
  have n: "command_name (bulk_args [''INCR'', ''l'']) = Some ''INCR''"
    "map_of dispatch_table ''INCR'' = Some (updates (\<lambda>e. cmd_incrby 1))" by (code_simp, simp add: table_defs)
  let ?d = "snd (cmd_incrby 1 (bulk_args [''INCR'', ''n'']) (snd (cmd_rpush (bulk_args [''RPUSH'', ''l'', ''a'', ''b'']) sample_db)))"
  obtain c where c: "execute_all sample_env (map command_frame sample_calls) (sample_ctx sample_db) = Some c" "cdb c = ?d" "leads c"
    using sample_run by blast
  obtain r c' where c': "execute (sample_env 2) (Array (Some (bulk_args [''INCR'', ''l'']))) c = Some (r, c')"
    "cdb c' = snd (cmd_incrby 1 (bulk_args [''INCR'', ''l'']) ?d)"
    using leader_updates [OF n c(3), of "sample_env 2"] c(2) by auto
  have d: "type_of 2 ''l'' (kv ?d) = ''list''" "type_of 2 ''l'' (kv (snd (cmd_incrby 1 (bulk_args [''INCR'', ''l'']) ?d))) \<noteq> ''none''"
    by code_simp+
  have "type_of 2 ''l'' (ctx_store c') = type_of 2 ''l'' (ctx_store c)"
    by (rule types_are_kept [OF c'(1) n(1)]) (use c(2) c'(2) d in \<open>simp_all add: overwrites_def\<close>)
  with c c' d show ?thesis by (auto simp: command_frame_def)
qed

section \<open>Keys, strings and counters\<close>

text \<open>
  C30 (functional). After a \<open>SET\<close>, \<open>GET\<close> finds the value until its time to live has passed and nothing after;
  every other key reads as before.
\<close>

theorem set_then_get:
  assumes "store_set now k v ttl s = Some s'"
  shows "fst (store_get t k' s') =
    (if k' = k then (case ttl of Some d \<Rightarrow> if now + d < t then None else Some v | None \<Rightarrow> Some v) else fst (store_get t k' s))"
  by (simp add: store_get_live live_set [OF assms])

theorem set_then_get_witness:
  "\<exists>s'. store_set 3 ''k'' (VString ''v'') (Some 10) store_new = Some s' \<and>
    fst (store_get 13 ''k'' s') = Some (VString ''v'') \<and> fst (store_get 14 ''k'' s') = None"
proof -
  obtain s' where s': "store_set 3 ''k'' (VString ''v'') (Some 10) store_new = Some s'"
    by (simp add: store_set_def instant_add_def INSTANT_LIMIT_def)
  from set_then_get [OF s', of 13 "''k''"] set_then_get [OF s', of 14 "''k''"] s' show ?thesis by simp
qed

text \<open>
  C31 (functional). \<open>EXPIRE\<close> succeeds exactly on a key that is there; then \<open>PTTL\<close> counts down the remaining
  milliseconds and reports the key as gone from the deadline on. Otherwise nothing changes.
\<close>

theorem expire_counts_down:
  assumes "store_expire now k ttl s = Some (b, s')"
  shows "(b \<longleftrightarrow> live now s k \<noteq> None) \<and>
    (if b then \<forall>t. store_pttl t k s' = (if now + ttl \<le> t then - 2 else i64_wrap (int ((now + ttl - t) div 1000000)))
     else s' = s)"
  using expire_live [OF assms] by simp

theorem expire_counts_down_witness:
  "\<exists>s'. store_expire 0 ''l'' 3000000 (snd (rpush ''l'' [''a''] store_new)) = Some (True, s') \<and>
    store_pttl 1000000 ''l'' s' = 2 \<and> store_pttl 3000000 ''l'' s' = - 2"
proof -
  have st: "snd (rpush ''l'' [''a''] store_new) = \<lparr>data = [(''l'', \<lparr>entry_value = VList (LSmall [''a'']), expires_at = None\<rparr>)]\<rparr>"
    by code_simp
  obtain s' where s': "store_expire 0 ''l'' 3000000 (snd (rpush ''l'' [''a''] store_new)) = Some (True, s')"
    unfolding st by (simp add: store_expire_def instant_add_def INSTANT_LIMIT_def lookup_def is_expired_def)
  from expire_counts_down [OF s'] have "\<forall>t. store_pttl t ''l'' s' =
      (if 0 + 3000000 \<le> t then - 2 else i64_wrap (int ((0 + 3000000 - t) div 1000000)))" unfolding if_True by blast
  from spec [OF this, of 1000000] spec [OF this, of 3000000] s' show ?thesis by (simp add: i64_wrap_def)
qed

text \<open>
  C32 (bounds). Adding to a counter gives the exact sum while it fits in 64 bits; otherwise it reports the
  overflow and the counter keeps its value. It never wraps.
\<close>

theorem counter_never_wraps:
  assumes "counter_at k s = Some n"
  shows "fst (incrby k d s) = (if is_i64 (n + d) then Inr (n + d) else Inl IncrOverflow) \<and>
    counter_at k (snd (incrby k d s)) = Some (if is_i64 (n + d) then n + d else n)"
  using incrby_spec [OF assms] by blast

theorem counter_never_wraps_witness:
  "fst (incrby ''n'' 5 store_new) = Inr 5 \<and> counter_at ''n'' (snd (incrby ''n'' 5 store_new)) = Some 5"
proof -
  have "counter_at ''n'' store_new = Some 0"
    by (simp add: counter_at_def contents_def lookup_def store_new_def parse_trimmed_zero)
  from counter_never_wraps [OF this, of 5] show ?thesis by (simp add: is_i64_def)
qed

section \<open>Lists, hashes and sets\<close>



text \<open>
  C34 (functional). \<open>LMOVE\<close> between two lists moves one element: the reply is the element, and no element is
  lost or duplicated, also when source and destination are the same list.
\<close>

theorem lmove_conserves:
  assumes "list_at src s = Some xs" and "xs \<noteq> []" and "list_at dst s = Some ys"
  shows "fst (lmove src dst fl tt s) = Inr (Some (end_elem fl xs)) \<and>
    (\<exists>xs' ys'. list_at src (snd (lmove src dst fl tt s)) = Some xs' \<and> list_at dst (snd (lmove src dst fl tt s)) = Some ys' \<and>
      (if src = dst then mset ys' = mset xs else mset xs' + mset ys' = mset xs + mset ys))"
  using lmove_spec [OF assms, of fl tt] mset_end [OF assms(2), of fl]
  by (cases "src = dst") (auto simp: mset_end_put)

theorem lmove_conserves_witness:
  "fst (lmove ''l'' ''m'' True False (snd (rpush ''l'' [''a'', ''b''] store_new))) = Inr (Some ''a'')"
proof -
  have "list_at ''l'' (snd (rpush ''l'' [''a'', ''b''] store_new)) = Some [''a'', ''b'']"
    and "list_at ''m'' (snd (rpush ''l'' [''a'', ''b''] store_new)) = Some []" by code_simp+
  from lmove_conserves [OF this(1) _ this(2), of True False] show ?thesis by (simp add: end_elem_def)
qed

text \<open>
  C35 (error). \<open>LMOVE\<close> to a destination of another type reports the type error after it has removed the
  element from the source: the element is lost.
\<close>

theorem lmove_loses_element:
  assumes "list_at src s = Some xs" and "xs \<noteq> []" and "list_at dst s = None"
  shows "fst (lmove src dst fl tt s) = Inl WrongType \<and> list_at src (snd (lmove src dst fl tt s)) = Some (end_rest fl xs)"
  using lmove_loses [OF assms] by blast

theorem lmove_loses_element_witness:
  "fst (lmove ''l'' ''n'' True True (snd (rpush ''l'' [''a''] (snd (incrby ''n'' 1 store_new))))) = Inl WrongType \<and>
    list_at ''l'' (snd (lmove ''l'' ''n'' True True (snd (rpush ''l'' [''a''] (snd (incrby ''n'' 1 store_new)))))) = Some []"
proof -
  have "list_at ''l'' (snd (rpush ''l'' [''a''] (snd (incrby ''n'' 1 store_new)))) = Some [''a'']"
    and "list_at ''n'' (snd (rpush ''l'' [''a''] (snd (incrby ''n'' 1 store_new)))) = None" by code_simp+
  from lmove_loses_element [OF this(1) _ this(2), of True True] show ?thesis by (simp add: end_rest_def)
qed

text \<open>
  C36 (refinement). A stored hash, in either encoding, is a finite map: \<open>HSET\<close> updates it and counts new fields,
  \<open>HGET\<close> reads it back, \<open>HDEL\<close> restricts it and counts the fields it removed.
\<close>

theorem hash_is_a_map:
  assumes "hash_at k s = Some m" and "store_inv s"
  shows "fst (store_hset k f v s) = Inr (if m f = None then 1 else 0) \<and>
    hash_at k (snd (store_hset k f v s)) = Some (m(f \<mapsto> v)) \<and> hget k f (snd (store_hset k f v s)) = Inr (Some v) \<and>
    fst (store_hdel k fs s) = Inr (card (dom m \<inter> set fs)) \<and> hash_at k (snd (store_hdel k fs s)) = Some (m |` (- set fs))"
  using hset_spec [OF assms] hdel_spec [OF assms] by simp

theorem hash_is_a_map_witness:
  "fst (store_hset ''h'' ''f'' ''v'' store_new) = Inr 1 \<and> hget ''h'' ''f'' (snd (store_hset ''h'' ''f'' ''v'' store_new)) = Inr (Some ''v'')"
proof -
  have "hash_at ''h'' store_new = Some Map.empty"
    by (simp add: hash_at_def contents_def lookup_def store_new_def hash_lookup_new)
  from hash_is_a_map [OF this store_inv_new(1), of "''f''" "''v''"] show ?thesis by simp
qed

text \<open>
  C37 (equivalence). \<open>SUNION\<close>, \<open>SINTER\<close> and \<open>SDIFF\<close> over any keys give, without duplicates, the union,
  intersection and difference of the stored sets; a key of another type makes all three report the type.
\<close>

theorem set_algebra:
  assumes "store_inv s"
  shows "if \<forall>k \<in> set ks. set_at k s \<noteq> None
    then (\<exists>ms. sunion ks s = Inr ms \<and> distinct ms \<and> set ms = sets_union (map (\<lambda>k. the (set_at k s)) ks)) \<and>
      (\<exists>ms. sinter ks s = Inr ms \<and> distinct ms \<and> set ms = sets_inter (map (\<lambda>k. the (set_at k s)) ks)) \<and>
      (\<exists>ms. sdiff ks s = Inr ms \<and> distinct ms \<and> set ms = sets_diff (map (\<lambda>k. the (set_at k s)) ks))
    else sunion ks s = Inl WrongType \<and> sinter ks s = Inl WrongType \<and> sdiff ks s = Inl WrongType"
  using set_algebra_spec [OF _ assms, of ks] set_algebra_wrong [of ks s] by auto

theorem set_algebra_witness:
  "\<exists>ms. sunion [''s'', ''t''] (snd (store_sadd ''s'' [''a'', ''b''] store_new)) = Inr ms \<and> distinct ms \<and> set ms = {''a'', ''b''}"
proof -
  let ?s = "snd (store_sadd ''s'' [''a'', ''b''] store_new)"
  have new: "set_at k store_new = Some {}" for k by (simp add: set_at_def contents_def lookup_def store_new_def)
  have inv: "store_inv ?s" by (intro store_inv_set_ops store_inv_new)
  have "set_at ''s'' ?s = Some {''a'', ''b''}" using sadd_spec(2) [OF new store_inv_new(1), of "''s''" "[''a'', ''b'']"] by simp
  moreover have "?s = \<lparr>data = [(''s'', \<lparr>entry_value = VSet (SSmall [''a'', ''b'']), expires_at = None\<rparr>)]\<rparr>" by code_simp
  then have "set_at ''t'' ?s = Some {}" by (simp add: set_at_def contents_def lookup_def)
  ultimately show ?thesis using set_algebra [OF inv, of "[''s'', ''t'']"] by simp
qed

section \<open>Sorted sets\<close>

text \<open>
  C38 (bounds). The 64-bit encoding of scores is a bijection, and between scores that are numbers the order
  of the codes is the order of the scores, negative ones and infinities included.
\<close>

theorem score_encoding:
  "decode_score (encode_score x) = x \<and> encode_score (decode_score e) = e \<and>
    (f64_lt x y \<longrightarrow> encode_score x < encode_score y) \<and>
    (encode_score x \<le> encode_score y \<longrightarrow> \<not> is_nan x \<longrightarrow> \<not> is_nan y \<longrightarrow> f64_le x y)"
  using decode_encode encode_decode encode_score_less encode_score_le by blast

theorem score_encoding_witness:
  "encode_score f64_zero < encode_score f64_one"
  using score_encoding [of f64_zero 0 f64_one] by (simp add: zero_one)



section \<open>Writes the file does not record\<close>

text \<open>
  C40 (safety, refuted). A pop is acknowledged but not written to the append-only file: after a restart
  the popped element is back.
\<close>

theorem pop_undone_by_restart:
  "\<exists>c c' r. execute_all sample_env (map command_frame sample_calls) (sample_ctx sample_db) = Some c \<and>
    execute (sample_env 2) (command_frame [''LPOP'', ''l'']) c = Some (Bulk (Some ''a''), c') \<and>
    list_at ''l'' (ctx_store c') = Some [''b''] \<and>
    boot_store sample_env (\<lambda>p. map_option aof_file (journal (cdb c'))) sample_args = Some r \<and>
    list_at ''l'' (kv (fst r)) = Some [''a'', ''b'']"
proof -
  have n: "command_name (map (\<lambda>p. Bulk (Some p)) [''LPOP'', ''l'']) = Some ''LPOP''" by code_simp
  let ?d = "snd (cmd_incrby 1 (bulk_args [''INCR'', ''n'']) (snd (cmd_rpush (bulk_args [''RPUSH'', ''l'', ''a'', ''b'']) sample_db)))"
  obtain c where c: "execute_all sample_env (map command_frame sample_calls) (sample_ctx sample_db) = Some c" "cdb c = ?d" "leads c"
    using sample_run by blast
  have d: "fst (cmd_lpop (bulk_args [''LPOP'', ''l'']) ?d) = Bulk (Some ''a'')"
    "list_at ''l'' (kv (snd (cmd_lpop (bulk_args [''LPOP'', ''l'']) ?d))) = Some [''b'']"
    "list_at ''l'' (kv ?d) = Some [''a'', ''b'']" by code_simp+
  have j: "journal (snd (cmd_lpop (bulk_args [''LPOP'', ''l'']) ?d)) = journal ?d" by (rule collection_cmds_same)
  obtain c' where c': "execute (sample_env 2) (command_frame [''LPOP'', ''l'']) c = Some (Bulk (Some ''a''), c')"
    "cdb c' = snd (cmd_lpop (bulk_args [''LPOP'', ''l'']) ?d)"
    using leader_updates [OF n replicated_entries(1) c(3), of "sample_env 2"] c(2) d(1) unfolding command_frame_def by auto
  have "boot_store sample_env (\<lambda>p. map_option aof_file (journal (cdb c'))) sample_args = Some (cdb c, boot_repl sample_args)"
    by (rule reload_run [OF sample_durable _ c(1)])
      (use c(2) c'(2) j in \<open>simp_all add: sample_args_def sample_ctx_def sample_db_def\<close>)
  with c c' d show ?thesis by (intro exI conjI) (assumption | simp)+
qed

end
